(* ===== verification/Sledge_Prelude.thy ===== *)
theory Sledge_Prelude
  imports Main "HOL-Library.Word" "HOL-Library.Multiset"
begin

text \<open>
  What every theory of the development shares: the machine integers of the C sources, the ways in
  which the process can stop (\<open>assert\<close> is enabled in the default build of runtime/Makefile, so a
  failing assertion is a behaviour of the program), the result type of operations that may stop,
  the errno values that the runtime returns, and lemmas about arrays seen as lists.
\<close>

type_synonym u8 = "8 word"
type_synonym u16 = "16 word"
type_synonym u32 = "32 word"
type_synonym u64 = "64 word"

text \<open>
  The values of \<open>abort\<close>: a failing \<open>assert\<close>, a call of \<open>panic\<close>, the use of a null
  pointer, an access outside an array, a division that the processor refuses (SIGFPE), an access to
  memory that is not mapped (SIGSEGV), and a WebAssembly trap with its number.
\<close>

datatype abort = Assertion_Failure | Panic | Null_Dereference | Out_Of_Bounds | Division_By_Zero | Segfault | Wasm_Trap nat

type_synonym 'a res = "abort + 'a"

fun bindr :: "'a res \<Rightarrow> ('a \<Rightarrow> 'b res) \<Rightarrow> 'b res" where
  "bindr (Inl e) f = Inl e"
| "bindr (Inr x) f = f x"

definition assertc :: "bool \<Rightarrow> 'a res \<Rightarrow> 'a res" where
  "assertc b k = (if b then k else Inl Assertion_Failure)"

definition ENOENT :: int where "ENOENT = 2"
definition EAGAIN :: int where "EAGAIN = 11"
definition ENOMEM :: int where "ENOMEM = 12"
definition ENOSPC :: int where "ENOSPC = 28"

definition UINT64_MAX :: u64 where "UINT64_MAX = - 1"
definition UINT32_MAX :: u32 where "UINT32_MAX = - 1"

definition swap_slots :: "'a list \<Rightarrow> nat \<Rightarrow> nat \<Rightarrow> 'a list" where
  "swap_slots xs i j = xs[i := xs ! j, j := xs ! i]"

named_theorems errno_defs \<open>the numeric values of the errno constants\<close>
named_theorems wf_intros \<open>introduction rules for well-formedness invariants\<close>

declare ENOENT_def [errno_defs] EAGAIN_def [errno_defs] ENOMEM_def [errno_defs] ENOSPC_def [errno_defs]

lemma bindr_cong [fundef_cong]:
  "\<lbrakk>m = m'; \<And>x. m' = Inr x \<Longrightarrow> f x = f' x\<rbrakk> \<Longrightarrow> bindr m f = bindr m' f'"
  by (cases m') auto

lemma bindr_eq_Inr_conv [simp]: "bindr m f = Inr y \<longleftrightarrow> (\<exists>x. m = Inr x \<and> f x = Inr y)"
  by (cases m) auto

lemma assertc_eq_Inr_conv [simp]: "assertc b k = Inr y \<longleftrightarrow> b \<and> k = Inr y"
  by (simp add: assertc_def)

lemma assertc_True [simp]: "assertc True k = k"
  by (simp add: assertc_def)

lemma assertc_False [simp]: "assertc False k = Inl Assertion_Failure"
  by (simp add: assertc_def)

lemma le_UINT64_MAX [simp]: "x \<le> UINT64_MAX"
  by (simp add: UINT64_MAX_def word_order.extremum)

lemma UINT64_MAX_le_iff [simp]: "UINT64_MAX \<le> x \<longleftrightarrow> x = UINT64_MAX"
  by (simp add: UINT64_MAX_def word_order.extremum_unique)

lemma less_imp_not_UINT64_MAX: "x < y \<Longrightarrow> x \<noteq> UINT64_MAX" for x y :: u64
  by (auto simp: UINT64_MAX_def word_order.extremum_strict)

lemma u32_bound [simp]: "unat (a :: u32) < 4294967296"
  using unsigned_less [of a] by simp

lemma unat_ucast_u32 [simp]: "unat (ucast (a :: u32) :: u64) = unat a"
proof -
  have "unat a < 2 ^ 64" by (rule less_trans [OF u32_bound]) simp
  then show ?thesis by (simp add: unsigned_ucast_eq take_bit_nat_eq_self_iff)
qed

lemma length_swap_slots [simp]: "length (swap_slots xs i j) = length xs"
  by (simp add: swap_slots_def)

lemma nth_swap_slots:
  "\<lbrakk>i < length xs; j < length xs; k < length xs\<rbrakk> \<Longrightarrow>
    swap_slots xs i j ! k = (if k = j then xs ! i else if k = i then xs ! j else xs ! k)"
  by (auto simp: swap_slots_def nth_list_update)

lemma mset_swap_slots [simp]:
  "\<lbrakk>i < length xs; j < length xs\<rbrakk> \<Longrightarrow> mset (swap_slots xs i j) = mset xs"
  by (simp add: swap_slots_def mset_swap)

lemma drop_swap_slots:
  "\<lbrakk>n \<le> i; n \<le> j; i < length xs; j < length xs\<rbrakk> \<Longrightarrow>
    drop n (swap_slots xs i j) = swap_slots (drop n xs) (i - n) (j - n)"
  by (simp add: swap_slots_def drop_update_swap)

lemma take_swap_slots:
  "\<lbrakk>i < n; j < n; i < length xs; j < length xs\<rbrakk> \<Longrightarrow>
    take n (swap_slots xs i j) = swap_slots (take n xs) i j"
  by (simp add: swap_slots_def take_update_swap)

end
