(* ===== verification/Priority_Queue.thy ===== *)
theory Priority_Queue
  imports Sledge_Prelude
begin

text \<open>
  The binary min-heap of runtime/include/priority_queue.h. Slot 0 of \<open>items\<close> is unused and a null
  slot is \<^const>\<open>None\<close>. The function pointer \<open>get_priority_fn\<close> is the argument \<open>gp\<close> of
  the operations, because it reads the element through a pointer and the elements of the
  multi-tenant schedulers change their priority while they are queued. The argument \<open>lt\<close> is
  \<open>listener_thread_is_running()\<close>, which some operations assert to be false. The field
  \<open>locked\<close> is \<open>lock_is_locked(&lock)\<close>: \<open>lock_acquire\<close> and \<open>lock_release\<close> stand for the calls of
  \<open>lock_lock\<close> and \<open>lock_unlock\<close> around an operation, without the time statistics that lock.h keeps.
\<close>

record 'a priority_queue =
  use_lock :: bool
  locked :: bool
  highest_priority :: u64
  pq_size :: nat
  pq_capacity :: nat
  pq_items :: "'a option list"

definition lock_acquire :: "'a priority_queue \<Rightarrow> 'a priority_queue" where
  "lock_acquire q = q\<lparr>locked := True\<rparr>"

definition lock_release :: "'a priority_queue \<Rightarrow> 'a priority_queue" where
  "lock_release q = q\<lparr>locked := False\<rparr>"

definition lock_ok :: "'a priority_queue \<Rightarrow> bool" where
  "lock_ok q \<longleftrightarrow> \<not> use_lock q \<or> locked q"

definition read_slot :: "'a option list \<Rightarrow> nat \<Rightarrow> 'a option res" where
  "read_slot its i = (if i < length its then Inr (its ! i) else Inl Out_Of_Bounds)"

definition slot_priority :: "('a \<Rightarrow> u64) \<Rightarrow> 'a option list \<Rightarrow> nat \<Rightarrow> u64 res" where
  "slot_priority gp its i = bindr (read_slot its i)
     (\<lambda>p. case p of None \<Rightarrow> Inl Null_Dereference | Some x \<Rightarrow> Inr (gp x))"

definition priority_queue_peek :: "'a priority_queue \<Rightarrow> u64" where
  "priority_queue_peek q = highest_priority q"

definition priority_queue_update_highest_priority :: "'a priority_queue \<Rightarrow> u64 \<Rightarrow> 'a priority_queue" where
  "priority_queue_update_highest_priority q p = q\<lparr>highest_priority := p\<rparr>"

definition priority_queue_append :: "'a priority_queue \<Rightarrow> 'a \<Rightarrow> (int \<times> 'a priority_queue) res" where
  "priority_queue_append q new_item =
     assertc (lock_ok q)
       (if pq_capacity q < pq_size q then Inl Panic
        else if pq_size q = pq_capacity q then Inr (- ENOSPC, q)
        else if Suc (pq_size q) < length (pq_items q)
        then Inr (0, q\<lparr>pq_size := Suc (pq_size q),
                       pq_items := (pq_items q)[Suc (pq_size q) := Some new_item]\<rparr>)
        else Inl Out_Of_Bounds)"

definition priority_queue_is_empty :: "'a priority_queue \<Rightarrow> bool res" where
  "priority_queue_is_empty q = assertc (lock_ok q) (Inr (pq_size q = 0))"

fun percolate_up_loop :: "('a \<Rightarrow> u64) \<Rightarrow> 'a priority_queue \<Rightarrow> nat \<Rightarrow> 'a priority_queue res" where
  "percolate_up_loop gp q i =
     (if i div 2 = 0 then Inr q
      else bindr (slot_priority gp (pq_items q) i) (\<lambda>pi.
           bindr (slot_priority gp (pq_items q) (i div 2)) (\<lambda>pp.
           if pi < pp
           then assertc (pi \<noteq> UINT64_MAX)
             (let q' = q\<lparr>pq_items := swap_slots (pq_items q) i (i div 2)\<rparr>
              in if i div 2 = 1
                 then bindr (slot_priority gp (pq_items q') 1) (\<lambda>p1.
                      percolate_up_loop gp (priority_queue_update_highest_priority q' p1) (i div 2))
                 else percolate_up_loop gp q' (i div 2))
           else Inr q)))"

definition priority_queue_percolate_up :: "('a \<Rightarrow> u64) \<Rightarrow> 'a priority_queue \<Rightarrow> 'a priority_queue res" where
  "priority_queue_percolate_up gp q =
     assertc (lock_ok q)
       (if pq_size q = 1
        then bindr (slot_priority gp (pq_items q) 1)
               (\<lambda>p. Inr (priority_queue_update_highest_priority q p))
        else percolate_up_loop gp q (pq_size q))"

definition priority_queue_find_smallest_child :: "('a \<Rightarrow> u64) \<Rightarrow> 'a priority_queue \<Rightarrow> nat \<Rightarrow> nat res" where
  "priority_queue_find_smallest_child gp q parent_index =
     assertc (1 \<le> parent_index \<and> parent_index \<le> pq_size q)
    (assertc (lock_ok q)
      (let l = 2 * parent_index; r = 2 * parent_index + 1
       in bindr (read_slot (pq_items q) l) (\<lambda>left. assertc (left \<noteq> None)
            (if pq_size q < r then Inr l
             else bindr (slot_priority gp (pq_items q) l) (\<lambda>pl.
                  bindr (slot_priority gp (pq_items q) r) (\<lambda>pr.
                  if pl < pr then Inr l else Inr r))))))"

text \<open>
  The loop of \<open>priority_queue_percolate_down\<close>: the parent index grows in each iteration and
  the loop stops once it has no child within the size, so the recursion is well-founded.
\<close>

function (sequential) percolate_down_loop ::
  "('a \<Rightarrow> u64) \<Rightarrow> 'a priority_queue \<Rightarrow> nat \<Rightarrow> 'a priority_queue res" where
  "percolate_down_loop gp q parent_index =
     (if 2 \<le> 2 * parent_index \<and> 2 * parent_index \<le> pq_size q
      then bindr (priority_queue_find_smallest_child gp q parent_index) (\<lambda>c.
           bindr (slot_priority gp (pq_items q) parent_index) (\<lambda>pp.
           bindr (slot_priority gp (pq_items q) c) (\<lambda>pc.
           if pp \<le> pc then Inr q
           else percolate_down_loop gp (q\<lparr>pq_items := swap_slots (pq_items q) c parent_index\<rparr>) c)))
      else Inr q)"
  by pat_completeness auto
termination
  by (relation "measure (\<lambda>(gp, q, p). pq_size q - p)")
    (auto simp: priority_queue_find_smallest_child_def Let_def split: if_splits)

definition priority_queue_percolate_down ::
  "bool \<Rightarrow> ('a \<Rightarrow> u64) \<Rightarrow> 'a priority_queue \<Rightarrow> nat \<Rightarrow> 'a priority_queue res" where
  "priority_queue_percolate_down lt gp q parent_index =
     assertc (lock_ok q) (assertc (\<not> lt)
       (bindr (percolate_down_loop gp q parent_index) (\<lambda>q'.
          if parent_index = 1
          then bindr (priority_queue_is_empty q') (\<lambda>e.
            if \<not> e
            then bindr (slot_priority gp (pq_items q') 1)
                   (\<lambda>p. Inr (priority_queue_update_highest_priority q' p))
            else Inr (priority_queue_update_highest_priority q' UINT64_MAX))
          else Inr q')))"

text \<open>
  The replacement of slot \<open>i\<close> by the last slot and the shortening of the heap, which
  \<open>priority_queue_dequeue_if_earlier_nolock\<close> does at the root and \<open>priority_queue_delete_nolock\<close>
  at the slot it found.
\<close>

definition replace_with_last :: "'a priority_queue \<Rightarrow> nat \<Rightarrow> 'a priority_queue" where
  "replace_with_last q i =
     q\<lparr>pq_items := (pq_items q)[i := pq_items q ! pq_size q, pq_size q := None],
       pq_size := pq_size q - 1\<rparr>"

definition priority_queue_dequeue_if_earlier_nolock ::
  "bool \<Rightarrow> ('a \<Rightarrow> u64) \<Rightarrow> 'a priority_queue \<Rightarrow> u64 \<Rightarrow> (int \<times> 'a option \<times> 'a priority_queue) res" where
  "priority_queue_dequeue_if_earlier_nolock lt gp q target_deadline =
     assertc (\<not> lt) (assertc (lock_ok q)
       (bindr (priority_queue_is_empty q) (\<lambda>e.
          if e \<or> target_deadline \<le> highest_priority q then Inr (- ENOENT, None, q)
          else bindr (read_slot (pq_items q) 1) (\<lambda>top.
               bindr (read_slot (pq_items q) (pq_size q)) (\<lambda>last.
               bindr (priority_queue_percolate_down lt gp (replace_with_last q 1) 1) (\<lambda>q'.
               Inr (0, top, q')))))))"

definition priority_queue_dequeue_if_earlier ::
  "bool \<Rightarrow> ('a \<Rightarrow> u64) \<Rightarrow> 'a priority_queue \<Rightarrow> u64 \<Rightarrow> (int \<times> 'a option \<times> 'a priority_queue) res" where
  "priority_queue_dequeue_if_earlier lt gp q target_deadline =
     bindr (priority_queue_dequeue_if_earlier_nolock lt gp (lock_acquire q) target_deadline)
       (\<lambda>(rc, x, q'). Inr (rc, x, lock_release q'))"

definition priority_queue_initialize :: "nat \<Rightarrow> bool \<Rightarrow> 'a priority_queue" where
  "priority_queue_initialize capacity ul =
     \<lparr>use_lock = ul, locked = False, highest_priority = UINT64_MAX, pq_size = 0,
      pq_capacity = capacity, pq_items = replicate (capacity + 1) None\<rparr>"

text \<open>
  Doubling the capacity. \<open>realloc\<close> may fail, in which case the result is \<^const>\<open>None\<close>, and it
  leaves the new slots indeterminate: their contents are the argument \<open>fresh\<close>.
\<close>

definition priority_queue_grow_nolock ::
  "bool \<Rightarrow> (nat \<Rightarrow> 'a option) \<Rightarrow> 'a priority_queue \<Rightarrow> 'a priority_queue option" where
  "priority_queue_grow_nolock realloc_ok fresh q =
     (let capacity = (if pq_capacity q = 0 then 1 else pq_capacity q * 2)
      in if realloc_ok
         then Some (q\<lparr>pq_capacity := capacity,
                      pq_items := pq_items q @ map fresh [length (pq_items q)..<capacity + 1]\<rparr>)
         else None)"

definition priority_queue_length_nolock :: "'a priority_queue \<Rightarrow> nat res" where
  "priority_queue_length_nolock q = assertc (lock_ok q) (Inr (pq_size q))"

definition priority_queue_length :: "'a priority_queue \<Rightarrow> (nat \<times> 'a priority_queue) res" where
  "priority_queue_length q =
     bindr (priority_queue_length_nolock (lock_acquire q)) (\<lambda>n. Inr (n, lock_release (lock_acquire q)))"

definition priority_queue_enqueue_nolock ::
  "('a \<Rightarrow> u64) \<Rightarrow> 'a priority_queue \<Rightarrow> 'a \<Rightarrow> (int \<times> 'a priority_queue) res" where
  "priority_queue_enqueue_nolock gp q v =
     assertc (lock_ok q)
       (bindr (priority_queue_append q v) (\<lambda>(rc, q').
          if rc = - ENOSPC then Inr (- ENOSPC, q')
          else bindr (priority_queue_percolate_up gp q') (\<lambda>q''. Inr (0, q''))))"

definition priority_queue_enqueue ::
  "('a \<Rightarrow> u64) \<Rightarrow> 'a priority_queue \<Rightarrow> 'a \<Rightarrow> (int \<times> 'a priority_queue) res" where
  "priority_queue_enqueue gp q v =
     bindr (priority_queue_enqueue_nolock gp (lock_acquire q) v) (\<lambda>(rc, q'). Inr (rc, lock_release q'))"

function (sequential) delete_search ::
  "bool \<Rightarrow> ('a \<Rightarrow> u64) \<Rightarrow> 'a priority_queue \<Rightarrow> 'a \<Rightarrow> nat \<Rightarrow> (int \<times> 'a priority_queue) res" where
  "delete_search lt gp q v i =
     (if i \<le> pq_size q
      then bindr (read_slot (pq_items q) i) (\<lambda>x.
           if x = Some v
           then bindr (read_slot (pq_items q) (pq_size q)) (\<lambda>last.
                bindr (priority_queue_percolate_down lt gp (replace_with_last q i) i) (\<lambda>q'.
                Inr (0, q')))
           else delete_search lt gp q v (Suc i))
      else Inr (- 1, q))"
  by pat_completeness auto
termination
  by (relation "measure (\<lambda>(lt, gp, q, v, i). Suc (pq_size q) - i)") auto

definition priority_queue_delete_nolock ::
  "bool \<Rightarrow> ('a \<Rightarrow> u64) \<Rightarrow> 'a priority_queue \<Rightarrow> 'a \<Rightarrow> (int \<times> 'a priority_queue) res" where
  "priority_queue_delete_nolock lt gp q v = assertc (lock_ok q) (delete_search lt gp q v 1)"

definition priority_queue_delete ::
  "bool \<Rightarrow> ('a \<Rightarrow> u64) \<Rightarrow> 'a priority_queue \<Rightarrow> 'a \<Rightarrow> (int \<times> 'a priority_queue) res" where
  "priority_queue_delete lt gp q v =
     bindr (priority_queue_delete_nolock lt gp (lock_acquire q) v) (\<lambda>(rc, q'). Inr (rc, lock_release q'))"

definition priority_queue_dequeue ::
  "bool \<Rightarrow> ('a \<Rightarrow> u64) \<Rightarrow> 'a priority_queue \<Rightarrow> (int \<times> 'a option \<times> 'a priority_queue) res" where
  "priority_queue_dequeue lt gp q = priority_queue_dequeue_if_earlier lt gp q UINT64_MAX"

definition priority_queue_dequeue_nolock ::
  "bool \<Rightarrow> ('a \<Rightarrow> u64) \<Rightarrow> 'a priority_queue \<Rightarrow> (int \<times> 'a option \<times> 'a priority_queue) res" where
  "priority_queue_dequeue_nolock lt gp q = priority_queue_dequeue_if_earlier_nolock lt gp q UINT64_MAX"

definition priority_queue_top_nolock :: "'a priority_queue \<Rightarrow> (int \<times> 'a option) res" where
  "priority_queue_top_nolock q =
     assertc (lock_ok q)
       (bindr (priority_queue_is_empty q) (\<lambda>e.
          if e then Inr (- ENOENT, None)
          else bindr (read_slot (pq_items q) 1) (\<lambda>x. Inr (0, x))))"

definition priority_queue_top :: "'a priority_queue \<Rightarrow> (int \<times> 'a option \<times> 'a priority_queue) res" where
  "priority_queue_top q =
     bindr (priority_queue_top_nolock (lock_acquire q))
       (\<lambda>(rc, x). Inr (rc, x, lock_release (lock_acquire q)))"


subsection \<open>Invariant\<close>

definition key :: "('a \<Rightarrow> u64) \<Rightarrow> 'a option list \<Rightarrow> nat \<Rightarrow> u64" where
  "key gp its i = gp (the (its ! i))"

definition pq_shape :: "'a priority_queue \<Rightarrow> bool" where
  "pq_shape q \<longleftrightarrow> length (pq_items q) = pq_capacity q + 1 \<and> pq_size q \<le> pq_capacity q \<and>
     (\<forall>i\<in>{1..pq_size q}. pq_items q ! i \<noteq> None)"

definition parent :: "nat \<Rightarrow> nat" where
  "parent i = i div 2"

definition heap_order :: "(nat \<Rightarrow> 'k::linorder) \<Rightarrow> nat \<Rightarrow> bool" where
  "heap_order k n \<longleftrightarrow> (\<forall>i\<in>{2..n}. k (parent i) \<le> k i)"

definition pq_order :: "('a \<Rightarrow> u64) \<Rightarrow> 'a priority_queue \<Rightarrow> bool" where
  "pq_order gp q \<longleftrightarrow> heap_order (key gp (pq_items q)) (pq_size q)"

definition pq_memo :: "('a \<Rightarrow> u64) \<Rightarrow> 'a priority_queue \<Rightarrow> bool" where
  "pq_memo gp q \<longleftrightarrow>
     highest_priority q = (if pq_size q = 0 then UINT64_MAX else key gp (pq_items q) 1)"

definition pq_inv :: "('a \<Rightarrow> u64) \<Rightarrow> 'a priority_queue \<Rightarrow> bool" where
  "pq_inv gp q \<longleftrightarrow> pq_shape q \<and> pq_order gp q \<and> pq_memo gp q"

definition pq_elems :: "'a priority_queue \<Rightarrow> 'a list" where
  "pq_elems q = map the (take (pq_size q) (drop 1 (pq_items q)))"

definition pq_contents :: "'a priority_queue \<Rightarrow> 'a multiset" where
  "pq_contents q = mset (pq_elems q)"

definition same_frame :: "'a priority_queue \<Rightarrow> 'a priority_queue \<Rightarrow> bool" where
  "same_frame q q' \<longleftrightarrow> use_lock q' = use_lock q \<and> locked q' = locked q \<and>
     pq_size q' = pq_size q \<and> pq_capacity q' = pq_capacity q"

definition up_inv :: "(nat \<Rightarrow> 'k::linorder) \<Rightarrow> nat \<Rightarrow> nat \<Rightarrow> bool" where
  "up_inv k n i \<longleftrightarrow> (\<forall>j\<in>{2..n}. (j \<noteq> i \<longrightarrow> k (parent j) \<le> k j) \<and>
     (parent j = i \<and> 2 \<le> i \<longrightarrow> k (parent i) \<le> k j))"

definition down_inv :: "(nat \<Rightarrow> 'k::linorder) \<Rightarrow> nat \<Rightarrow> nat \<Rightarrow> bool" where
  "down_inv k n p \<longleftrightarrow> (\<forall>j\<in>{2..n}. (parent j \<noteq> p \<longrightarrow> k (parent j) \<le> k j) \<and>
     (parent j = p \<and> 2 \<le> p \<longrightarrow> k (parent p) \<le> k j))"

text \<open>
  Taking elements from a queue until it answers with an error or \<open>n\<close> elements are out.
\<close>

fun drain :: "('q \<Rightarrow> u64 \<Rightarrow> (int \<times> 'a option \<times> 'q) res) \<Rightarrow> nat \<Rightarrow> 'q \<Rightarrow> ('a list \<times> 'q) res" where
  "drain deq 0 q = Inr ([], q)"
| "drain deq (Suc n) q = bindr (deq q UINT64_MAX) (\<lambda>(rc, x, q'). case x of
     None \<Rightarrow> Inr ([], q')
   | Some y \<Rightarrow> bindr (drain deq n q') (\<lambda>(ys, q''). Inr (y # ys, q'')))"

fun enqueue_all :: "('a \<Rightarrow> u64) \<Rightarrow> 'a priority_queue \<Rightarrow> 'a list \<Rightarrow> 'a priority_queue res" where
  "enqueue_all gp q [] = Inr q"
| "enqueue_all gp q (x # xs) = bindr (priority_queue_enqueue gp q x) (\<lambda>(rc, q'). enqueue_all gp q' xs)"

text \<open>A heap of seven elements, used by the property on deletion.\<close>

definition sample_heap :: "u64 priority_queue" where
  "sample_heap = \<lparr>use_lock = False, locked = False, highest_priority = 1, pq_size = 7, pq_capacity = 7,
     pq_items = [None, Some 1, Some 10, Some 2, Some 11, Some 12, Some 20, Some 3]\<rparr>"

subsection \<open>The order of a heap of keys\<close>

lemma parent_less: "1 \<le> i \<Longrightarrow> parent i < i"
  by (simp add: parent_def)

lemma parent_bounds: "2 \<le> i \<Longrightarrow> Suc 0 \<le> parent i" "i \<le> n \<Longrightarrow> parent i \<le> n"
  unfolding parent_def by presburger+

lemma heap_order_cong: "\<lbrakk>\<And>i. 1 \<le> i \<Longrightarrow> i \<le> n \<Longrightarrow> k i = k' i\<rbrakk> \<Longrightarrow> heap_order k n = heap_order k' n"
  unfolding heap_order_def by (intro ball_cong) (auto simp: parent_bounds)

lemma up_inv_cong: "\<lbrakk>\<And>i. 1 \<le> i \<Longrightarrow> i \<le> n \<Longrightarrow> k i = k' i\<rbrakk> \<Longrightarrow> up_inv k n j = up_inv k' n j"
  unfolding up_inv_def by (intro ball_cong) (auto simp: parent_bounds)

lemma down_inv_cong: "\<lbrakk>\<And>i. 1 \<le> i \<Longrightarrow> i \<le> n \<Longrightarrow> k i = k' i\<rbrakk> \<Longrightarrow> down_inv k n j = down_inv k' n j"
  unfolding down_inv_def by (intro ball_cong) (auto simp: parent_bounds)

lemma heap_order_root: "\<lbrakk>heap_order k n; 1 \<le> i; i \<le> n\<rbrakk> \<Longrightarrow> k 1 \<le> k i"
proof (induction i rule: less_induct)
  case (less i)
  show ?case
  proof (cases "i = 1")
    case False
    with less.prems have i: "2 \<le> i" by simp
    with less.prems have "k (parent i) \<le> k i" by (simp add: heap_order_def)
    moreover have "k 1 \<le> k (parent i)"
      using less i parent_less [of i] parent_bounds [of i] by simp
    ultimately show ?thesis by order
  qed simp
qed

lemma up_inv_swap:
  assumes "up_inv k n i" "2 \<le> i" "i \<le> n" "k i < k (parent i)"
  shows "up_inv (k(i := k (parent i), parent i := k i)) n (parent i)"
    (is "up_inv ?k n ?p")
proof -
  have *: "j \<noteq> i \<Longrightarrow> k (parent j) \<le> k j" "parent j = i \<Longrightarrow> k ?p \<le> k j" if "2 \<le> j" "j \<le> n" for j
    using that assms by (auto simp: up_inv_def)
  have p: "?p \<noteq> i" "?p \<le> n" "?p < i" using assms parent_less [of i] parent_bounds [of i] by auto
  have k: "?k ?p = k i" "?k i = k ?p" "\<And>j. \<lbrakk>j \<noteq> i; j \<noteq> ?p\<rbrakk> \<Longrightarrow> ?k j = k j" using p by auto
  have "?k (parent j) \<le> ?k j" if j: "2 \<le> j" "j \<le> n" "j \<noteq> ?p" for j
    using j * [OF j(1,2)] assms(4) p by auto
  moreover have "?k (parent ?p) \<le> ?k j" if j: "2 \<le> j" "j \<le> n" "parent j = ?p" "2 \<le> ?p" for j
  proof -
    have "k (parent ?p) \<le> k ?p" using p * [of ?p] j by auto
    moreover have "parent ?p \<noteq> ?p" "parent ?p \<noteq> i" "j \<noteq> ?p"
      using j p parent_less [of ?p] parent_less [of j] by auto
    ultimately show ?thesis using * [OF j(1,2)] j k by (cases "j = i") auto
  qed
  ultimately show ?thesis by (simp add: up_inv_def)
qed

lemma up_inv_done: "\<lbrakk>up_inv k n i; i < 2 \<or> k (parent i) \<le> k i\<rbrakk> \<Longrightarrow> heap_order k n"
  unfolding up_inv_def heap_order_def by auto

lemma down_inv_swap:
  assumes "down_inv k n p" "1 \<le> p" "parent c = p" "c \<le> n" "k c < k p"
    and least: "\<And>j. \<lbrakk>parent j = p; j \<le> n\<rbrakk> \<Longrightarrow> k c \<le> k j"
  shows "down_inv (k(p := k c, c := k p)) n c"
    (is "down_inv ?k n c")
proof -
  have *: "parent j \<noteq> p \<Longrightarrow> k (parent j) \<le> k j" "parent j = p \<and> 2 \<le> p \<Longrightarrow> k (parent p) \<le> k j"
    if "2 \<le> j" "j \<le> n" for j
    using that assms by (auto simp: down_inv_def)
  have c: "p < c" "2 \<le> c" "parent p < p"
    using assms(2,3) parent_less [of c] parent_less [of p] by (auto simp: parent_def)
  have k: "?k p = k c" "?k c = k p" "\<And>j. \<lbrakk>j \<noteq> c; j \<noteq> p\<rbrakk> \<Longrightarrow> ?k j = k j" using c by auto
  have "?k (parent j) \<le> ?k j" if j: "2 \<le> j" "j \<le> n" "parent j \<noteq> c" for j
  proof (cases "parent j = p")
    case True
    then show ?thesis using least [of j] j assms(5) k c by (cases "j = c") auto
  next
    case False
    moreover have "k (parent p) \<le> k c" if "j = p" using * [of c] c that j assms(3,4) by auto
    ultimately show ?thesis using * [OF j(1,2)] j assms(3) c k by (cases "j = p"; cases "j = c") auto
  qed
  moreover have "?k (parent c) \<le> ?k j" if j: "2 \<le> j" "j \<le> n" "parent j = c" for j
    using * [OF j(1,2)] j assms(2,3) c k parent_less [of j] by auto
  ultimately show ?thesis using assms(3) by (simp add: down_inv_def)
qed

lemma down_inv_done:
  "\<lbrakk>down_inv k n p; \<And>j. \<lbrakk>parent j = p; 2 \<le> j; j \<le> n\<rbrakk> \<Longrightarrow> k p \<le> k j\<rbrakk> \<Longrightarrow> heap_order k n"
  unfolding down_inv_def heap_order_def by (metis atLeastAtMost_iff)

subsection \<open>Slots, swaps and the contents\<close>

declare percolate_up_loop.simps [simp del] percolate_down_loop.simps [simp del] delete_search.simps [simp del]

lemma read_slot_ok: "\<lbrakk>pq_shape q; i \<le> pq_size q\<rbrakk> \<Longrightarrow> read_slot (pq_items q) i = Inr (pq_items q ! i)"
  by (simp add: read_slot_def pq_shape_def)

lemma shape_slot: "\<lbrakk>pq_shape q; Suc 0 \<le> i; i \<le> pq_size q\<rbrakk> \<Longrightarrow> \<exists>x. pq_items q ! i = Some x"
  by (auto simp: pq_shape_def)

lemma slot_priority_ok:
  "\<lbrakk>pq_shape q; Suc 0 \<le> i; i \<le> pq_size q\<rbrakk> \<Longrightarrow>
    slot_priority gp (pq_items q) i = Inr (key gp (pq_items q) i)"
  using shape_slot [of q i] by (auto simp: slot_priority_def read_slot_ok key_def)

lemma key_swap_slots:
  "\<lbrakk>i < length its; j < length its; x < length its\<rbrakk> \<Longrightarrow>
    key gp (swap_slots its i j) x = ((key gp its)(i := key gp its j, j := key gp its i)) x"
  by (simp add: key_def nth_swap_slots)

lemma shape_swap:
  assumes "pq_shape q" "Suc 0 \<le> i" "i \<le> pq_size q" "Suc 0 \<le> j" "j \<le> pq_size q"
  shows "pq_shape (q\<lparr>pq_items := swap_slots (pq_items q) i j\<rparr>)"
    and "pq_contents (q\<lparr>pq_items := swap_slots (pq_items q) i j\<rparr>) = pq_contents q"
proof -
  let ?its = "pq_items q" and ?n = "pq_size q"
  have len: "length ?its = pq_capacity q + 1" "?n \<le> pq_capacity q" using assms by (auto simp: pq_shape_def)
  then show "pq_shape (q\<lparr>pq_items := swap_slots ?its i j\<rparr>)"
    using assms by (auto simp: pq_shape_def nth_swap_slots)
  have "take ?n (drop 1 (swap_slots ?its i j)) = swap_slots (take ?n (drop 1 ?its)) (i - 1) (j - 1)"
    using assms len by (subst drop_swap_slots; simp; subst take_swap_slots) (auto simp: Suc_le_eq)
  then show "pq_contents (q\<lparr>pq_items := swap_slots ?its i j\<rparr>) = pq_contents q"
    using assms len by (simp add: pq_contents_def pq_elems_def)
qed

lemma length_pq_elems: "pq_shape q \<Longrightarrow> length (pq_elems q) = pq_size q"
  by (simp add: pq_elems_def pq_shape_def)

lemma nth_pq_elems: "\<lbrakk>pq_shape q; i < pq_size q\<rbrakk> \<Longrightarrow> pq_elems q ! i = the (pq_items q ! Suc i)"
  by (simp add: pq_elems_def pq_shape_def)

lemma size_pq_contents: "pq_shape q \<Longrightarrow> size (pq_contents q) = pq_size q"
  by (simp add: pq_contents_def length_pq_elems)

lemma in_pq_contents_conv:
  "pq_shape q \<Longrightarrow> x \<in># pq_contents q \<longleftrightarrow> (\<exists>i. 1 \<le> i \<and> i \<le> pq_size q \<and> pq_items q ! i = Some x)"
proof -
  assume sh: "pq_shape q"
  have "x \<in># pq_contents q \<longleftrightarrow> (\<exists>i<pq_size q. the (pq_items q ! Suc i) = x)"
    using sh by (auto simp: pq_contents_def in_set_conv_nth length_pq_elems nth_pq_elems)
  also have "\<dots> \<longleftrightarrow> (\<exists>i<pq_size q. pq_items q ! Suc i = Some x)"
    using shape_slot [OF sh] by (metis Suc_leI option.sel zero_less_Suc less_eq_Suc_le)
  also have "\<dots> \<longleftrightarrow> (\<exists>i. 1 \<le> i \<and> i \<le> pq_size q \<and> pq_items q ! i = Some x)"
    by (metis Suc_le_D Suc_le_eq One_nat_def le_add1 plus_1_eq_Suc)
  finally show ?thesis .
qed

lemma root_is_least:
  "\<lbrakk>pq_shape q; pq_order gp q; x \<in># pq_contents q\<rbrakk> \<Longrightarrow> key gp (pq_items q) 1 \<le> gp x"
  using heap_order_root [of "key gp (pq_items q)" "pq_size q"]
  by (fastforce simp: in_pq_contents_conv pq_order_def key_def)

subsection \<open>The percolation loops restore the heap\<close>

lemma percolate_up_loop_ok:
  assumes "pq_shape q" "1 \<le> i" "i \<le> pq_size q"
  shows "\<exists>q'. percolate_up_loop gp q i = Inr q' \<and> pq_shape q' \<and> same_frame q q' \<and>
    (highest_priority q = key gp (pq_items q) 1 \<longrightarrow> pq_memo gp q') \<and>
    pq_contents q' = pq_contents q \<and> (up_inv (key gp (pq_items q)) (pq_size q) i \<longrightarrow> pq_order gp q')"
  using assms
proof (induction i arbitrary: q rule: less_induct)
  case (less i)
  let ?its = "pq_items q" and ?p = "parent i"
  let ?k = "key gp ?its"
  show ?case
  proof (cases "i < 2")
    case True
    then show ?thesis
      using less.prems up_inv_done [of ?k "pq_size q" i]
      by (subst percolate_up_loop.simps) (auto simp: pq_order_def pq_memo_def same_frame_def)
  next
    case False
    then have i: "2 \<le> i" "?p < i" "Suc 0 \<le> ?p" "?p \<le> pq_size q" "i div 2 = ?p"
      using less.prems(3) parent_less [of i] parent_bounds [of i] by (auto simp: parent_def)
    have sl: "slot_priority gp ?its i = Inr (?k i)" "slot_priority gp ?its ?p = Inr (?k ?p)"
      using less.prems i by (auto intro!: slot_priority_ok)
    show ?thesis
    proof (cases "?k i < ?k ?p")
      case lt: True
      define q1 where "q1 = q\<lparr>pq_items := swap_slots ?its i ?p\<rparr>"
      define q2 where "q2 = (if ?p = 1 then q1\<lparr>highest_priority := key gp (pq_items q1) 1\<rparr> else q1)"
      have sw: "pq_shape q1" "pq_contents q1 = pq_contents q"
        using less.prems i by (auto simp: q1_def intro!: shape_swap)
      have k1: "key gp (pq_items q1) x = (?k(i := ?k ?p, ?p := ?k i)) x" if "x \<le> pq_size q" for x
        using less.prems i that unfolding q1_def by (simp add: key_swap_slots pq_shape_def)
      have up: "up_inv (key gp (pq_items q1)) (pq_size q) ?p" if "up_inv ?k (pq_size q) i"
        using up_inv_swap [OF that i(1) less.prems(3) lt] k1 by (subst up_inv_cong) auto
      have q2: "pq_shape q2" "pq_contents q2 = pq_contents q" "pq_items q2 = pq_items q1" "same_frame q q2"
        using sw by (auto simp: q2_def q1_def pq_shape_def pq_contents_def pq_elems_def same_frame_def)
      have sz: "pq_size q2 = pq_size q" by (simp add: q2_def q1_def)
      have hp: "highest_priority q2 = key gp (pq_items q2) 1" if "highest_priority q = ?k 1"
        using that less.prems(2,3) i k1 [of 1] by (auto simp: q2_def q1_def)
      have "percolate_up_loop gp q i = percolate_up_loop gp q2 ?p"
        using i sl lt less_imp_not_UINT64_MAX [OF lt] slot_priority_ok [OF sw(1), of 1 gp]
        by (subst percolate_up_loop.simps)
          (auto simp: q2_def q1_def Let_def priority_queue_update_highest_priority_def)
      moreover obtain q' where "percolate_up_loop gp q2 ?p = Inr q'" "pq_shape q'"
        "highest_priority q = ?k 1 \<longrightarrow> pq_memo gp q'" "same_frame q2 q'" "pq_contents q' = pq_contents q2" "up_inv ?k (pq_size q) i \<longrightarrow> pq_order gp q'"
        using less.IH [of ?p q2] i q2 up hp sz by auto
      ultimately show ?thesis using q2 by (auto simp: same_frame_def)
    next
      case ge: False
      then show ?thesis
        using less.prems i sl up_inv_done [of ?k "pq_size q" i]
        by (subst percolate_up_loop.simps) (auto simp: pq_order_def pq_memo_def same_frame_def)
    qed
  qed
qed

lemma parent_eq_conv: "parent j = p \<longleftrightarrow> j = 2 * p \<or> j = 2 * p + 1"
  unfolding parent_def by presburger

lemma find_smallest_child_ok:
  assumes "pq_shape q" "lock_ok q" "1 \<le> p" "2 * p \<le> pq_size q"
  shows "\<exists>c. priority_queue_find_smallest_child gp q p = Inr c \<and> parent c = p \<and> c \<le> pq_size q \<and>
    (\<forall>j. parent j = p \<longrightarrow> j \<le> pq_size q \<longrightarrow> key gp (pq_items q) c \<le> key gp (pq_items q) j)"
proof -
  have l: "read_slot (pq_items q) (2 * p) = Inr (pq_items q ! (2 * p))" "pq_items q ! (2 * p) \<noteq> None"
    "slot_priority gp (pq_items q) (2 * p) = Inr (key gp (pq_items q) (2 * p))"
    using assms shape_slot [of q "2 * p"] by (auto simp: read_slot_ok slot_priority_ok)
  have r: "slot_priority gp (pq_items q) (2 * p + 1) = Inr (key gp (pq_items q) (2 * p + 1))"
    if "2 * p + 1 \<le> pq_size q"
    using that assms by (auto simp: slot_priority_ok)
  have "priority_queue_find_smallest_child gp q p =
      Inr (if pq_size q < 2 * p + 1 \<or> key gp (pq_items q) (2 * p) < key gp (pq_items q) (2 * p + 1)
           then 2 * p else 2 * p + 1)"
    using assms l r by (simp add: priority_queue_find_smallest_child_def Let_def)
  then show ?thesis using assms by (auto simp: parent_eq_conv)
qed

lemma percolate_down_loop_ok:
  assumes "pq_shape q" "lock_ok q" "1 \<le> p"
  shows "\<exists>q'. percolate_down_loop gp q p = Inr q' \<and> pq_shape q' \<and> same_frame q q' \<and>
    (down_inv (key gp (pq_items q)) (pq_size q) p \<longrightarrow> pq_order gp q') \<and>
    pq_contents q' = pq_contents q \<and> highest_priority q' = highest_priority q \<and>
    (\<forall>j<p. pq_items q' ! j = pq_items q ! j)"
  using assms
proof (induction "pq_size q - p" arbitrary: q p rule: less_induct)
  case less
  let ?its = "pq_items q"
  let ?k = "key gp ?its"
  show ?case
  proof (cases "2 * p \<le> pq_size q")
    case False
    have "down_inv ?k (pq_size q) p \<Longrightarrow> heap_order ?k (pq_size q)"
      using False by - (erule down_inv_done, auto simp: parent_eq_conv)
    then show ?thesis using False less.prems
      by (subst percolate_down_loop.simps) (auto simp: pq_order_def same_frame_def)
  next
    case True
    with less.prems obtain c where c: "priority_queue_find_smallest_child gp q p = Inr c"
      "parent c = p" "c \<le> pq_size q" and least: "\<And>j. \<lbrakk>parent j = p; j \<le> pq_size q\<rbrakk> \<Longrightarrow> ?k c \<le> ?k j"
      using find_smallest_child_ok [of q p gp] by auto
    then have pc: "p < c" "Suc 0 \<le> c" using less.prems(3) by (auto simp: parent_eq_conv)
    have sl: "slot_priority gp ?its p = Inr (?k p)" "slot_priority gp ?its c = Inr (?k c)"
      using less.prems c pc by (auto intro!: slot_priority_ok)
    show ?thesis
    proof (cases "?k p \<le> ?k c")
      case le: True
      have "down_inv ?k (pq_size q) p \<Longrightarrow> heap_order ?k (pq_size q)"
        using least le by - (erule down_inv_done, blast intro: order_trans)
      then show ?thesis using True less.prems c sl le
        by (subst percolate_down_loop.simps) (auto simp: pq_order_def same_frame_def)
    next
      case gt: False
      define q1 where "q1 = q\<lparr>pq_items := swap_slots ?its c p\<rparr>"
      have sw: "pq_shape q1" "pq_contents q1 = pq_contents q"
        using less.prems c pc by (auto simp: q1_def intro!: shape_swap)
      have k1: "key gp (pq_items q1) x = (?k(p := ?k c, c := ?k p)) x" if "x \<le> pq_size q" for x
        using less.prems c pc that unfolding q1_def by (simp add: key_swap_slots pq_shape_def)
      have "down_inv ?k (pq_size q) p \<Longrightarrow> down_inv (?k(p := ?k c, c := ?k p)) (pq_size q) c"
        using gt least by - (rule down_inv_swap [OF _ less.prems(3) c(2,3)], auto)
      then have "down_inv ?k (pq_size q) p \<Longrightarrow> down_inv (key gp (pq_items q1)) (pq_size q) c"
        by (subst down_inv_cong [OF k1]) auto
      moreover have "percolate_down_loop gp q p = percolate_down_loop gp q1 c"
        using True less.prems c sl gt by (subst percolate_down_loop.simps) (auto simp: q1_def)
      moreover have "pq_size q1 - c < pq_size q - p" "pq_size q1 = pq_size q" "lock_ok q1"
        using less.prems c pc by (auto simp: q1_def lock_ok_def)
      ultimately obtain q' where q': "percolate_down_loop gp q p = Inr q'" "pq_shape q'"
        "down_inv ?k (pq_size q) p \<longrightarrow> pq_order gp q'"
        "same_frame q1 q'" "pq_contents q' = pq_contents q1" "highest_priority q' = highest_priority q1"
        "\<forall>j<c. pq_items q' ! j = pq_items q1 ! j"
        using less.hyps [of q1 c] sw pc by auto
      moreover have "pq_items q' ! j = ?its ! j" if "j < p" for j
        using q'(7) that pc c less.prems(1) by (auto simp: q1_def nth_swap_slots pq_shape_def)
      ultimately show ?thesis using sw by (auto simp: q1_def same_frame_def)
    qed
  qed
qed

lemma percolate_down_root_ok:
  assumes "pq_shape q" "lock_ok q"
  shows "\<exists>q'. priority_queue_percolate_down False gp q 1 = Inr q' \<and> pq_shape q' \<and> pq_memo gp q' \<and>
    same_frame q q' \<and> pq_contents q' = pq_contents q \<and>
    (down_inv (key gp (pq_items q)) (pq_size q) 1 \<longrightarrow> pq_order gp q')"
proof -
  obtain q' where q': "percolate_down_loop gp q 1 = Inr q'" "pq_shape q'"
    "down_inv (key gp (pq_items q)) (pq_size q) 1 \<longrightarrow> pq_order gp q'"
    "same_frame q q'" "pq_contents q' = pq_contents q"
    using percolate_down_loop_ok [OF assms(1,2), of 1 gp] by auto
  define q2 where "q2 = q'\<lparr>highest_priority :=
    (if pq_size q' = 0 then UINT64_MAX else key gp (pq_items q') 1)\<rparr>"
  have "priority_queue_percolate_down False gp q 1 = Inr q2"
    using assms(2) q' by (auto simp: priority_queue_percolate_down_def priority_queue_is_empty_def q2_def
        slot_priority_ok priority_queue_update_highest_priority_def lock_ok_def same_frame_def)
  moreover have "pq_shape q2" "pq_memo gp q2" "same_frame q q2" "pq_contents q2 = pq_contents q"
    "down_inv (key gp (pq_items q)) (pq_size q) 1 \<longrightarrow> pq_order gp q2"
    using q' by (auto simp: q2_def pq_shape_def pq_order_def pq_memo_def same_frame_def
        pq_contents_def pq_elems_def)
  ultimately show ?thesis by blast
qed

lemma percolate_down_inner_ok:
  assumes "pq_shape q" "lock_ok q" "2 \<le> p"
  shows "\<exists>q'. priority_queue_percolate_down False gp q p = Inr q' \<and> pq_shape q' \<and> same_frame q q' \<and>
    pq_contents q' = pq_contents q \<and> highest_priority q' = highest_priority q \<and>
    pq_items q' ! 1 = pq_items q ! 1 \<and>
    (down_inv (key gp (pq_items q)) (pq_size q) p \<longrightarrow> pq_order gp q')"
  using percolate_down_loop_ok [OF assms(1,2), of p gp] assms(2,3)
  by (auto simp: priority_queue_percolate_down_def)

subsection \<open>The operations of the interface\<close>

lemma same_frame_lock_ok: "same_frame q q' \<Longrightarrow> lock_ok q' = lock_ok q"
  by (simp add: same_frame_def lock_ok_def)

lemma initialize_inv:
  "pq_inv gp (priority_queue_initialize n ul)" "pq_contents (priority_queue_initialize n ul) = {#}"
  by (auto simp: pq_inv_def pq_shape_def pq_order_def heap_order_def pq_memo_def pq_contents_def
      pq_elems_def priority_queue_initialize_def)

lemma append_elems:
  assumes "pq_shape q" "pq_size q < pq_capacity q"
    and "q' = q\<lparr>pq_size := Suc (pq_size q), pq_items := (pq_items q)[Suc (pq_size q) := Some v]\<rparr>"
  shows "pq_shape q'" "pq_contents q' = add_mset v (pq_contents q)"
    "\<And>i. i \<le> pq_size q \<Longrightarrow> pq_items q' ! i = pq_items q ! i"
proof -
  show "pq_shape q'" using assms by (auto simp: pq_shape_def nth_list_update)
  have "take (Suc (pq_size q)) (drop 1 (pq_items q')) = take (pq_size q) (drop 1 (pq_items q)) @ [Some v]"
    using assms by (auto simp: pq_shape_def take_Suc_conv_app_nth drop_update_swap)
  then show "pq_contents q' = add_mset v (pq_contents q)"
    using assms(3) by (simp add: pq_contents_def pq_elems_def)
qed (use assms in \<open>auto simp: nth_list_update\<close>)

lemma enqueue_nolock_full:
  "\<lbrakk>pq_shape q; lock_ok q; pq_size q = pq_capacity q\<rbrakk> \<Longrightarrow>
    priority_queue_enqueue_nolock gp q v = Inr (- ENOSPC, q)"
  by (simp add: priority_queue_enqueue_nolock_def priority_queue_append_def)

text \<open>
  The shape is kept whatever the priorities are; the memoised priority and the order are kept where they
  hold.
\<close>

lemma enqueue_nolock_shape:
  assumes "pq_shape q" "lock_ok q" "pq_size q < pq_capacity q"
  shows "\<exists>q'. priority_queue_enqueue_nolock gp q v = Inr (0, q') \<and> pq_shape q' \<and>
    (pq_memo gp q \<longrightarrow> pq_memo gp q') \<and>
    (pq_order gp q \<longrightarrow> pq_order gp q') \<and>
    pq_contents q' = add_mset v (pq_contents q) \<and> pq_size q' = Suc (pq_size q) \<and>
    pq_capacity q' = pq_capacity q \<and> use_lock q' = use_lock q \<and> locked q' = locked q"
proof -
  define q1 where "q1 = q\<lparr>pq_size := Suc (pq_size q), pq_items := (pq_items q)[Suc (pq_size q) := Some v]\<rparr>"
  note q1 = append_elems [OF assms(1,3) q1_def]
  have app: "priority_queue_append q v = Inr (0, q1)"
    using assms by (simp add: priority_queue_append_def q1_def pq_shape_def)
  have "\<exists>q'. priority_queue_percolate_up gp q1 = Inr q' \<and> pq_shape q' \<and> (pq_memo gp q \<longrightarrow> pq_memo gp q') \<and> same_frame q1 q' \<and>
    pq_contents q' = pq_contents q1 \<and> (pq_order gp q \<longrightarrow> pq_order gp q')"
  proof (cases "pq_size q = 0")
    case True
    then have one: "pq_size q1 = 1" by (simp add: q1_def)
    have "priority_queue_percolate_up gp q1 = Inr (q1\<lparr>highest_priority := key gp (pq_items q1) 1\<rparr>)"
      using one assms(2) slot_priority_ok [OF q1(1), of 1 gp]
      by (simp add: priority_queue_percolate_up_def priority_queue_update_highest_priority_def lock_ok_def)
         (simp add: q1_def)
    then show ?thesis
      using one q1(1) by (auto simp: pq_shape_def pq_order_def heap_order_def pq_memo_def
          same_frame_def pq_contents_def pq_elems_def)
  next
    case False
    have k: "key gp (pq_items q1) i = key gp (pq_items q) i" if "i \<le> pq_size q" for i
      using that q1(3) by (simp add: key_def)
    have "up_inv (key gp (pq_items q1)) (pq_size q1) (pq_size q1)" if "pq_order gp q"
      using that k parent_less parent_bounds(2)
      by (auto simp: up_inv_def pq_order_def heap_order_def q1_def parent_def)
    moreover have "highest_priority q1 = key gp (pq_items q1) 1" if "pq_memo gp q"
      using that False k [of 1] by (auto simp: pq_memo_def q1_def)
    ultimately show ?thesis
      using percolate_up_loop_ok [OF q1(1), of "pq_size q1" gp] False assms(2)
      by (auto simp: priority_queue_percolate_up_def lock_ok_def q1_def)
  qed
  with app q1(2) assms(2) show ?thesis
    by (auto simp: priority_queue_enqueue_nolock_def same_frame_def q1_def ENOSPC_def)
qed

lemma enqueue_nolock_weak:
  assumes "pq_shape q" "pq_memo gp q" "lock_ok q" "pq_size q < pq_capacity q"
  shows "\<exists>q'. priority_queue_enqueue_nolock gp q v = Inr (0, q') \<and> pq_shape q' \<and> pq_memo gp q' \<and>
    (pq_order gp q \<longrightarrow> pq_order gp q') \<and>
    pq_contents q' = add_mset v (pq_contents q) \<and> pq_size q' = Suc (pq_size q) \<and>
    pq_capacity q' = pq_capacity q \<and> use_lock q' = use_lock q \<and> locked q' = locked q"
  using enqueue_nolock_shape [OF assms(1,3,4), of gp v] assms(2) by blast

lemma enqueue_nolock_ok:
  assumes "pq_inv gp q" "lock_ok q" "pq_size q < pq_capacity q"
  shows "\<exists>q'. priority_queue_enqueue_nolock gp q v = Inr (0, q') \<and> pq_inv gp q' \<and>
    pq_contents q' = add_mset v (pq_contents q) \<and> pq_size q' = Suc (pq_size q) \<and>
    pq_capacity q' = pq_capacity q \<and> use_lock q' = use_lock q \<and> locked q' = locked q"
  using enqueue_nolock_weak [of q gp v] assms by (auto simp: pq_inv_def)

lemma replace_with_last_elems:
  assumes "pq_shape q" "1 \<le> i" "i \<le> pq_size q"
  shows "pq_shape (replace_with_last q i)"
    and "pq_contents (replace_with_last q i) = pq_contents q - {#the (pq_items q ! i)#}"
    and "\<And>j. j < pq_size q \<Longrightarrow> pq_items (replace_with_last q i) ! j =
          (if j = i then pq_items q ! pq_size q else pq_items q ! j)"
proof -
  let ?q = "replace_with_last q i" and ?xs = "pq_elems q"
  have len: "length (pq_items q) = pq_capacity q + 1" "pq_size q \<le> pq_capacity q" "pq_size q \<noteq> 0"
    using assms by (auto simp: pq_shape_def)
  show nth: "\<And>j. j < pq_size q \<Longrightarrow> pq_items ?q ! j = (if j = i then pq_items q ! pq_size q else pq_items q ! j)"
    using assms len by (auto simp: replace_with_last_def nth_list_update)
  have sz: "pq_size ?q = pq_size q - 1" by (simp add: replace_with_last_def)
  show sh: "pq_shape ?q"
    using assms len nth shape_slot [OF assms(1)] unfolding pq_shape_def sz
    by (auto simp: replace_with_last_def)
  have lst: "last ?xs = ?xs ! (pq_size q - 1)"
    using assms len length_pq_elems [of q] by (subst last_conv_nth) auto
  have "pq_elems ?q = butlast (?xs[i - 1 := last ?xs])"
  proof (rule nth_equalityI)
    show "length (pq_elems ?q) = length (butlast (?xs[i - 1 := last ?xs]))"
      using assms sh sz by (simp add: length_pq_elems)
    fix j assume "j < length (pq_elems ?q)"
    then have j: "j < pq_size q - 1" using sh sz by (simp add: length_pq_elems)
    have "last ?xs = the (pq_items q ! pq_size q)"
      using assms(1) len by (simp add: lst nth_pq_elems)
    then show "pq_elems ?q ! j = butlast (?xs[i - 1 := last ?xs]) ! j"
      using j assms sh sz nth [of "Suc j"]
      by (auto simp: nth_pq_elems nth_butlast length_pq_elems nth_list_update)
  qed
  moreover have "last (?xs[i - 1 := last ?xs]) = last ?xs"
    using assms len length_pq_elems [of q]
    by (subst last_conv_nth) (auto simp: nth_list_update lst)
  moreover have "mset (?xs[i - 1 := last ?xs]) = add_mset (last ?xs) (pq_contents q - {#the (pq_items q ! i)#})"
    using assms by (simp add: mset_update length_pq_elems nth_pq_elems pq_contents_def)
  moreover have "?xs[i - 1 := last ?xs] \<noteq> []" using assms len length_pq_elems [of q] by auto
  ultimately show "pq_contents ?q = pq_contents q - {#the (pq_items q ! i)#}"
    unfolding pq_contents_def by (metis add_mset_remove_trivial append_butlast_last_id mset_append
        mset_single_iff_right union_mset_add_mset_right add.right_neutral mset.simps)
qed

lemma lock_simps [simp]:
  "pq_inv gp (lock_acquire q) = pq_inv gp q" "pq_inv gp (lock_release q) = pq_inv gp q"
  "pq_contents (lock_acquire q) = pq_contents q" "pq_contents (lock_release q) = pq_contents q"
  "pq_size (lock_acquire q) = pq_size q" "pq_size (lock_release q) = pq_size q"
  "pq_capacity (lock_acquire q) = pq_capacity q" "pq_capacity (lock_release q) = pq_capacity q"
  "pq_items (lock_acquire q) = pq_items q" "pq_items (lock_release q) = pq_items q"
  "highest_priority (lock_acquire q) = highest_priority q" "highest_priority (lock_release q) = highest_priority q"
  "lock_ok (lock_acquire q)"
  by (simp_all add: pq_inv_def pq_shape_def pq_order_def pq_memo_def pq_contents_def pq_elems_def
      lock_acquire_def lock_release_def lock_ok_def)

lemma peek_is_Min:
  assumes "pq_inv gp q"
  shows "highest_priority q = (if pq_contents q = {#} then UINT64_MAX else Min (gp ` set_mset (pq_contents q)))"
proof (cases "pq_size q = 0")
  case True
  then show ?thesis using assms by (auto simp: pq_inv_def pq_memo_def pq_contents_def pq_elems_def)
next
  case False
  then have sh: "pq_shape q" "pq_order gp q" and hp: "highest_priority q = key gp (pq_items q) 1"
    using assms by (auto simp: pq_inv_def pq_memo_def)
  moreover obtain x where x: "pq_items q ! 1 = Some x" using shape_slot [OF sh(1), of 1] False by auto
  ultimately have "x \<in># pq_contents q" "\<And>y. y \<in># pq_contents q \<Longrightarrow> gp x \<le> gp y"
    using False root_is_least [OF sh] by (auto simp: in_pq_contents_conv key_def)
  then have "Min (gp ` set_mset (pq_contents q)) = gp x" by (intro Min_eqI) auto
  then show ?thesis using hp x \<open>x \<in># pq_contents q\<close> by (auto simp: key_def)
qed

lemma dequeue_nolock_enoent:
  "\<lbrakk>pq_inv gp q; lock_ok q; target \<le> highest_priority q\<rbrakk> \<Longrightarrow>
    priority_queue_dequeue_if_earlier_nolock False gp q target = Inr (- ENOENT, None, q)"
  by (simp add: priority_queue_dequeue_if_earlier_nolock_def priority_queue_is_empty_def)

lemma dequeue_nolock_ok:
  assumes inv: "pq_inv gp q" and lock: "lock_ok q" and early: "highest_priority q < target"
  shows "\<exists>x q'. priority_queue_dequeue_if_earlier_nolock False gp q target = Inr (0, Some x, q') \<and>
    pq_inv gp q' \<and> x \<in># pq_contents q \<and> gp x = highest_priority q \<and>
    pq_contents q' = pq_contents q - {#x#} \<and>
    pq_size q' = pq_size q - 1 \<and> pq_capacity q' = pq_capacity q \<and> use_lock q' = use_lock q \<and> locked q' = locked q"
proof -
  have sh: "pq_shape q" and ord: "pq_order gp q" and memo: "pq_memo gp q" using inv by (auto simp: pq_inv_def)
  have n: "1 \<le> pq_size q" using early memo less_imp_not_UINT64_MAX [OF early] by (auto simp: pq_memo_def Suc_le_eq split: if_splits)
  then obtain x where x: "pq_items q ! 1 = Some x" using shape_slot [OF sh, of 1] by auto
  let ?r = "replace_with_last q 1"
  note r = replace_with_last_elems [OF sh order_refl n]
  have rf: "pq_size ?r = pq_size q - 1" "lock_ok ?r" using lock by (auto simp: replace_with_last_def lock_ok_def)
  have k: "key gp (pq_items ?r) j = key gp (pq_items q) j" if "2 \<le> j" "j < pq_size q" for j
    using that r(3) [of j] by (simp add: key_def)
  have "down_inv (key gp (pq_items ?r)) (pq_size ?r) 1"
    unfolding down_inv_def rf
  proof (intro ballI conjI impI)
    fix j assume j: "j \<in> {2..pq_size q - 1}" "parent j \<noteq> 1"
    then have "2 \<le> parent j" "parent j < pq_size q" by (auto simp: parent_def)
    then show "key gp (pq_items ?r) (parent j) \<le> key gp (pq_items ?r) j"
      using j ord k [of j] k [of "parent j"] by (auto simp: pq_order_def heap_order_def)
  qed simp
  then obtain q' where q': "priority_queue_percolate_down False gp ?r 1 = Inr q'" "pq_inv gp q'" "same_frame ?r q'"
    "pq_contents q' = pq_contents ?r"
    using percolate_down_root_ok [OF r(1) rf(2), of gp] by (auto simp: pq_inv_def)
  have "priority_queue_dequeue_if_earlier_nolock False gp q target = Inr (0, Some x, q')"
    using lock early n q'(1) x read_slot_ok [OF sh n] read_slot_ok [OF sh order_refl]
    by (auto simp: priority_queue_dequeue_if_earlier_nolock_def priority_queue_is_empty_def)
  moreover have "x \<in># pq_contents q" "gp x = highest_priority q"
    using x n memo by (auto simp: in_pq_contents_conv [OF sh] pq_memo_def key_def)
  ultimately show ?thesis using q' r(2) x by (auto simp: same_frame_def replace_with_last_def)
qed

lemma top_nolock_ok:
  assumes "pq_inv gp q" "lock_ok q" "pq_size q \<noteq> 0"
  shows "\<exists>x. priority_queue_top_nolock q = Inr (0, Some x) \<and> x \<in># pq_contents q \<and>
    gp x = highest_priority q \<and> pq_items q ! 1 = Some x"
proof -
  have sh: "pq_shape q" using assms by (simp add: pq_inv_def)
  then obtain x where x: "pq_items q ! 1 = Some x" using shape_slot [of q 1] assms(3) by auto
  have "x \<in># pq_contents q" unfolding in_pq_contents_conv [OF sh] using x assms(3) by (intro exI [of _ 1]) auto
  with x sh assms show ?thesis
    by (simp add: priority_queue_top_nolock_def priority_queue_is_empty_def pq_inv_def pq_memo_def key_def read_slot_ok)
qed

lemma grow_nolock_weak:
  assumes "pq_shape q" "pq_memo gp q"
  shows "\<exists>q'. priority_queue_grow_nolock True fresh q = Some q' \<and> pq_shape q' \<and> pq_memo gp q' \<and>
    (pq_order gp q \<longrightarrow> pq_order gp q') \<and>
    pq_contents q' = pq_contents q \<and> pq_size q' < pq_capacity q' \<and> pq_size q' = pq_size q \<and>
    use_lock q' = use_lock q \<and> locked q' = locked q"
proof -
  define q' where "q' = the (priority_queue_grow_nolock True fresh q)"
  have len: "length (pq_items q) = pq_capacity q + 1" "pq_size q \<le> pq_capacity q"
    using assms by (auto simp: pq_shape_def)
  have q': "priority_queue_grow_nolock True fresh q = Some q'" "pq_size q' = pq_size q"
    "use_lock q' = use_lock q" "locked q' = locked q" "highest_priority q' = highest_priority q"
    "pq_capacity q' = (if pq_capacity q = 0 then 1 else 2 * pq_capacity q)"
    "pq_items q' = pq_items q @ map fresh [length (pq_items q)..<pq_capacity q' + 1]"
    by (simp_all add: q'_def priority_queue_grow_nolock_def Let_def)
  have nth: "pq_items q' ! i = pq_items q ! i" if "i \<le> pq_size q" for i
    using that len q'(7) by (simp add: nth_append)
  then have k: "key gp (pq_items q') i = key gp (pq_items q) i" if "i \<le> pq_size q" for i
    using that by (simp add: key_def)
  have "pq_shape q'" using assms q' len nth by (auto simp: pq_shape_def)
  moreover have "pq_order gp q \<longrightarrow> pq_order gp q'" "pq_memo gp q'"
    using assms q' k heap_order_cong [of "pq_size q" "key gp (pq_items q')" "key gp (pq_items q)"]
    by (auto simp: pq_order_def pq_memo_def Suc_le_eq)
  moreover have "take (pq_size q) (drop 1 (pq_items q')) = take (pq_size q) (drop 1 (pq_items q))"
    using len q'(7) by simp
  ultimately show ?thesis
    using q' len by (intro exI [of _ q']) (auto simp: pq_contents_def pq_elems_def)
qed

lemma delete_search_found:
  assumes "pq_shape q" "1 \<le> i" "i \<le> j" "j \<le> pq_size q" "pq_items q ! j = Some v"
    and "\<And>j'. \<lbrakk>i \<le> j'; j' < j\<rbrakk> \<Longrightarrow> pq_items q ! j' \<noteq> Some v"
  shows "delete_search lt gp q v i =
    bindr (priority_queue_percolate_down lt gp (replace_with_last q j) j) (\<lambda>q'. Inr (0, q'))"
  using assms(2-6)
proof (induction "j - i" arbitrary: i)
  case 0
  then have "i = j" by simp
  then show ?case
    using 0 read_slot_ok [OF assms(1), of j] read_slot_ok [OF assms(1) order_refl]
    by (subst delete_search.simps) simp
next
  case (Suc n)
  then have "i < j" by simp
  then have "delete_search lt gp q v i = delete_search lt gp q v (Suc i)"
    using Suc.prems read_slot_ok [OF assms(1), of i] by (subst delete_search.simps) auto
  also have "\<dots> = bindr (priority_queue_percolate_down lt gp (replace_with_last q j) j) (\<lambda>q'. Inr (0, q'))"
    using Suc by (intro Suc.hyps) auto
  finally show ?case .
qed

lemma delete_search_missing:
  assumes "pq_shape q" "1 \<le> i" "\<And>j. \<lbrakk>i \<le> j; j \<le> pq_size q\<rbrakk> \<Longrightarrow> pq_items q ! j \<noteq> Some v"
  shows "delete_search lt gp q v i = Inr (- 1, q)"
  using assms(2,3)
proof (induction "Suc (pq_size q) - i" arbitrary: i)
  case (Suc n)
  then show ?case
    using read_slot_ok [OF assms(1), of i] by (subst delete_search.simps) auto
qed (subst delete_search.simps, simp)

lemma first_slot:
  assumes "pq_shape q" "v \<in># pq_contents q"
  obtains j where "1 \<le> j" "j \<le> pq_size q" "pq_items q ! j = Some v"
    "\<And>j'. \<lbrakk>1 \<le> j'; j' < j\<rbrakk> \<Longrightarrow> pq_items q ! j' \<noteq> Some v"
proof -
  have "\<exists>j. 1 \<le> j \<and> j \<le> pq_size q \<and> pq_items q ! j = Some v" by (rule iffD1 [OF in_pq_contents_conv [OF assms(1)] assms(2)])
  from iffD1 [OF exists_least_iff this] obtain j where
    j: "1 \<le> j" "j \<le> pq_size q" "pq_items q ! j = Some v"
    and least: "\<And>j'. j' < j \<Longrightarrow> \<not> (1 \<le> j' \<and> j' \<le> pq_size q \<and> pq_items q ! j' = Some v)"
    by auto
  show thesis
  proof (rule that [OF j])
    fix j' assume "1 \<le> j'" "j' < j"
    then show "pq_items q ! j' \<noteq> Some v" using least [of j'] j(2) by simp
  qed
qed

lemma delete_nolock_missing:
  "\<lbrakk>pq_shape q; lock_ok q; v \<notin># pq_contents q\<rbrakk> \<Longrightarrow> priority_queue_delete_nolock lt gp q v = Inr (- 1, q)"
  using delete_search_missing [of q 1 v lt gp] by (auto simp: priority_queue_delete_nolock_def in_pq_contents_conv)

text \<open>
  Deletion when the priority of the deleted element has changed since the heap was ordered: \<open>gp\<close> gives the
  priorities before and \<open>gp'\<close> those at the time of the deletion.
\<close>

lemma delete_nolock_shape:
  assumes sh: "pq_shape q" and lock: "lock_ok q" and v: "v \<in># pq_contents q"
    and same: "\<And>x. x \<in># pq_contents q - {#v#} \<Longrightarrow> gp' x = gp x"
  shows "\<exists>q' j. priority_queue_delete_nolock False gp' q v = Inr (0, q') \<and> pq_shape q' \<and>
    (pq_memo gp q \<or> j = 1 \<longrightarrow> pq_memo gp' q') \<and>
    pq_contents q' = pq_contents q - {#v#} \<and> pq_size q' = pq_size q - 1 \<and> use_lock q' = use_lock q \<and>
    locked q' = locked q \<and> pq_capacity q' = pq_capacity q \<and>
    1 \<le> j \<and> j \<le> pq_size q \<and> pq_items q ! j = Some v \<and>
    (\<forall>j'. 1 \<le> j' \<longrightarrow> j' < j \<longrightarrow> pq_items q ! j' \<noteq> Some v) \<and>
    (j \<noteq> 1 \<longrightarrow> pq_items q' ! 1 = pq_items q ! 1) \<and>
    (pq_order gp q \<and> (j = 1 \<or> key gp (pq_items q) (parent j) \<le> key gp (pq_items q) (pq_size q)) \<longrightarrow>
      pq_order gp' q')"
proof -
  obtain j where j: "1 \<le> j" "j \<le> pq_size q" "pq_items q ! j = Some v"
    "\<And>j'. \<lbrakk>1 \<le> j'; j' < j\<rbrakk> \<Longrightarrow> pq_items q ! j' \<noteq> Some v"
    using first_slot [OF sh v] by blast
  let ?r = "replace_with_last q j"
  note r = replace_with_last_elems [OF sh j(1,2)]
  have rf: "pq_size ?r = pq_size q - 1" "lock_ok ?r" "highest_priority ?r = highest_priority q"
    using lock by (auto simp: replace_with_last_def lock_ok_def)
  have del: "priority_queue_delete_nolock False gp' q v =
      bindr (priority_queue_percolate_down False gp' ?r j) (\<lambda>q'. Inr (0, q'))"
    using lock delete_search_found [OF sh order_refl j] by (simp add: priority_queue_delete_nolock_def)
  have k: "key gp (pq_items ?r) i = (if i = j then key gp (pq_items q) (pq_size q) else key gp (pq_items q) i)"
    if "i < pq_size q" for i
    using that r(3) [of i] by (simp add: key_def)
  have same_key: "key gp' (pq_items ?r) i = key gp (pq_items ?r) i" if i: "1 \<le> i" "i \<le> pq_size ?r" for i
  proof -
    obtain x where x: "pq_items ?r ! i = Some x" using shape_slot [OF r(1), of i] i by auto
    then have "x \<in># pq_contents q - {#v#}"
      using i r(2) j(3) in_pq_contents_conv [OF r(1), of x] by auto
    with x show ?thesis by (simp add: key_def same)
  qed
  have dn: "down_inv (key gp (pq_items ?r)) (pq_size ?r) j"
    if ord: "pq_order gp q" and jc: "j = 1 \<or> key gp (pq_items q) (parent j) \<le> key gp (pq_items q) (pq_size q)"
    unfolding down_inv_def rf
  proof (intro ballI conjI impI)
    have ho: "key gp (pq_items q) (parent i) \<le> key gp (pq_items q) i" if "2 \<le> i" "i \<le> pq_size q" for i
      using ord that by (simp add: pq_order_def heap_order_def)
    {
      fix i assume i: "i \<in> {2..pq_size q - 1}" "parent i \<noteq> j"
      then show "key gp (pq_items ?r) (parent i) \<le> key gp (pq_items ?r) i"
        using jc j ho [of i] k [of i] k [of "parent i"] parent_less [of i] parent_bounds [of i] by auto
    next
      fix i assume i: "i \<in> {2..pq_size q - 1}" "parent i = j \<and> 2 \<le> j"
      then have "parent j < j" "i \<noteq> j" "parent j \<noteq> i" using j parent_less [of j] parent_less [of i] by auto
      then show "key gp (pq_items ?r) (parent j) \<le> key gp (pq_items ?r) i"
        using i j ho [of i] ho [of j] k [of i] k [of "parent j"] by (auto intro: order_trans)
    }
  qed
  have dn': "down_inv (key gp' (pq_items ?r)) (pq_size ?r) j"
    if "pq_order gp q" and "j = 1 \<or> key gp (pq_items q) (parent j) \<le> key gp (pq_items q) (pq_size q)"
    using dn [OF that] down_inv_cong [of "pq_size ?r" "key gp' (pq_items ?r)" "key gp (pq_items ?r)" j] same_key by simp
  show ?thesis
  proof (cases "j = 1")
    case True
    then obtain q' where q': "priority_queue_percolate_down False gp' ?r 1 = Inr q'" "pq_shape q'" "pq_memo gp' q'"
      "same_frame ?r q'" "pq_contents q' = pq_contents ?r"
      "down_inv (key gp' (pq_items ?r)) (pq_size ?r) 1 \<longrightarrow> pq_order gp' q'"
      using percolate_down_root_ok [OF r(1) rf(2)] by blast
    show ?thesis
      using True q' del r(2) j rf dn'
      by (intro exI [of _ q'] exI [of _ j]) (auto simp: same_frame_def replace_with_last_def)
  next
    case False
    then have j2: "2 \<le> j" using j by auto
    then obtain q' where q': "priority_queue_percolate_down False gp' ?r j = Inr q'" "pq_shape q'"
      "same_frame ?r q'" "pq_contents q' = pq_contents ?r" "highest_priority q' = highest_priority ?r"
      "pq_items q' ! 1 = pq_items ?r ! 1"
      "down_inv (key gp' (pq_items ?r)) (pq_size ?r) j \<longrightarrow> pq_order gp' q'"
      using percolate_down_inner_ok [OF r(1) rf(2)] by blast
    have n1: "1 < pq_size q" "pq_size q' = pq_size q - 1"
      using j j2 q'(3) rf by (simp_all add: same_frame_def)
    have root: "pq_items q' ! 1 = pq_items q ! 1" using q'(6) r(3) [OF n1(1)] j2 by simp
    have "key gp' (pq_items q') 1 = key gp (pq_items q) 1"
      using same_key [of 1] n1 rf q'(6) root by (simp add: key_def)
    then have "pq_memo gp' q'" if "pq_memo gp q" using that q'(5) rf n1 by (simp add: pq_memo_def)
    then show ?thesis
      using q' del r(2) j rf root dn' n1 False
      by (intro exI [of _ q'] exI [of _ j]) (auto simp: same_frame_def replace_with_last_def)
  qed
qed

lemma delete_nolock_weak:
  assumes "pq_shape q" "pq_memo gp q" "lock_ok q" "v \<in># pq_contents q"
  shows "\<exists>q' j. priority_queue_delete_nolock False gp q v = Inr (0, q') \<and> pq_shape q' \<and> pq_memo gp q' \<and>
    pq_contents q' = pq_contents q - {#v#} \<and> pq_size q' = pq_size q - 1 \<and> use_lock q' = use_lock q \<and>
    locked q' = locked q \<and> pq_capacity q' = pq_capacity q \<and>
    1 \<le> j \<and> j \<le> pq_size q \<and> pq_items q ! j = Some v \<and>
    (\<forall>j'. 1 \<le> j' \<longrightarrow> j' < j \<longrightarrow> pq_items q ! j' \<noteq> Some v) \<and>
    (j \<noteq> 1 \<longrightarrow> pq_items q' ! 1 = pq_items q ! 1) \<and>
    (pq_order gp q \<and> (j = 1 \<or> key gp (pq_items q) (parent j) \<le> key gp (pq_items q) (pq_size q)) \<longrightarrow>
      pq_order gp q')"
  using delete_nolock_shape [OF assms(1,3,4), of gp gp] assms(2) by blast

text \<open>
  Deleting from a heap keeps the contents, the memoised priority and the least element at the root
  right; it keeps the whole heap order when the deleted slot is the root or the element that takes
  its place is not smaller than the parent of that slot.
\<close>

lemma delete_nolock_ok:
  assumes inv: "pq_inv gp q" and lock: "lock_ok q" and v: "v \<in># pq_contents q"
  shows "\<exists>q'. priority_queue_delete_nolock False gp q v = Inr (0, q') \<and> pq_shape q' \<and> pq_memo gp q' \<and>
    pq_contents q' = pq_contents q - {#v#} \<and>
    highest_priority q' = (if pq_contents q' = {#} then UINT64_MAX else Min (gp ` set_mset (pq_contents q'))) \<and>
    (pq_items q ! 1 = Some v \<longrightarrow> pq_inv gp q')"
proof -
  have sh: "pq_shape q" and ord: "pq_order gp q" and memo: "pq_memo gp q" using inv by (auto simp: pq_inv_def)
  obtain q' j where q': "priority_queue_delete_nolock False gp q v = Inr (0, q')" "pq_shape q'" "pq_memo gp q'"
    "pq_contents q' = pq_contents q - {#v#}" "1 \<le> j" "j \<le> pq_size q"
    "\<forall>j'. 1 \<le> j' \<longrightarrow> j' < j \<longrightarrow> pq_items q ! j' \<noteq> Some v"
    "j \<noteq> 1 \<longrightarrow> pq_items q' ! 1 = pq_items q ! 1" "j = 1 \<longrightarrow> pq_order gp q'" "pq_size q' = pq_size q - 1"
    using delete_nolock_weak [OF sh memo lock v] ord by auto
  show ?thesis
  proof (cases "j = 1")
    case True
    then have "pq_inv gp q'" using q' by (simp add: pq_inv_def)
    then show ?thesis using q' peek_is_Min by blast
  next
    case False
    then have n1: "1 \<le> pq_size q'" "pq_items q ! 1 \<noteq> Some v" using q' by auto
    obtain x where x: "pq_items q' ! 1 = Some x" using shape_slot [OF q'(2), of 1] n1 by auto
    have xin: "x \<in># pq_contents q'"
      unfolding in_pq_contents_conv [OF q'(2)] using x n1 by (intro exI [of _ 1]) auto
    have "gp x \<le> gp y" if "y \<in># pq_contents q'" for y
    proof -
      have "y \<in># pq_contents q" using that q'(4) by (auto dest: in_diffD)
      then show ?thesis using root_is_least [OF sh ord, of y] x False q'(8) by (metis One_nat_def key_def option.sel)
    qed
    then have "Min (gp ` set_mset (pq_contents q')) = gp x" using xin by (intro Min_eqI) auto
    then show ?thesis using q' n1 x xin by (intro exI [of _ q']) (auto simp: pq_memo_def key_def)
  qed
qed

subsection \<open>The contract of a queue ordered by priority\<close>

locale min_queue =
  fixes inv :: "'q \<Rightarrow> bool"
    and contents :: "'q \<Rightarrow> 'a multiset"
    and prio :: "'a \<Rightarrow> u64"
    and peek :: "'q \<Rightarrow> u64"
    and room :: "'q \<Rightarrow> bool"
    and enq :: "'q \<Rightarrow> 'a \<Rightarrow> (int \<times> 'q) res"
    and deq :: "'q \<Rightarrow> u64 \<Rightarrow> (int \<times> 'a option \<times> 'q) res"
  assumes peek_Min: "inv q \<Longrightarrow> peek q = (if contents q = {#} then UINT64_MAX else Min (prio ` set_mset (contents q)))"
    and enq_room: "\<lbrakk>inv q; room q\<rbrakk> \<Longrightarrow> \<exists>q'. enq q v = Inr (0, q') \<and> inv q' \<and> contents q' = add_mset v (contents q)"
    and enq_full: "\<lbrakk>inv q; \<not> room q\<rbrakk> \<Longrightarrow> \<exists>q'. enq q v = Inr (- ENOSPC, q') \<and> inv q' \<and> contents q' = contents q"
    and deq_early: "\<lbrakk>inv q; peek q < t\<rbrakk> \<Longrightarrow> \<exists>x q'. deq q t = Inr (0, Some x, q') \<and> inv q' \<and>
          x \<in># contents q \<and> prio x = peek q \<and> contents q' = contents q - {#x#}"
    and deq_late: "\<lbrakk>inv q; t \<le> peek q\<rbrakk> \<Longrightarrow> \<exists>q'. deq q t = Inr (- ENOENT, None, q') \<and> inv q' \<and> contents q' = contents q"
begin

lemma peek_le: "\<lbrakk>inv q; x \<in># contents q\<rbrakk> \<Longrightarrow> peek q \<le> prio x"
  by (auto simp: peek_Min)

lemma peek_less_iff:
  "inv q \<Longrightarrow> peek q < t \<longleftrightarrow> (\<exists>x\<in>#contents q. prio x < t)"
  using le_UINT64_MAX [of t] by (auto simp: peek_Min Min_less_iff leD)

lemma deq_least:
  assumes "inv q" "y \<in># contents q" "prio y < t"
  shows "\<exists>x q'. deq q t = Inr (0, Some x, q') \<and> inv q' \<and> x \<in># contents q \<and>
    (\<forall>z\<in>#contents q. prio x \<le> prio z) \<and> contents q' = contents q - {#x#}"
proof -
  have "peek q < t" using assms peek_less_iff by blast
  from deq_early [OF assms(1) this] show ?thesis using peek_le [OF assms(1)] by auto
qed

lemma drain_sorted:
  assumes "inv q" "\<forall>x\<in>#contents q. prio x \<noteq> UINT64_MAX" "size (contents q) \<le> n"
  shows "\<exists>ys q'. drain deq n q = Inr (ys, q') \<and> mset ys = contents q \<and> sorted (map prio ys) \<and>
    inv q' \<and> contents q' = {#}"
  using assms
proof (induction n arbitrary: q)
  case 0
  then show ?case by auto
next
  case (Suc n)
  show ?case
  proof (cases "contents q = {#}")
    case True
    then show ?thesis using Suc.prems deq_late [of q UINT64_MAX] by (fastforce simp: peek_Min)
  next
    case False
    then obtain y where "y \<in># contents q" by blast
    then have "prio y < UINT64_MAX" using Suc.prems(2) by (metis le_UINT64_MAX order_le_less)
    then obtain x q' where x: "deq q UINT64_MAX = Inr (0, Some x, q')" "inv q'" "x \<in># contents q"
      "\<forall>z\<in>#contents q. prio x \<le> prio z" "contents q' = contents q - {#x#}"
      using deq_least [OF Suc.prems(1) \<open>y \<in># contents q\<close>] by blast
    have "\<forall>x\<in>#contents q'. prio x \<noteq> UINT64_MAX" "size (contents q') \<le> n"
      using Suc.prems(2,3) x(3,5) by (auto simp: size_Diff_singleton dest: in_diffD)
    then obtain ys q'' where ys: "drain deq n q' = Inr (ys, q'')" "mset ys = contents q'"
      "sorted (map prio ys)" "inv q''" "contents q'' = {#}"
      using Suc.IH [OF x(2)] by blast
    have "set ys \<subseteq> set_mset (contents q)" using ys(2) x(5) by (metis diff_subset_eq_self set_mset_mono set_mset_mset)
    then have "sorted (map prio (x # ys))" using ys(3) x(4) by auto
    moreover have "mset (x # ys) = contents q" using ys(2) x(3,5) by simp
    ultimately show ?thesis using x ys by auto
  qed
qed

end

lemma pq_inv_size: "pq_inv gp q \<Longrightarrow> pq_shape q" "pq_inv gp q \<Longrightarrow> pq_size q \<le> pq_capacity q"
  by (simp_all add: pq_inv_def pq_shape_def)

interpretation locked_pq: min_queue "pq_inv gp" pq_contents gp highest_priority
  "\<lambda>q. pq_size q < pq_capacity q" "priority_queue_enqueue gp" "priority_queue_dequeue_if_earlier False gp" for gp
proof
  fix q :: "'a priority_queue" and v t
  assume inv: "pq_inv gp q"
  show "highest_priority q = (if pq_contents q = {#} then UINT64_MAX else Min (gp ` set_mset (pq_contents q)))"
    by (rule peek_is_Min [OF inv])
  show "\<exists>q'. priority_queue_enqueue gp q v = Inr (0, q') \<and> pq_inv gp q' \<and> pq_contents q' = add_mset v (pq_contents q)"
    if "pq_size q < pq_capacity q"
    using that inv enqueue_nolock_ok [of gp "lock_acquire q" v] by (auto simp: priority_queue_enqueue_def)
  show "\<exists>q'. priority_queue_enqueue gp q v = Inr (- ENOSPC, q') \<and> pq_inv gp q' \<and> pq_contents q' = pq_contents q"
    if "\<not> pq_size q < pq_capacity q"
    using that inv enqueue_nolock_full [of "lock_acquire q" gp v]
      pq_inv_size [of gp "lock_acquire q"] by (auto simp: priority_queue_enqueue_def)
  show "\<exists>x q'. priority_queue_dequeue_if_earlier False gp q t = Inr (0, Some x, q') \<and> pq_inv gp q' \<and>
      x \<in># pq_contents q \<and> gp x = highest_priority q \<and> pq_contents q' = pq_contents q - {#x#}"
    if "highest_priority q < t"
    using that inv dequeue_nolock_ok [of gp "lock_acquire q" t] by (auto simp: priority_queue_dequeue_if_earlier_def)
  show "\<exists>q'. priority_queue_dequeue_if_earlier False gp q t = Inr (- ENOENT, None, q') \<and> pq_inv gp q' \<and>
      pq_contents q' = pq_contents q"
    if "t \<le> highest_priority q"
    using that inv dequeue_nolock_enoent [of gp "lock_acquire q" t] by (auto simp: priority_queue_dequeue_if_earlier_def)
qed

interpretation nolock_pq: min_queue "\<lambda>q. pq_inv gp q \<and> lock_ok q" pq_contents gp highest_priority
  "\<lambda>q. pq_size q < pq_capacity q" "priority_queue_enqueue_nolock gp"
  "priority_queue_dequeue_if_earlier_nolock False gp" for gp
proof
  fix q :: "'a priority_queue" and v t
  assume inv: "pq_inv gp q \<and> lock_ok q"
  show "highest_priority q = (if pq_contents q = {#} then UINT64_MAX else Min (gp ` set_mset (pq_contents q)))"
    using inv peek_is_Min by blast
  show "\<exists>q'. priority_queue_enqueue_nolock gp q v = Inr (0, q') \<and> (pq_inv gp q' \<and> lock_ok q') \<and>
      pq_contents q' = add_mset v (pq_contents q)"
    if "pq_size q < pq_capacity q"
    using that inv enqueue_nolock_ok [of gp q v] by (auto simp: lock_ok_def)
  show "\<exists>q'. priority_queue_enqueue_nolock gp q v = Inr (- ENOSPC, q') \<and> (pq_inv gp q' \<and> lock_ok q') \<and>
      pq_contents q' = pq_contents q"
    if "\<not> pq_size q < pq_capacity q"
    using that inv enqueue_nolock_full [of q gp v] pq_inv_size [of gp q] by auto
  show "\<exists>x q'. priority_queue_dequeue_if_earlier_nolock False gp q t = Inr (0, Some x, q') \<and>
      (pq_inv gp q' \<and> lock_ok q') \<and> x \<in># pq_contents q \<and> gp x = highest_priority q \<and>
      pq_contents q' = pq_contents q - {#x#}"
    if "highest_priority q < t"
    using that inv dequeue_nolock_ok [of gp q t] by (auto simp: lock_ok_def)
  show "\<exists>q'. priority_queue_dequeue_if_earlier_nolock False gp q t = Inr (- ENOENT, None, q') \<and>
      (pq_inv gp q' \<and> lock_ok q') \<and> pq_contents q' = pq_contents q"
    if "t \<le> highest_priority q"
    using that inv dequeue_nolock_enoent [of gp q t] by auto
qed

subsection \<open>Properties\<close>

text \<open>
  \<open>priority_queue_enqueue\<close> on a queue that satisfies the heap invariant stores the
  element and keeps the invariant when the queue has room; on a full queue it answers
  \<open>-ENOSPC\<close> and changes neither the contents nor the order.
\<close>

theorem priority_queue_enqueue_correct:
  assumes "pq_inv gp q"
  shows "if pq_size q < pq_capacity q
    then \<exists>q'. priority_queue_enqueue gp q v = Inr (0, q') \<and> pq_inv gp q' \<and>
           pq_contents q' = add_mset v (pq_contents q)
    else \<exists>q'. priority_queue_enqueue gp q v = Inr (- ENOSPC, q') \<and> pq_inv gp q' \<and>
           pq_contents q' = pq_contents q"
  using locked_pq.enq_room [OF assms] locked_pq.enq_full [OF assms] by simp

text \<open>
  \<open>priority_queue_dequeue_if_earlier\<close> called off the listener thread takes out an element
  of least priority when that priority is below the target, and keeps the invariant; when the queue is
  empty or its least priority is not below the target it answers \<open>-ENOENT\<close> and keeps the contents.
\<close>

theorem priority_queue_dequeue_if_earlier_correct:
  assumes "pq_inv gp q"
  shows "if \<exists>y\<in>#pq_contents q. gp y < target
    then \<exists>x q'. priority_queue_dequeue_if_earlier False gp q target = Inr (0, Some x, q') \<and> pq_inv gp q' \<and>
           x \<in># pq_contents q \<and> (\<forall>z\<in>#pq_contents q. gp x \<le> gp z) \<and> pq_contents q' = pq_contents q - {#x#}
    else \<exists>q'. priority_queue_dequeue_if_earlier False gp q target = Inr (- ENOENT, None, q') \<and>
           pq_inv gp q' \<and> pq_contents q' = pq_contents q"
proof (cases "\<exists>y\<in>#pq_contents q. gp y < target")
  case True
  then show ?thesis using locked_pq.deq_least [OF assms] by simp blast
next
  case False
  then have "target \<le> highest_priority q" using locked_pq.peek_less_iff [OF assms] by (meson not_le)
  then show ?thesis using False locked_pq.deq_late [OF assms] by simp
qed

lemma enqueue_capacity:
  "\<lbrakk>pq_inv gp q; pq_size q < pq_capacity q; priority_queue_enqueue gp q v = Inr (rc, q')\<rbrakk> \<Longrightarrow>
    pq_size q' = Suc (pq_size q) \<and> pq_capacity q' = pq_capacity q"
  using enqueue_nolock_ok [of gp "lock_acquire q" v] by (auto simp: priority_queue_enqueue_def)

lemma enqueue_all_ok:
  "\<lbrakk>pq_inv gp q; pq_size q + length xs \<le> pq_capacity q\<rbrakk> \<Longrightarrow>
    \<exists>q'. enqueue_all gp q xs = Inr q' \<and> pq_inv gp q' \<and> pq_contents q' = pq_contents q + mset xs"
proof (induction xs arbitrary: q)
  case (Cons x xs)
  then obtain q1 where q1: "priority_queue_enqueue gp q x = Inr (0, q1)" "pq_inv gp q1"
    "pq_contents q1 = add_mset x (pq_contents q)"
    using locked_pq.enq_room [of gp q x] by auto
  then show ?case using Cons.IH [OF q1(2)] Cons.prems enqueue_capacity [OF Cons.prems(1) _ q1(1)] by auto
qed simp

text \<open>
  Claim C14: a freshly initialised priority queue that receives at most as many elements as its
  capacity and is then drained by dequeues gives back exactly these elements, in non-decreasing
  priority. (The value \<open>UINT64_MAX\<close> is excluded: it is the reply of an empty queue, and an element
  with this priority is never dequeued.)
\<close>

theorem priority_queue_sorts:
  assumes "length xs \<le> n" and "\<forall>x\<in>set xs. gp x \<noteq> UINT64_MAX"
  shows "\<exists>q ys q'. enqueue_all gp (priority_queue_initialize n ul) xs = Inr q \<and>
    drain (priority_queue_dequeue_if_earlier False gp) (length xs) q = Inr (ys, q') \<and>
    mset ys = mset xs \<and> sorted (map gp ys) \<and> pq_contents q' = {#}"
proof -
  obtain q where q: "enqueue_all gp (priority_queue_initialize n ul) xs = Inr q" "pq_inv gp q"
    "pq_contents q = mset xs"
    using enqueue_all_ok [OF initialize_inv(1), of n ul xs gp] assms(1)
    by (auto simp: initialize_inv(2)) (auto simp: priority_queue_initialize_def)
  then show ?thesis using locked_pq.drain_sorted [OF q(2), of "length xs"] assms(2) by auto
qed

theorem priority_queue_sorts_witness:
  "\<exists>q ys q'. enqueue_all (\<lambda>x. x) (priority_queue_initialize 3 True) [5, 2, 9 :: u64] = Inr q \<and>
    drain (priority_queue_dequeue_if_earlier False (\<lambda>x. x)) 3 q = Inr (ys, q') \<and>
    mset ys = {#5, 2, 9#} \<and> sorted ys \<and> pq_contents q' = {#}"
  using priority_queue_sorts [of "[5, 2, 9 :: u64]" 3 "\<lambda>x. x" True]
  by (simp add: UINT64_MAX_def numeral_3_eq_3 del: drain.simps enqueue_all.simps)

text \<open>
  \<open>priority_queue_delete_nolock\<close> answers \<open>-1\<close> and changes nothing when the element is not
  queued; otherwise it removes exactly one occurrence, and the memoised highest priority is that of
  the remaining elements.
\<close>

theorem priority_queue_delete_correct:
  assumes "pq_inv gp q" and "lock_ok q"
  shows "if v \<in># pq_contents q
    then \<exists>q'. priority_queue_delete_nolock False gp q v = Inr (0, q') \<and>
           pq_contents q' = pq_contents q - {#v#} \<and>
           priority_queue_peek q' =
             (if pq_contents q' = {#} then UINT64_MAX else Min (gp ` set_mset (pq_contents q')))
    else priority_queue_delete_nolock False gp q v = Inr (- 1, q)"
proof (cases "v \<in># pq_contents q")
  case True
  then show ?thesis using delete_nolock_ok [OF assms True] by (auto simp: priority_queue_peek_def)
next
  case False
  then show ?thesis using delete_nolock_missing [OF pq_inv_size(1) [OF assms(1)] assms(2)] by simp
qed


end
