(* ===== verification/Ps_List.thy ===== *)
theory Ps_List
  imports Sledge_Prelude
begin

text \<open>
  The intrusive doubly linked list of runtime/include/ps_list.h. A node is identified by its address;
  the memory that holds the nodes is a pair of maps for the fields \<open>n\<close> and \<open>p\<close>. The list field is the
  first member of \<open>struct sandbox\<close>, so the address of a sandbox is the address of its node.
\<close>

type_synonym addr = nat

record ps_mem =
  nx :: "addr \<Rightarrow> addr"
  pv :: "addr \<Rightarrow> addr"

definition ps_list_ll_init :: "ps_mem \<Rightarrow> addr \<Rightarrow> ps_mem" where
  "ps_list_ll_init m l = m\<lparr>nx := (nx m)(l := l), pv := (pv m)(l := l)\<rparr>"

definition ps_list_head_init :: "ps_mem \<Rightarrow> addr \<Rightarrow> ps_mem" where
  "ps_list_head_init m lh = ps_list_ll_init m lh"

definition ps_list_ll_empty :: "ps_mem \<Rightarrow> addr \<Rightarrow> bool" where
  "ps_list_ll_empty m l \<longleftrightarrow> nx m l = l"

definition ps_list_ll_one_node :: "ps_mem \<Rightarrow> addr \<Rightarrow> bool" where
  "ps_list_ll_one_node m l \<longleftrightarrow> nx m l \<noteq> l \<and> nx m l = pv m l"

definition ps_list_head_one_node :: "ps_mem \<Rightarrow> addr \<Rightarrow> bool" where
  "ps_list_head_one_node m lh = ps_list_ll_one_node m lh"

definition ps_list_head_empty :: "ps_mem \<Rightarrow> addr \<Rightarrow> bool" where
  "ps_list_head_empty m lh = ps_list_ll_empty m lh"

definition ps_list_ll_add :: "ps_mem \<Rightarrow> addr \<Rightarrow> addr \<Rightarrow> ps_mem" where
  "ps_list_ll_add m l new =
     (let m1 = m\<lparr>nx := (nx m)(new := nx m l)\<rparr>;
          m2 = m1\<lparr>pv := (pv m1)(new := l)\<rparr>;
          m3 = m2\<lparr>nx := (nx m2)(l := new)\<rparr>
      in m3\<lparr>pv := (pv m3)(nx m3 new := new)\<rparr>)"

definition ps_list_ll_rem :: "ps_mem \<Rightarrow> addr \<Rightarrow> ps_mem" where
  "ps_list_ll_rem m l =
     (let m1 = m\<lparr>pv := (pv m)(nx m l := pv m l)\<rparr>;
          m2 = m1\<lparr>nx := (nx m1)(pv m1 l := nx m1 l)\<rparr>
      in m2\<lparr>nx := (nx m2)(l := l), pv := (pv m2)(l := l)\<rparr>)"

definition ps_list_singleton :: "ps_mem \<Rightarrow> addr \<Rightarrow> bool" where
  "ps_list_singleton m p = ps_list_ll_empty m p"

definition ps_list_head_first :: "ps_mem \<Rightarrow> addr \<Rightarrow> addr" where
  "ps_list_head_first m lh = nx m lh"

definition ps_list_head_append :: "ps_mem \<Rightarrow> addr \<Rightarrow> addr \<Rightarrow> ps_mem" where
  "ps_list_head_append m lh p = ps_list_ll_add m (pv m lh) p"

definition ps_list_head_add :: "ps_mem \<Rightarrow> addr \<Rightarrow> addr \<Rightarrow> ps_mem" where
  "ps_list_head_add m lh p = ps_list_ll_add m lh p"

definition ps_list_init :: "ps_mem \<Rightarrow> addr \<Rightarrow> ps_mem" where
  "ps_list_init m p = ps_list_ll_init m p"

definition ps_list_next :: "ps_mem \<Rightarrow> addr \<Rightarrow> addr" where
  "ps_list_next m p = nx m p"

definition ps_list_is_head :: "addr \<Rightarrow> addr \<Rightarrow> bool" where
  "ps_list_is_head lh p \<longleftrightarrow> lh = p"

definition ps_list_rem :: "ps_mem \<Rightarrow> addr \<Rightarrow> ps_mem" where
  "ps_list_rem m p = ps_list_ll_rem m p"

text \<open>The nodes \<open>xs\<close> are linked, in both directions, between the nodes \<open>a\<close> and \<open>b\<close>.\<close>

fun links :: "ps_mem \<Rightarrow> addr \<Rightarrow> addr list \<Rightarrow> addr \<Rightarrow> bool" where
  "links m a [] b \<longleftrightarrow> nx m a = b \<and> pv m b = a"
| "links m a (x # xs) b \<longleftrightarrow> nx m a = x \<and> pv m x = a \<and> links m x xs b"

definition ring :: "ps_mem \<Rightarrow> addr \<Rightarrow> addr list \<Rightarrow> bool" where
  "ring m h xs \<longleftrightarrow> distinct (h # xs) \<and> links m h xs h"

lemma links_append: "links m a (xs @ x # ys) b \<longleftrightarrow> links m a xs x \<and> links m x ys b"
  by (induction xs arbitrary: a) auto

lemma links_snoc: "links m a (xs @ [x]) b \<longleftrightarrow> links m a xs x \<and> nx m x = b \<and> pv m b = x"
  by (simp add: links_append)

lemma links_last: "links m a xs b \<Longrightarrow> pv m b = last (a # xs)"
  by (induction xs arbitrary: a) auto

lemma links_first: "links m a xs b \<Longrightarrow> nx m a = hd (xs @ [b])"
  by (cases xs) auto

lemma links_cong:
  "\<lbrakk>\<And>x. x \<in> insert a (set xs) \<Longrightarrow> nx m' x = nx m x; \<And>x. x \<in> insert b (set xs) \<Longrightarrow> pv m' x = pv m x\<rbrakk> \<Longrightarrow>
    links m' a xs b = links m a xs b"
  by (induction xs arbitrary: a) auto

lemma ring_empty_iff: "ring m h xs \<Longrightarrow> ps_list_head_empty m h \<longleftrightarrow> xs = []"
  by (cases xs) (auto simp: ring_def ps_list_head_empty_def ps_list_ll_empty_def)

lemma ring_one_node_iff: "ring m h xs \<Longrightarrow> ps_list_head_one_node m h \<longleftrightarrow> length xs = 1"
proof -
  assume r: "ring m h xs"
  then have l: "pv m h = last (h # xs)" "nx m h = hd (xs @ [h])" "distinct (h # xs)"
    by (auto simp: ring_def links_last links_first)
  show ?thesis
  proof (cases xs)
    case Nil
    then show ?thesis using l by (simp add: ps_list_head_one_node_def ps_list_ll_one_node_def)
  next
    case (Cons a as)
    then have "as \<noteq> [] \<Longrightarrow> last as \<noteq> a" using l(3) last_in_set by force
    then show ?thesis using Cons l by (auto simp: ps_list_head_one_node_def ps_list_ll_one_node_def)
  qed
qed

lemma ring_first: "\<lbrakk>ring m h xs; xs \<noteq> []\<rbrakk> \<Longrightarrow> ps_list_head_first m h = hd xs"
  by (cases xs) (auto simp: ring_def ps_list_head_first_def)

lemma ring_init: "ring (ps_list_head_init m h) h []"
  by (simp add: ring_def ps_list_head_init_def ps_list_ll_init_def)

lemma ring_append:
  assumes "ring m h xs" "x \<notin> set (h # xs)"
  shows "ring (ps_list_head_append m h x) h (xs @ [x])"
    and "\<And>y. y \<notin> set (h # xs @ [x]) \<Longrightarrow> nx (ps_list_head_append m h x) y = nx m y"
proof -
  let ?m = "ps_list_head_append m h x" and ?l = "last (h # xs)"
  have l: "links m h xs h" "distinct (h # xs)" using assms(1) by (auto simp: ring_def)
  have last: "pv m h = ?l" "nx m ?l = h"
    using l(1) by (simp add: links_last, cases xs rule: rev_cases) (auto simp: links_snoc)
  have ne: "?l \<noteq> x" using assms(2) last_in_set [of "h # xs"] by force
  have m: "?m = m\<lparr>nx := (nx m)(x := h, ?l := x), pv := (pv m)(x := ?l, h := x)\<rparr>"
    using ne last by (simp add: ps_list_head_append_def ps_list_ll_add_def Let_def)
  have "links ?m h xs x"
  proof (cases xs rule: rev_cases)
    case Nil
    then show ?thesis using assms(2) m by auto
  next
    case (snoc ys y)
    then have "links m h ys y" using l(1) by (simp add: links_snoc)
    then have "links ?m h ys y"
      using snoc l(2) assms(2) unfolding m by (subst links_cong [where m = m]) auto
    then show ?thesis using snoc assms(2) l(2) m by (auto simp: links_snoc)
  qed
  then show "ring ?m h (xs @ [x])" using assms(2) l(2) m by (auto simp: ring_def links_snoc)
  show "\<And>y. y \<notin> set (h # xs @ [x]) \<Longrightarrow> nx ?m y = nx m y" using m by (auto split: if_splits)
qed

lemma ring_rem:
  assumes "ring m h (ys @ x # zs)"
  shows "ring (ps_list_ll_rem m x) h (ys @ zs)" and "ps_list_singleton (ps_list_ll_rem m x) x"
    and "\<And>y. y \<notin> set (h # ys @ x # zs) \<Longrightarrow> nx (ps_list_ll_rem m x) y = nx m y"
proof -
  let ?m = "ps_list_ll_rem m x" and ?a = "last (h # ys)" and ?b = "hd (zs @ [h])"
  have l: "links m h ys x" "links m x zs h" "distinct (h # ys @ x # zs)"
    using assms by (auto simp: ring_def links_append)
  have ab: "pv m x = ?a" "nx m x = ?b" using l links_last links_first by auto
  have ne: "?a \<noteq> x" "?b \<noteq> x" using l(3) by (auto simp: hd_append last_in_set split: if_splits dest: hd_in_set)
  have a: "?a \<in> set (h # ys)" by (rule last_in_set) simp
  have m: "?m = m\<lparr>nx := (nx m)(?a := ?b, x := x), pv := (pv m)(?b := ?a, x := x)\<rparr>"
    using ne ab by (simp add: ps_list_ll_rem_def Let_def)
  then show "ps_list_singleton ?m x" by (simp add: ps_list_singleton_def ps_list_ll_empty_def)
  show "\<And>y. y \<notin> set (h # ys @ x # zs) \<Longrightarrow> nx ?m y = nx m y" using m by (auto split: if_splits)
  show "ring ?m h (ys @ zs)"
  proof (cases zs)
    case Nil
    show ?thesis
    proof (cases ys rule: rev_cases)
      case Nil
      then show ?thesis using \<open>zs = []\<close> l(3) m by (simp add: ring_def)
    next
      case (snoc us u)
      then have "links m h us u" using l(1) by (simp add: links_snoc)
      then have "links ?m h us u"
        using snoc l(3) \<open>zs = []\<close> unfolding m by (subst links_cong [where m = m]) auto
      then show ?thesis using snoc l(3) \<open>zs = []\<close> m by (auto simp: ring_def links_snoc)
    qed
  next
    case (Cons v vs)
    then have "links m v vs h" using l(2) by simp
    then have v: "links ?m v vs h"
      using Cons l(3) a unfolding m by (subst links_cong [where m = m]) auto
    show ?thesis
    proof (cases ys rule: rev_cases)
      case Nil
      then show ?thesis using Cons v l(3) m by (auto simp: ring_def)
    next
      case (snoc us u)
      then have "links m h us u" using l(1) by (simp add: links_snoc)
      then have "links ?m h us u"
        using snoc l(3) Cons unfolding m by (subst links_cong [where m = m]) auto
      then show ?thesis using snoc Cons v l(3) m by (auto simp: ring_def links_append)
    qed
  qed
qed

lemma ring_head_add:
  assumes "ring m h xs" "x \<notin> set (h # xs)"
  shows "ring (ps_list_head_add m h x) h (x # xs)"
proof -
  let ?m = "ps_list_head_add m h x" and ?b = "hd (xs @ [h])"
  have l: "links m h xs h" "distinct (h # xs)" using assms(1) by (auto simp: ring_def)
  have b: "nx m h = ?b" "?b \<noteq> x" using l(1) assms(2) by (cases xs; auto)+
  have m: "?m = m\<lparr>nx := (nx m)(x := ?b, h := x), pv := (pv m)(x := h, ?b := x)\<rparr>"
    using b assms(2) by (simp add: ps_list_head_add_def ps_list_ll_add_def Let_def)
  have "links ?m x xs h"
  proof (cases xs)
    case (Cons y ys)
    then have "links m y ys h" using l(1) by simp
    then have "links ?m y ys h" using Cons l(2) assms(2) unfolding m by (subst links_cong [where m = m]) auto
    then show ?thesis using Cons assms(2) m by auto
  qed (use assms(2) m in auto)
  then show ?thesis using assms(2) l(2) m by (cases xs) (auto simp: ring_def)
qed

lemma ring_other:
  assumes "ring m h xs" "set (h # xs) \<inter> D = {}" "\<And>y. y \<notin> D \<Longrightarrow> nx m' y = nx m y" "\<And>y. y \<notin> D \<Longrightarrow> pv m' y = pv m y"
  shows "ring m' h xs"
  using assms(1) links_cong [of h xs m' m h] assms(2-4) by (auto simp: ring_def)

end
