(* ===== verification/Local_Runqueue.thy ===== *)
theory Local_Runqueue
  imports Priority_Queue Ps_List
begin

text \<open>
  The run queue of a worker thread: the polymorphic interface of runtime/src/local_runqueue.c and its
  variants local_runqueue_list.c (first in, first out) and local_runqueue_minheap.c (earliest deadline
  first). A sandbox is its address; \<open>dl\<close> gives the \<open>absolute_deadline\<close> of the sandbox at an address,
  which is what \<open>sandbox_get_priority\<close> reads. Run queues are thread-local to workers, so
  \<open>listener_thread_is_running()\<close> is false in their operations.
\<close>

type_synonym sandbox_ptr = addr

record 'rq local_runqueue_config =
  add_fn :: "('rq \<Rightarrow> sandbox_ptr \<Rightarrow> 'rq res) option"
  is_empty_fn :: "('rq \<Rightarrow> bool res) option"
  delete_fn :: "('rq \<Rightarrow> sandbox_ptr \<Rightarrow> 'rq res) option"
  get_next_fn :: "('rq \<Rightarrow> (sandbox_ptr option \<times> 'rq) res) option"

definition local_runqueue_add :: "'rq local_runqueue_config \<Rightarrow> 'rq \<Rightarrow> sandbox_ptr \<Rightarrow> 'rq res" where
  "local_runqueue_add c q p = (case add_fn c of None \<Rightarrow> Inl Assertion_Failure | Some f \<Rightarrow> f q p)"

definition local_runqueue_delete :: "'rq local_runqueue_config \<Rightarrow> 'rq \<Rightarrow> sandbox_ptr \<Rightarrow> 'rq res" where
  "local_runqueue_delete c q p = (case delete_fn c of None \<Rightarrow> Inl Assertion_Failure | Some f \<Rightarrow> f q p)"

definition local_runqueue_is_empty :: "'rq local_runqueue_config \<Rightarrow> 'rq \<Rightarrow> bool res" where
  "local_runqueue_is_empty c q = (case is_empty_fn c of None \<Rightarrow> Inl Assertion_Failure | Some f \<Rightarrow> f q)"

definition local_runqueue_get_next :: "'rq local_runqueue_config \<Rightarrow> 'rq \<Rightarrow> (sandbox_ptr option \<times> 'rq) res" where
  "local_runqueue_get_next c q = (case get_next_fn c of None \<Rightarrow> Inl Assertion_Failure | Some f \<Rightarrow> f q)"

subsection \<open>local_runqueue_list.c\<close>

record list_runqueue =
  lmem :: ps_mem
  lhead :: addr

definition local_runqueue_list_is_empty :: "list_runqueue \<Rightarrow> bool" where
  "local_runqueue_list_is_empty q = ps_list_head_empty (lmem q) (lhead q)"

definition local_runqueue_list_get_head :: "list_runqueue \<Rightarrow> sandbox_ptr" where
  "local_runqueue_list_get_head q = ps_list_head_first (lmem q) (lhead q)"

definition local_runqueue_list_remove :: "list_runqueue \<Rightarrow> sandbox_ptr \<Rightarrow> list_runqueue" where
  "local_runqueue_list_remove q p = q\<lparr>lmem := ps_list_ll_rem (lmem q) p\<rparr>"

definition local_runqueue_list_remove_and_return :: "list_runqueue \<Rightarrow> sandbox_ptr \<times> list_runqueue" where
  "local_runqueue_list_remove_and_return q =
     (let p = ps_list_head_first (lmem q) (lhead q) in (p, q\<lparr>lmem := ps_list_ll_rem (lmem q) p\<rparr>))"

definition local_runqueue_list_append :: "list_runqueue \<Rightarrow> sandbox_ptr \<Rightarrow> list_runqueue res" where
  "local_runqueue_list_append q p =
     assertc (ps_list_singleton (lmem q) p) (Inr (q\<lparr>lmem := ps_list_head_append (lmem q) (lhead q) p\<rparr>))"

definition local_runqueue_list_rotate :: "(sandbox_ptr \<Rightarrow> bool) \<Rightarrow> list_runqueue \<Rightarrow> list_runqueue res" where
  "local_runqueue_list_rotate interrupted q =
     (if ps_list_head_one_node (lmem q) (lhead q) then Inr q
      else let (p, q') = local_runqueue_list_remove_and_return q
           in assertc (interrupted p) (local_runqueue_list_append q' p))"

definition local_runqueue_list_get_next :: "list_runqueue \<Rightarrow> sandbox_ptr option" where
  "local_runqueue_list_get_next q =
     (if local_runqueue_list_is_empty q then None else Some (local_runqueue_list_get_head q))"

definition local_runqueue_list_initialize ::
  "ps_mem \<Rightarrow> addr \<Rightarrow> list_runqueue \<times> list_runqueue local_runqueue_config" where
  "local_runqueue_list_initialize m h =
     (\<lparr>lmem = ps_list_head_init m h, lhead = h\<rparr>,
      \<lparr>add_fn = Some local_runqueue_list_append,
       is_empty_fn = Some (\<lambda>q. Inr (local_runqueue_list_is_empty q)),
       delete_fn = Some (\<lambda>q p. Inr (local_runqueue_list_remove q p)),
       get_next_fn = Some (\<lambda>q. Inr (local_runqueue_list_get_next q, q))\<rparr>)"

subsection \<open>local_runqueue_minheap.c\<close>

type_synonym minheap_runqueue = "sandbox_ptr priority_queue"

definition RUNTIME_RUNQUEUE_SIZE :: nat where
  "RUNTIME_RUNQUEUE_SIZE = 256"

definition local_runqueue_minheap_is_empty :: "minheap_runqueue \<Rightarrow> bool res" where
  "local_runqueue_minheap_is_empty q = bindr (priority_queue_length_nolock q) (\<lambda>n. Inr (n = 0))"

text \<open>
  The arguments \<open>ok\<close> and \<open>fresh\<close> say whether \<open>realloc\<close> succeeds and what the new slots hold.
\<close>

definition local_runqueue_minheap_add ::
  "bool \<Rightarrow> (nat \<Rightarrow> sandbox_ptr option) \<Rightarrow> (sandbox_ptr \<Rightarrow> u64) \<Rightarrow> minheap_runqueue \<Rightarrow> sandbox_ptr \<Rightarrow> minheap_runqueue res" where
  "local_runqueue_minheap_add ok fresh dl q p =
     bindr (priority_queue_enqueue_nolock dl q p) (\<lambda>(rc, q1).
       if rc = - ENOSPC
       then case priority_queue_grow_nolock ok fresh q1 of
              None \<Rightarrow> Inl Panic
            | Some temp \<Rightarrow> bindr (priority_queue_enqueue_nolock dl temp p) (\<lambda>(rc2, q2).
                if rc2 = - ENOSPC then Inl Panic else Inr q2)
       else Inr q1)"

definition local_runqueue_minheap_delete ::
  "(sandbox_ptr \<Rightarrow> u64) \<Rightarrow> minheap_runqueue \<Rightarrow> sandbox_ptr \<Rightarrow> minheap_runqueue res" where
  "local_runqueue_minheap_delete dl q p =
     bindr (priority_queue_delete_nolock False dl q p) (\<lambda>(rc, q1). if rc = - 1 then Inl Panic else Inr q1)"

definition local_runqueue_minheap_get_next :: "minheap_runqueue \<Rightarrow> sandbox_ptr option res" where
  "local_runqueue_minheap_get_next q =
     bindr (priority_queue_top_nolock q) (\<lambda>(rc, next). if rc = - ENOENT then Inr None else Inr next)"

definition local_runqueue_minheap_initialize ::
  "bool \<Rightarrow> (nat \<Rightarrow> sandbox_ptr option) \<Rightarrow> (sandbox_ptr \<Rightarrow> u64) \<Rightarrow> minheap_runqueue \<times> minheap_runqueue local_runqueue_config" where
  "local_runqueue_minheap_initialize ok fresh dl =
     (priority_queue_initialize RUNTIME_RUNQUEUE_SIZE False,
      \<lparr>add_fn = Some (local_runqueue_minheap_add ok fresh dl),
       is_empty_fn = Some local_runqueue_minheap_is_empty,
       delete_fn = Some (local_runqueue_minheap_delete dl),
       get_next_fn = Some (\<lambda>q. bindr (local_runqueue_minheap_get_next q) (\<lambda>n. Inr (n, q)))\<rparr>)"

subsection \<open>What the variants represent\<close>

definition list_rep :: "list_runqueue \<Rightarrow> sandbox_ptr list \<Rightarrow> bool" where
  "list_rep q xs \<longleftrightarrow> ring (lmem q) (lhead q) xs"

definition minheap_rep :: "(sandbox_ptr \<Rightarrow> u64) \<Rightarrow> minheap_runqueue \<Rightarrow> sandbox_ptr multiset \<Rightarrow> bool" where
  "minheap_rep dl q A \<longleftrightarrow> pq_shape q \<and> pq_memo dl q \<and> lock_ok q \<and> pq_contents q = A"

definition edf_rep :: "(sandbox_ptr \<Rightarrow> u64) \<Rightarrow> minheap_runqueue \<Rightarrow> sandbox_ptr multiset \<Rightarrow> bool" where
  "edf_rep dl q A \<longleftrightarrow> pq_inv dl q \<and> lock_ok q \<and> pq_contents q = A"

definition list_config :: "list_runqueue local_runqueue_config" where
  "list_config = snd (local_runqueue_list_initialize \<lparr>nx = id, pv = id\<rparr> 0)"

definition minheap_config :: "(nat \<Rightarrow> sandbox_ptr option) \<Rightarrow> (sandbox_ptr \<Rightarrow> u64) \<Rightarrow> minheap_runqueue local_runqueue_config" where
  "minheap_config fresh dl = snd (local_runqueue_minheap_initialize True fresh dl)"

text \<open>
  The contract of a run queue: the scheduler sees a collection of sandboxes to which it adds, from
  which it deletes, and of which the queue names one as the next to run.
\<close>

locale runqueue =
  fixes rep :: "'rq \<Rightarrow> sandbox_ptr multiset \<Rightarrow> bool"
    and valid :: "sandbox_ptr \<Rightarrow> bool"
    and addable :: "'rq \<Rightarrow> sandbox_ptr \<Rightarrow> bool"
    and cfg :: "'rq local_runqueue_config"
  assumes add_law: "\<lbrakk>rep q A; p \<notin># A; valid p; addable q p\<rbrakk> \<Longrightarrow> \<exists>q'. local_runqueue_add cfg q p = Inr q'"
    and add_result: "\<lbrakk>rep q A; p \<notin># A; valid p; local_runqueue_add cfg q p = Inr q'\<rbrakk> \<Longrightarrow> rep q' (add_mset p A)"
    and delete_law: "\<lbrakk>rep q A; p \<in># A\<rbrakk> \<Longrightarrow>
      \<exists>q'. local_runqueue_delete cfg q p = Inr q' \<and> rep q' (A - {#p#}) \<and> (p \<notin># A - {#p#} \<longrightarrow> addable q' p)"
    and empty_law: "rep q A \<Longrightarrow> local_runqueue_is_empty cfg q = Inr (A = {#})"
    and next_law: "rep q A \<Longrightarrow>
      \<exists>n q'. local_runqueue_get_next cfg q = Inr (n, q') \<and> rep q' A \<and> (case n of None \<Rightarrow> A = {#} | Some p \<Rightarrow> p \<in># A)"
begin

lemma delete_result:
  "\<lbrakk>rep q A; p \<in># A; local_runqueue_delete cfg q p = Inr q'\<rbrakk> \<Longrightarrow> rep q' (A - {#p#})"
  using delete_law by fastforce

lemma next_of_nonempty:
  "\<lbrakk>rep q A; A \<noteq> {#}\<rbrakk> \<Longrightarrow> \<exists>p q'. local_runqueue_get_next cfg q = Inr (Some p, q') \<and> rep q' A \<and> p \<in># A"
  using next_law [of q A] by (fastforce split: option.splits)

lemma next_delete:
  assumes "rep q A" "A \<noteq> {#}"
  shows "\<exists>p q1 q'. local_runqueue_get_next cfg q = Inr (Some p, q1) \<and> local_runqueue_delete cfg q1 p = Inr q' \<and>
    rep q' (A - {#p#}) \<and> size (A - {#p#}) < size A"
proof -
  obtain p q1 where p: "local_runqueue_get_next cfg q = Inr (Some p, q1)" "rep q1 A" "p \<in># A"
    using next_of_nonempty [OF assms] by blast
  moreover have "size (A - {#p#}) < size A" using p(3) by (rule size_Diff1_less)
  ultimately show ?thesis using delete_law [OF p(2,3)] by blast
qed

lemma add_delete:
  assumes "rep q A" "p \<notin># A" "valid p" "addable q p"
  shows "\<exists>q1 q2. local_runqueue_add cfg q p = Inr q1 \<and> local_runqueue_delete cfg q1 p = Inr q2 \<and> rep q2 A \<and> addable q2 p"
proof -
  obtain q1 where q1: "local_runqueue_add cfg q p = Inr q1" using add_law [OF assms] by blast
  then have "rep q1 (add_mset p A)" using add_result assms by blast
  then obtain q2 where "local_runqueue_delete cfg q1 p = Inr q2" "rep q2 A" "addable q2 p"
    using delete_law [of q1 "add_mset p A" p] assms(2) by auto
  with q1 show ?thesis by blast
qed

end

text \<open>
  A run queue ordered by deadline: the next sandbox is one with the earliest deadline, and the order
  survives additions and the deletion of that sandbox.
\<close>

locale edf_runqueue = runqueue rep valid addable cfg
  for rep :: "'rq \<Rightarrow> sandbox_ptr multiset \<Rightarrow> bool" and valid addable cfg +
  fixes ordered :: "'rq \<Rightarrow> bool" and dl :: "sandbox_ptr \<Rightarrow> u64"
  assumes next_earliest: "\<lbrakk>rep q A; ordered q; local_runqueue_get_next cfg q = Inr (Some p, q'); x \<in># A\<rbrakk> \<Longrightarrow> dl p \<le> dl x"
    and add_ordered: "\<lbrakk>rep q A; ordered q; local_runqueue_add cfg q p = Inr q'\<rbrakk> \<Longrightarrow> ordered q'"
    and delete_next_ordered: "\<lbrakk>rep q A; ordered q; local_runqueue_get_next cfg q = Inr (Some p, q1);
          local_runqueue_delete cfg q1 p = Inr q'\<rbrakk> \<Longrightarrow> ordered q'"

subsection \<open>The list variant\<close>

lemma list_config_simps [simp]:
  "local_runqueue_add list_config q p = local_runqueue_list_append q p"
  "local_runqueue_delete list_config q p = Inr (local_runqueue_list_remove q p)"
  "local_runqueue_is_empty list_config q = Inr (local_runqueue_list_is_empty q)"
  "local_runqueue_get_next list_config q = Inr (local_runqueue_list_get_next q, q)"
  by (simp_all add: list_config_def local_runqueue_list_initialize_def local_runqueue_add_def
      local_runqueue_delete_def local_runqueue_is_empty_def local_runqueue_get_next_def)

lemma list_append_ok:
  assumes "list_rep q xs" "p \<notin> set (lhead q # xs)" "ps_list_singleton (lmem q) p"
  shows "\<exists>q'. local_runqueue_list_append q p = Inr q' \<and> list_rep q' (xs @ [p]) \<and> lhead q' = lhead q"
  using assms ring_append(1) by (auto simp: list_rep_def local_runqueue_list_append_def)

lemma list_remove_ok:
  assumes "list_rep q xs" "p \<in> set xs"
  shows "list_rep (local_runqueue_list_remove q p) (remove1 p xs)"
    and "ps_list_singleton (lmem (local_runqueue_list_remove q p)) p"
    and "lhead (local_runqueue_list_remove q p) = lhead q"
proof -
  obtain ys zs where xs: "xs = ys @ p # zs" "p \<notin> set ys" using assms(2) by (meson split_list_first)
  then have "remove1 p xs = ys @ zs" by (simp add: remove1_append)
  then show "list_rep (local_runqueue_list_remove q p) (remove1 p xs)"
    "ps_list_singleton (lmem (local_runqueue_list_remove q p)) p"
    "lhead (local_runqueue_list_remove q p) = lhead q"
    using assms(1) xs ring_rem [of "lmem q" "lhead q" ys p zs]
    by (simp_all add: list_rep_def local_runqueue_list_remove_def)
qed

lemma list_get_next_ok:
  "list_rep q xs \<Longrightarrow> local_runqueue_list_get_next q = (case xs of [] \<Rightarrow> None | x # _ \<Rightarrow> Some x)"
  using ring_first [of "lmem q" "lhead q" xs] ring_empty_iff [of "lmem q" "lhead q" xs]
  by (auto simp: list_rep_def local_runqueue_list_get_next_def local_runqueue_list_is_empty_def
      local_runqueue_list_get_head_def split: list.splits)

lemma list_rotate_ok:
  assumes "list_rep q (x # xs)" "interrupted x"
  shows "\<exists>q'. local_runqueue_list_rotate interrupted q = Inr q' \<and> list_rep q' (xs @ [x])"
proof (cases "xs = []")
  case True
  then show ?thesis using assms ring_one_node_iff [of "lmem q" "lhead q" "[x]"]
    by (simp add: list_rep_def local_runqueue_list_rotate_def)
next
  case False
  let ?q = "local_runqueue_list_remove q x"
  have r: "list_rep ?q xs" "ps_list_singleton (lmem ?q) x" "lhead ?q = lhead q"
    using list_remove_ok [OF assms(1), of x] by simp_all
  have fresh: "x \<notin> set (lhead ?q # xs)" using assms(1) r(3) by (auto simp: list_rep_def ring_def)
  have "local_runqueue_list_remove_and_return q = (x, ?q)"
    using assms(1) ring_first [of "lmem q" "lhead q" "x # xs"]
    by (simp add: local_runqueue_list_remove_and_return_def local_runqueue_list_remove_def list_rep_def)
  moreover have "\<not> ps_list_head_one_node (lmem q) (lhead q)"
    using assms(1) False ring_one_node_iff [of "lmem q" "lhead q" "x # xs"] by (simp add: list_rep_def)
  ultimately show ?thesis
    using list_append_ok [OF r(1) fresh r(2)] assms(2) by (simp add: local_runqueue_list_rotate_def) blast
qed

interpretation list_rq: runqueue "\<lambda>q A. lhead q = h \<and> (\<exists>xs. list_rep q xs \<and> mset xs = A)" "\<lambda>p. p \<noteq> h"
  "\<lambda>q p. ps_list_singleton (lmem q) p" list_config for h
proof
  fix q A p q'
  assume "lhead q = h \<and> (\<exists>xs. list_rep q xs \<and> mset xs = A)"
  then obtain xs where xs: "list_rep q xs" "mset xs = A" and h: "lhead q = h" by blast
  show "\<exists>q'. local_runqueue_add list_config q p = Inr q'" if "ps_list_singleton (lmem q) p"
    using that by (simp add: local_runqueue_list_append_def)
  show "lhead q' = h \<and> (\<exists>xs. list_rep q' xs \<and> mset xs = add_mset p A)"
    if "p \<notin># A" "p \<noteq> h" "local_runqueue_add list_config q p = Inr q'"
    using list_append_ok [OF xs(1), of p] that xs(2) h
    by (auto simp: local_runqueue_list_append_def intro!: exI [of _ "xs @ [p]"])
  show "\<exists>q'. local_runqueue_delete list_config q p = Inr q' \<and>
      (lhead q' = h \<and> (\<exists>xs. list_rep q' xs \<and> mset xs = A - {#p#})) \<and>
      (p \<notin># A - {#p#} \<longrightarrow> ps_list_singleton (lmem q') p)"
    if "p \<in># A"
    using list_remove_ok [OF xs(1), of p] that xs(2) h by (auto intro!: exI [of _ "remove1 p xs"])
  show "local_runqueue_is_empty list_config q = Inr (A = {#})"
    using xs ring_empty_iff [of "lmem q" "lhead q" xs]
    by (auto simp: list_rep_def local_runqueue_list_is_empty_def)
  show "\<exists>n q'. local_runqueue_get_next list_config q = Inr (n, q') \<and>
      (lhead q' = h \<and> (\<exists>xs. list_rep q' xs \<and> mset xs = A)) \<and> (case n of None \<Rightarrow> A = {#} | Some p \<Rightarrow> p \<in># A)"
    using xs h list_get_next_ok [OF xs(1)] by (auto split: list.splits)
qed

subsection \<open>The min-heap variant\<close>

lemma minheap_config_simps [simp]:
  "local_runqueue_add (minheap_config fresh dl) q p = local_runqueue_minheap_add True fresh dl q p"
  "local_runqueue_delete (minheap_config fresh dl) q p = local_runqueue_minheap_delete dl q p"
  "local_runqueue_is_empty (minheap_config fresh dl) q = local_runqueue_minheap_is_empty q"
  "local_runqueue_get_next (minheap_config fresh dl) q = bindr (local_runqueue_minheap_get_next q) (\<lambda>n. Inr (n, q))"
  by (simp_all add: minheap_config_def local_runqueue_minheap_initialize_def local_runqueue_add_def
      local_runqueue_delete_def local_runqueue_is_empty_def local_runqueue_get_next_def)

lemma minheap_add_ok:
  assumes "minheap_rep dl q A"
  shows "\<exists>q'. local_runqueue_minheap_add True fresh dl q p = Inr q' \<and> minheap_rep dl q' (add_mset p A) \<and>
    (pq_order dl q \<longrightarrow> pq_order dl q')"
proof (cases "pq_size q < pq_capacity q")
  case True
  then obtain q' where "priority_queue_enqueue_nolock dl q p = Inr (0, q')" "pq_shape q'" "pq_memo dl q'"
    "pq_order dl q \<longrightarrow> pq_order dl q'" "pq_contents q' = add_mset p A" "lock_ok q'"
    using assms enqueue_nolock_weak [of q dl p] by (auto simp: minheap_rep_def lock_ok_def)
  moreover from this have "local_runqueue_minheap_add True fresh dl q p = Inr q'"
    by (simp add: local_runqueue_minheap_add_def ENOSPC_def)
  ultimately show ?thesis by (auto simp: minheap_rep_def)
next
  case False
  then have "priority_queue_enqueue_nolock dl q p = Inr (- ENOSPC, q)"
    using assms by (intro enqueue_nolock_full) (auto simp: minheap_rep_def pq_shape_def)
  moreover obtain t where t: "priority_queue_grow_nolock True fresh q = Some t" "pq_shape t" "pq_memo dl t"
    "pq_order dl q \<longrightarrow> pq_order dl t" "pq_contents t = A" "pq_size t < pq_capacity t" "lock_ok t"
    using assms grow_nolock_weak [of q dl fresh] by (auto simp: minheap_rep_def lock_ok_def)
  moreover obtain q' where "priority_queue_enqueue_nolock dl t p = Inr (0, q')" "pq_shape q'" "pq_memo dl q'"
    "pq_order dl t \<longrightarrow> pq_order dl q'" "pq_contents q' = add_mset p A" "lock_ok q'"
    using enqueue_nolock_weak [OF t(2,3,7,6), of p] t(5,7) by (auto simp: lock_ok_def)
  ultimately show ?thesis by (auto simp: local_runqueue_minheap_add_def minheap_rep_def ENOSPC_def)
qed

lemma minheap_delete_ok:
  assumes "minheap_rep dl q A" "p \<in># A"
  shows "\<exists>q'. local_runqueue_minheap_delete dl q p = Inr q' \<and> minheap_rep dl q' (A - {#p#}) \<and>
    (pq_order dl q \<and> pq_items q ! 1 = Some p \<longrightarrow> pq_order dl q')"
proof -
  have q: "pq_shape q" "pq_memo dl q" "lock_ok q" "p \<in># pq_contents q" "pq_contents q = A"
    using assms by (auto simp: minheap_rep_def)
  obtain q' j where q': "priority_queue_delete_nolock False dl q p = Inr (0, q')" "pq_shape q'" "pq_memo dl q'"
    "pq_contents q' = pq_contents q - {#p#}" "use_lock q' = use_lock q" "locked q' = locked q" "1 \<le> j"
    "\<forall>j'. 1 \<le> j' \<longrightarrow> j' < j \<longrightarrow> pq_items q ! j' \<noteq> Some p" "pq_order dl q \<and> j = 1 \<longrightarrow> pq_order dl q'"
    using delete_nolock_weak [OF q(1-4)] by auto
  have "j = 1" if "pq_items q ! 1 = Some p" using q'(7,8) that by (metis le_eq_less_or_eq order_refl)
  with q' q show ?thesis by (auto simp: local_runqueue_minheap_delete_def minheap_rep_def lock_ok_def)
qed

lemma minheap_get_next_ok:
  assumes "minheap_rep dl q A"
  shows "local_runqueue_minheap_get_next q = Inr (if A = {#} then None else pq_items q ! 1)"
    and "A \<noteq> {#} \<Longrightarrow> \<exists>p. pq_items q ! 1 = Some p \<and> p \<in># A"
proof -
  have q: "pq_shape q" "lock_ok q" "pq_contents q = A" using assms by (auto simp: minheap_rep_def)
  have e: "A = {#} \<longleftrightarrow> pq_size q = 0" using size_pq_contents [OF q(1)] q(3) by force
  then show "local_runqueue_minheap_get_next q = Inr (if A = {#} then None else pq_items q ! 1)"
    using q read_slot_ok [OF q(1), of 1]
    by (auto simp: local_runqueue_minheap_get_next_def priority_queue_top_nolock_def priority_queue_is_empty_def
        ENOENT_def Suc_le_eq)
  assume "A \<noteq> {#}"
  then have n: "1 \<le> pq_size q" using e by simp
  then obtain p where p: "pq_items q ! 1 = Some p" using shape_slot [OF q(1), of 1] by auto
  have "p \<in># pq_contents q"
    unfolding in_pq_contents_conv [OF q(1)] using p n by (intro exI [of _ 1]) auto
  with p q(3) show "\<exists>p. pq_items q ! 1 = Some p \<and> p \<in># A" by blast
qed

interpretation minheap_rq: runqueue "minheap_rep dl" "\<lambda>p. True" "\<lambda>q p. True" "minheap_config fresh dl" for dl fresh
proof
  fix q A p q'
  assume rep: "minheap_rep dl q A"
  show "\<exists>q'. local_runqueue_add (minheap_config fresh dl) q p = Inr q'"
    using minheap_add_ok [OF rep] by auto
  show "minheap_rep dl q' (add_mset p A)" if "local_runqueue_add (minheap_config fresh dl) q p = Inr q'"
    using minheap_add_ok [OF rep, of fresh p] that by auto
  show "\<exists>q'. local_runqueue_delete (minheap_config fresh dl) q p = Inr q' \<and> minheap_rep dl q' (A - {#p#}) \<and>
      (p \<notin># A - {#p#} \<longrightarrow> True)"
    if "p \<in># A"
    using minheap_delete_ok [OF rep that] by auto
  show "local_runqueue_is_empty (minheap_config fresh dl) q = Inr (A = {#})"
    using rep size_pq_contents [of q]
    by (auto simp: minheap_rep_def local_runqueue_minheap_is_empty_def priority_queue_length_nolock_def)
  show "\<exists>n q'. local_runqueue_get_next (minheap_config fresh dl) q = Inr (n, q') \<and> minheap_rep dl q' A \<and>
      (case n of None \<Rightarrow> A = {#} | Some p \<Rightarrow> p \<in># A)"
    using rep minheap_get_next_ok [OF rep] by (cases "A = {#}") (auto split: option.splits)
qed

interpretation edf_rq: edf_runqueue "minheap_rep dl" "\<lambda>p. True" "\<lambda>q p. True" "minheap_config fresh dl" "pq_order dl" dl for dl fresh
proof
  fix q A p x q' q1
  assume rep: "minheap_rep dl q A" and ord: "pq_order dl q"
  have q: "pq_shape q" "pq_contents q = A" using rep by (auto simp: minheap_rep_def)
  show "dl p \<le> dl x" if "local_runqueue_get_next (minheap_config fresh dl) q = Inr (Some p, q')" "x \<in># A"
    using that minheap_get_next_ok [OF rep] root_is_least [OF q(1) ord, of x] q(2)
    by (auto simp: key_def split: if_splits)
  show "pq_order dl q'" if "local_runqueue_add (minheap_config fresh dl) q p = Inr q'"
    using that minheap_add_ok [OF rep, of fresh p] ord by auto
  show "pq_order dl q'" if "local_runqueue_get_next (minheap_config fresh dl) q = Inr (Some p, q1)"
    "local_runqueue_delete (minheap_config fresh dl) q1 p = Inr q'"
  proof -
    have p: "pq_items q ! 1 = Some p" "p \<in># A" and q1: "q1 = q"
      using that(1) minheap_get_next_ok [OF rep] by (auto split: if_splits)
    show ?thesis using that(2) [unfolded q1] minheap_delete_ok [OF rep p(2)] p(1) ord by auto
  qed
qed

subsection \<open>Properties\<close>

text \<open>
  The list run queue is a FIFO queue of sandboxes over its doubly linked ring: appending puts a
  sandbox at the tail, removing takes it out wherever it is, the next sandbox to run is the head, and
  a rotation moves an interrupted head to the tail; in each case the ring stays well linked.
\<close>

theorem local_runqueue_list_fifo:
  assumes "list_rep q xs"
  shows "(p \<notin> set (lhead q # xs) \<and> ps_list_singleton (lmem q) p \<longrightarrow>
           (\<exists>q'. local_runqueue_list_append q p = Inr q' \<and> list_rep q' (xs @ [p]))) \<and>
    (p \<in> set xs \<longrightarrow> list_rep (local_runqueue_list_remove q p) (remove1 p xs)) \<and>
    local_runqueue_list_get_next q = (case xs of [] \<Rightarrow> None | x # _ \<Rightarrow> Some x) \<and>
    (xs \<noteq> [] \<and> interrupted (hd xs) \<longrightarrow>
      (\<exists>q'. local_runqueue_list_rotate interrupted q = Inr q' \<and> list_rep q' (tl xs @ [hd xs])))"
  using list_append_ok [OF assms, of p] list_remove_ok(1) [OF assms, of p] list_get_next_ok [OF assms]
    list_rotate_ok [of q "hd xs" "tl xs" interrupted] assms
  by (cases xs) auto

text \<open>
  The min-heap run queue never loses a sandbox and never runs out of room: adding a sandbox
  succeeds on a full queue too (it doubles the heap), and deleting a queued sandbox removes exactly that one.
\<close>

theorem local_runqueue_minheap_add_delete:
  assumes "minheap_rep dl q A"
  shows "(\<exists>q'. local_runqueue_minheap_add True fresh dl q p = Inr q' \<and> minheap_rep dl q' (add_mset p A)) \<and>
    (p \<in># A \<longrightarrow> (\<exists>q'. local_runqueue_minheap_delete dl q p = Inr q' \<and> minheap_rep dl q' (A - {#p#}))) \<and>
    (p \<notin># A \<longrightarrow> local_runqueue_minheap_delete dl q p = Inl Panic)"
proof -
  have "local_runqueue_minheap_delete dl q p = Inl Panic" if "p \<notin># A"
    using assms that delete_nolock_missing [of q p False dl]
    by (simp add: minheap_rep_def local_runqueue_minheap_delete_def)
  then show ?thesis using minheap_add_ok [OF assms, of fresh p] minheap_delete_ok [OF assms, of p] by blast
qed

text \<open>
  Claim C28: while the heap order of the min-heap run queue holds, the sandbox it hands to the scheduler has
  the earliest deadline of all queued ones, and the order survives every addition and the deletion
  of that sandbox (the running one, when it sleeps, returns or fails).
\<close>

theorem local_runqueue_minheap_edf:
  assumes "edf_rep dl q A" and "A \<noteq> {#}"
  shows "\<exists>p q'. local_runqueue_minheap_get_next q = Inr (Some p) \<and> p \<in># A \<and> (\<forall>x\<in>#A. dl p \<le> dl x) \<and>
    local_runqueue_minheap_delete dl q p = Inr q' \<and> edf_rep dl q' (A - {#p#}) \<and>
    (\<forall>n. \<exists>q''. local_runqueue_minheap_add True fresh dl q n = Inr q'' \<and> edf_rep dl q'' (add_mset n A))"
proof -
  have rep: "minheap_rep dl q A" "pq_order dl q" using assms by (auto simp: edf_rep_def minheap_rep_def pq_inv_def)
  obtain p where n: "local_runqueue_minheap_get_next q = Inr (Some p)" "p \<in># A"
    using minheap_rq.next_of_nonempty [OF rep(1) assms(2)] by auto
  obtain q' where p: "local_runqueue_get_next (minheap_config fresh dl) q = Inr (Some p, q)"
    "local_runqueue_delete (minheap_config fresh dl) q p = Inr q'" "minheap_rep dl q' (A - {#p#})"
    using n minheap_rq.delete_law [OF rep(1) n(2)] by auto
  moreover have "\<forall>x\<in>#A. dl p \<le> dl x" using edf_rq.next_earliest [OF rep p(1)] by blast
  moreover have "pq_order dl q'" by (rule edf_rq.delete_next_ordered [OF rep p(1,2)])
  ultimately show ?thesis
    using n minheap_add_ok [OF rep(1), of fresh] rep(2)
    by (fastforce simp: edf_rep_def minheap_rep_def pq_inv_def)
qed

theorem local_runqueue_minheap_edf_witness:
  "\<exists>q p. edf_rep (\<lambda>p. of_nat p) q {#7#} \<and> local_runqueue_minheap_get_next q = Inr (Some p) \<and> p \<in># {#7#}"
proof -
  obtain q :: minheap_runqueue where q: "edf_rep (\<lambda>p. of_nat p) q {#7#}"
    using enqueue_nolock_ok [OF initialize_inv(1), of 3 False "\<lambda>p. of_nat p" 7]
    unfolding initialize_inv(2) by (auto simp: edf_rep_def lock_ok_def priority_queue_initialize_def)
  then show ?thesis using local_runqueue_minheap_edf [OF q] by auto
qed

end
