(* ===== verification/Sandbox.thy ===== *)
theory Sandbox
  imports Local_Runqueue
begin

text \<open>
  The life of a sandbox: the state field, the transitions of runtime/include/sandbox_set_as_*.h, the
  entry points that wrap them, and the allocation and release of runtime/src/sandbox.c. The
  operations work on the state of one worker thread: the sandboxes by address, the run queue
  (through its interface), the current sandbox and the tenant budgets. Each reading of the cycle
  counter is the argument \<open>now\<close>. Calls into the HTTP, module, admissions and metrics components are
  recorded in order in \<open>calls\<close>. The transition hooks of sandbox_state_transition.c are not
  registered anywhere and do nothing.
\<close>

datatype sandbox_state =
    SANDBOX_UNINITIALIZED | SANDBOX_ALLOCATED | SANDBOX_INITIALIZED | SANDBOX_RUNNABLE | SANDBOX_PREEMPTED
  | SANDBOX_RUNNING_SYS | SANDBOX_RUNNING_USER | SANDBOX_INTERRUPTED | SANDBOX_ASLEEP | SANDBOX_RETURNED
  | SANDBOX_COMPLETE | SANDBOX_ERROR

datatype arch_context_variant =
  ARCH_CONTEXT_VARIANT_UNUSED | ARCH_CONTEXT_VARIANT_FAST | ARCH_CONTEXT_VARIANT_SLOW | ARCH_CONTEXT_VARIANT_RUNNING

text \<open>The compile-time options that change the code of the transitions; both are off by default.\<close>

record build_flags =
  SANDBOX_STATE_TOTALS :: bool
  LOG_STATE_CHANGES :: bool

record sandbox =
  sb_id :: u64
  sb_state :: sandbox_state
  state_history :: "sandbox_state list"
  sb_route :: nat
  sb_tenant :: nat
  sb_http :: "nat option"
  sb_module :: nat
  sb_variant :: arch_context_variant
  sb_stack :: "nat option"
  sb_memory :: "nat option"
  sb_globals :: "nat option"
  sb_wasi_context :: "nat option"
  last_state_change :: u64
  allocation :: u64
  dispatched :: u64
  completion :: u64
  duration_of_state :: "sandbox_state \<Rightarrow> u64"
  last_state_duration :: u64
  absolute_deadline :: u64
  admissions_estimate :: u64
  total_time :: u64

datatype call =
    Http_Set_Response_Header nat nat
  | Http_Set_Execution_Complete nat
  | Http_Send_Response nat
  | Module_Acquire nat
  | Module_Release nat
  | Module_Free_Linear_Memory nat nat
  | Module_Free_Stack nat nat
  | Globals_Deinit nat
  | Wasi_Context_Destroy nat
  | Admissions_Info_Update nat u64
  | Admissions_Control_Subtract u64
  | Route_Latency_Add nat u64
  | Ps_List_Init nat
  | Raise_Sigalrm
  | Globals_Write_Back nat
  | Pthread_Kill_Sigalrm nat

record 'rq worker =
  sandboxes :: "sandbox_ptr \<Rightarrow> sandbox"
  runq :: 'rq
  current :: "sandbox_ptr option"
  worker_deadline :: u64
  deferred_sigalrm :: nat
  replenishment_period :: "nat \<Rightarrow> u64"
  remaining_budget :: "nat \<Rightarrow> u64"
  sandbox_state_totals :: "sandbox_state \<Rightarrow> u32"
  sandbox_total :: u64
  calls :: "call list"

abbreviation state_of :: "'rq worker \<Rightarrow> sandbox_ptr \<Rightarrow> sandbox_state" where
  "state_of w p \<equiv> sb_state (sandboxes w p)"

definition upd_sandbox :: "sandbox_ptr \<Rightarrow> (sandbox \<Rightarrow> sandbox) \<Rightarrow> 'rq worker \<Rightarrow> 'rq worker" where
  "upd_sandbox p f w = w\<lparr>sandboxes := (sandboxes w)(p := f (sandboxes w p))\<rparr>"

definition call_out :: "call list \<Rightarrow> 'rq worker \<Rightarrow> 'rq worker" where
  "call_out cs w = w\<lparr>calls := calls w @ cs\<rparr>"

definition SANDBOX_STATE_HISTORY_CAPACITY :: nat where
  "SANDBOX_STATE_HISTORY_CAPACITY = 100"

definition sandbox_state_history_append :: "build_flags \<Rightarrow> sandbox_state list \<Rightarrow> sandbox_state \<Rightarrow> sandbox_state list" where
  "sandbox_state_history_append b h st =
     (if LOG_STATE_CHANGES b \<and> length h < SANDBOX_STATE_HISTORY_CAPACITY then h @ [st] else h)"

definition sandbox_state_totals_increment :: "build_flags \<Rightarrow> sandbox_state \<Rightarrow> 'rq worker \<Rightarrow> 'rq worker" where
  "sandbox_state_totals_increment b st w =
     (if SANDBOX_STATE_TOTALS b
      then w\<lparr>sandbox_state_totals := (sandbox_state_totals w)(st := sandbox_state_totals w st + 1)\<rparr> else w)"

definition sandbox_state_totals_decrement :: "build_flags \<Rightarrow> sandbox_state \<Rightarrow> 'rq worker \<Rightarrow> 'rq worker res" where
  "sandbox_state_totals_decrement b st w =
     (if SANDBOX_STATE_TOTALS b
      then if sandbox_state_totals w st = 0 then Inl Panic
           else Inr (w\<lparr>sandbox_state_totals := (sandbox_state_totals w)(st := sandbox_state_totals w st - 1)\<rparr>)
      else Inr w)"

text \<open>
  The block of bookkeeping that every transition repeats: the time since the last change is charged
  to the state that is left. \<open>hist\<close> is false for the transition to the interrupted state, which is
  not appended to the history.
\<close>

definition charge :: "u64 \<Rightarrow> sandbox_state \<Rightarrow> sandbox \<Rightarrow> sandbox" where
  "charge now last_state s =
     (let d = now - last_state_change s
      in s\<lparr>last_state_duration := d,
           duration_of_state := (duration_of_state s)(last_state := duration_of_state s last_state + d),
           last_state_change := now\<rparr>)"

definition state_change_bookkeeping ::
  "build_flags \<Rightarrow> bool \<Rightarrow> u64 \<Rightarrow> sandbox_ptr \<Rightarrow> sandbox_state \<Rightarrow> sandbox_state \<Rightarrow> 'rq worker \<Rightarrow> 'rq worker res" where
  "state_change_bookkeeping b hist now p last_state new w =
     assertc (last_state_change (sandboxes w p) < now)
       (let w1 = upd_sandbox p (charge now last_state) w;
            w2 = (if hist
                  then upd_sandbox p (\<lambda>s. s\<lparr>state_history := sandbox_state_history_append b (state_history s) new\<rparr>) w1
                  else w1)
        in sandbox_state_totals_decrement b last_state (sandbox_state_totals_increment b new w2))"

definition set_state :: "sandbox_ptr \<Rightarrow> sandbox_state \<Rightarrow> 'rq worker \<Rightarrow> 'rq worker" where
  "set_state p st w = upd_sandbox p (\<lambda>s. s\<lparr>sb_state := st\<rparr>) w"

definition tenant_is_paid :: "'rq worker \<Rightarrow> nat \<Rightarrow> bool" where
  "tenant_is_paid w t \<longleftrightarrow> replenishment_period w t > 0"

definition sandbox_process_scheduler_updates :: "sandbox_ptr \<Rightarrow> 'rq worker \<Rightarrow> 'rq worker" where
  "sandbox_process_scheduler_updates p w =
     (let t = sb_tenant (sandboxes w p)
      in if tenant_is_paid w t
         then w\<lparr>remaining_budget := (remaining_budget w)(t := remaining_budget w t - last_state_duration (sandboxes w p))\<rparr>
         else w)"

definition sandbox_free_linear_memory :: "sandbox_ptr \<Rightarrow> 'rq worker \<Rightarrow> 'rq worker res" where
  "sandbox_free_linear_memory p w =
     (case sb_memory (sandboxes w p) of
        None \<Rightarrow> Inl Assertion_Failure
      | Some m \<Rightarrow> Inr (upd_sandbox p (\<lambda>s. s\<lparr>sb_memory := None\<rparr>)
                        (call_out [Module_Free_Linear_Memory (sb_module (sandboxes w p)) m] w)))"

text \<open>Sending the response with a status code and handing the session back to the listener.\<close>

definition respond :: "sandbox_ptr \<Rightarrow> nat \<Rightarrow> 'rq worker \<Rightarrow> 'rq worker res" where
  "respond p code w =
     (case sb_http (sandboxes w p) of
        None \<Rightarrow> Inl Assertion_Failure
      | Some h \<Rightarrow> Inr (upd_sandbox p (\<lambda>s. s\<lparr>sb_http := None\<rparr>)
          (call_out [Http_Set_Response_Header h code, Http_Set_Execution_Complete h, Http_Send_Response h] w)))"

subsection \<open>The transitions\<close>

definition sandbox_set_as_allocated :: "build_flags \<Rightarrow> u64 \<Rightarrow> sandbox_ptr \<Rightarrow> 'rq worker \<Rightarrow> 'rq worker res" where
  "sandbox_set_as_allocated b now p w =
     assertc (state_of w p = SANDBOX_UNINITIALIZED)
    (assertc (last_state_change (sandboxes w p) < now)
       (Inr (sandbox_state_totals_increment b SANDBOX_ALLOCATED
         (upd_sandbox p (\<lambda>s. s\<lparr>allocation := now, last_state_change := now,
            state_history := (if LOG_STATE_CHANGES b
              then sandbox_state_history_append b [] SANDBOX_ALLOCATED else state_history s)\<rparr>) w))))"

definition sandbox_set_as_initialized ::
  "build_flags \<Rightarrow> u64 \<Rightarrow> sandbox_ptr \<Rightarrow> sandbox_state \<Rightarrow> 'rq worker \<Rightarrow> 'rq worker res" where
  "sandbox_set_as_initialized b now p last_state w =
     (let w1 = set_state p SANDBOX_INITIALIZED w
      in if last_state = SANDBOX_ALLOCATED
         then state_change_bookkeeping b True now p last_state SANDBOX_INITIALIZED w1
         else Inl Panic)"

definition sandbox_set_as_runnable ::
  "build_flags \<Rightarrow> 'rq local_runqueue_config \<Rightarrow> u64 \<Rightarrow> sandbox_ptr \<Rightarrow> sandbox_state \<Rightarrow> 'rq worker \<Rightarrow> 'rq worker res" where
  "sandbox_set_as_runnable b cfg now p last_state w =
     (let w1 = set_state p SANDBOX_RUNNABLE w
      in case last_state of
           SANDBOX_INITIALIZED \<Rightarrow>
             bindr (local_runqueue_add cfg (runq w1) p) (\<lambda>q.
               state_change_bookkeeping b True now p last_state SANDBOX_RUNNABLE
                 ((upd_sandbox p (\<lambda>s. s\<lparr>dispatched := now\<rparr>) w1)\<lparr>runq := q\<rparr>))
         | SANDBOX_ASLEEP \<Rightarrow>
             bindr (local_runqueue_add cfg (runq w1) p) (\<lambda>q.
               state_change_bookkeeping b True now p last_state SANDBOX_RUNNABLE (w1\<lparr>runq := q\<rparr>))
         | _ \<Rightarrow> Inl Panic)"

definition sandbox_wakeup ::
  "build_flags \<Rightarrow> 'rq local_runqueue_config \<Rightarrow> u64 \<Rightarrow> sandbox_ptr \<Rightarrow> 'rq worker \<Rightarrow> 'rq worker res" where
  "sandbox_wakeup b cfg now p w =
     assertc (state_of w p = SANDBOX_ASLEEP) (sandbox_set_as_runnable b cfg now p SANDBOX_ASLEEP w)"

definition sandbox_set_as_running_sys ::
  "build_flags \<Rightarrow> u64 \<Rightarrow> sandbox_ptr \<Rightarrow> sandbox_state \<Rightarrow> 'rq worker \<Rightarrow> 'rq worker res" where
  "sandbox_set_as_running_sys b now p last_state w =
     (let w1 = set_state p SANDBOX_RUNNING_SYS w
      in case last_state of
           SANDBOX_RUNNING_USER \<Rightarrow>
             assertc (current w1 = Some p) (assertc (worker_deadline w1 = absolute_deadline (sandboxes w1 p))
               (state_change_bookkeeping b True now p last_state SANDBOX_RUNNING_SYS w1))
         | SANDBOX_RUNNABLE \<Rightarrow> state_change_bookkeeping b True now p last_state SANDBOX_RUNNING_SYS w1
         | _ \<Rightarrow> Inl Panic)"

definition sandbox_syscall :: "build_flags \<Rightarrow> u64 \<Rightarrow> sandbox_ptr \<Rightarrow> 'rq worker \<Rightarrow> 'rq worker res" where
  "sandbox_syscall b now p w =
     assertc (state_of w p = SANDBOX_RUNNING_USER)
       (bindr (sandbox_set_as_running_sys b now p SANDBOX_RUNNING_USER w)
         (\<lambda>w1. Inr (sandbox_process_scheduler_updates p w1)))"

text \<open>
  Replaying a deferred SIGALRM clears the counter and raises the signal; its handler is not part of
  the transition.
\<close>

definition software_interrupt_deferred_sigalrm_clear :: "'rq worker \<Rightarrow> 'rq worker" where
  "software_interrupt_deferred_sigalrm_clear w = w\<lparr>deferred_sigalrm := 0\<rparr>"

definition software_interrupt_deferred_sigalrm_replay :: "'rq worker \<Rightarrow> 'rq worker" where
  "software_interrupt_deferred_sigalrm_replay w =
     (if deferred_sigalrm w > 0
      then call_out [Raise_Sigalrm] (software_interrupt_deferred_sigalrm_clear w) else w)"

definition sandbox_set_as_running_user ::
  "build_flags \<Rightarrow> u64 \<Rightarrow> sandbox_ptr \<Rightarrow> sandbox_state \<Rightarrow> 'rq worker \<Rightarrow> 'rq worker res" where
  "sandbox_set_as_running_user b now p last_state w =
     (let body = (\<lambda>w1. bindr (state_change_bookkeeping b True now p last_state SANDBOX_RUNNING_USER w1) (\<lambda>w2.
            let w3 = (if last_state = SANDBOX_RUNNING_SYS then sandbox_process_scheduler_updates p w2 else w2)
            in Inr (software_interrupt_deferred_sigalrm_replay (set_state p SANDBOX_RUNNING_USER w3))))
      in case last_state of
           SANDBOX_RUNNING_SYS \<Rightarrow>
             assertc (current w = Some p) (assertc (worker_deadline w = absolute_deadline (sandboxes w p)) (body w))
         | SANDBOX_PREEMPTED \<Rightarrow> body w
         | _ \<Rightarrow> Inl Panic)"

definition sandbox_return :: "build_flags \<Rightarrow> u64 \<Rightarrow> sandbox_ptr \<Rightarrow> 'rq worker \<Rightarrow> 'rq worker res" where
  "sandbox_return b now p w =
     assertc (state_of w p = SANDBOX_RUNNING_SYS) (sandbox_set_as_running_user b now p SANDBOX_RUNNING_SYS w)"

definition sandbox_set_as_interrupted ::
  "build_flags \<Rightarrow> u64 \<Rightarrow> sandbox_ptr \<Rightarrow> sandbox_state \<Rightarrow> 'rq worker \<Rightarrow> 'rq worker res" where
  "sandbox_set_as_interrupted b now p last_state w =
     state_change_bookkeeping b False now p last_state SANDBOX_INTERRUPTED (set_state p SANDBOX_INTERRUPTED w)"

definition sandbox_interrupt :: "build_flags \<Rightarrow> u64 \<Rightarrow> sandbox_ptr \<Rightarrow> 'rq worker \<Rightarrow> 'rq worker res" where
  "sandbox_interrupt b now p w =
     bindr (sandbox_set_as_interrupted b now p (state_of w p) w)
       (\<lambda>w1. Inr (sandbox_process_scheduler_updates p w1))"

definition sandbox_interrupt_return ::
  "build_flags \<Rightarrow> u64 \<Rightarrow> sandbox_ptr \<Rightarrow> sandbox_state \<Rightarrow> 'rq worker \<Rightarrow> 'rq worker res" where
  "sandbox_interrupt_return b now p interrupted_state w =
     assertc (interrupted_state \<noteq> SANDBOX_INTERRUPTED)
       (let w1 = upd_sandbox p (\<lambda>s. s\<lparr>duration_of_state := (duration_of_state s)(SANDBOX_INTERRUPTED :=
                   duration_of_state s SANDBOX_INTERRUPTED + (now - last_state_change s)),
                   last_state_change := now\<rparr>) w
        in bindr (sandbox_state_totals_decrement b SANDBOX_INTERRUPTED
                   (sandbox_state_totals_increment b interrupted_state w1))
             (\<lambda>w2. Inr (set_state p interrupted_state w2)))"

definition sandbox_set_as_preempted ::
  "build_flags \<Rightarrow> u64 \<Rightarrow> sandbox_ptr \<Rightarrow> sandbox_state \<Rightarrow> 'rq worker \<Rightarrow> 'rq worker res" where
  "sandbox_set_as_preempted b now p last_state w =
     (let w1 = set_state p SANDBOX_PREEMPTED w
      in if last_state = SANDBOX_INTERRUPTED
         then state_change_bookkeeping b True now p last_state SANDBOX_PREEMPTED w1 else Inl Panic)"

definition sandbox_preempt :: "build_flags \<Rightarrow> u64 \<Rightarrow> sandbox_ptr \<Rightarrow> 'rq worker \<Rightarrow> 'rq worker res" where
  "sandbox_preempt b now p w =
     assertc (state_of w p = SANDBOX_INTERRUPTED) (sandbox_set_as_preempted b now p SANDBOX_INTERRUPTED w)"

definition sandbox_set_as_asleep ::
  "build_flags \<Rightarrow> 'rq local_runqueue_config \<Rightarrow> u64 \<Rightarrow> sandbox_ptr \<Rightarrow> sandbox_state \<Rightarrow> 'rq worker \<Rightarrow> 'rq worker res" where
  "sandbox_set_as_asleep b cfg now p last_state w =
     (let w1 = set_state p SANDBOX_ASLEEP w
      in if last_state = SANDBOX_RUNNING_SYS
         then bindr (local_runqueue_delete cfg (runq w1) p) (\<lambda>q.
                state_change_bookkeeping b True now p last_state SANDBOX_ASLEEP (w1\<lparr>runq := q\<rparr>))
         else Inl Panic)"

definition sandbox_sleep ::
  "build_flags \<Rightarrow> 'rq local_runqueue_config \<Rightarrow> u64 \<Rightarrow> sandbox_ptr \<Rightarrow> 'rq worker \<Rightarrow> 'rq worker res" where
  "sandbox_sleep b cfg now p w =
     assertc (state_of w p = SANDBOX_RUNNING_SYS) (sandbox_set_as_asleep b cfg now p SANDBOX_RUNNING_SYS w)"

definition sandbox_set_as_returned ::
  "build_flags \<Rightarrow> 'rq local_runqueue_config \<Rightarrow> u64 \<Rightarrow> sandbox_ptr \<Rightarrow> sandbox_state \<Rightarrow> 'rq worker \<Rightarrow> 'rq worker res" where
  "sandbox_set_as_returned b cfg now p last_state w =
     (let w1 = set_state p SANDBOX_RETURNED w
      in if last_state = SANDBOX_RUNNING_SYS
         then bindr (local_runqueue_delete cfg (runq w1) p) (\<lambda>q.
              bindr (sandbox_free_linear_memory p (w1\<lparr>runq := q\<rparr>)) (\<lambda>w2.
              bindr (state_change_bookkeeping b True now p last_state SANDBOX_RETURNED w2) (\<lambda>w3.
              bindr (respond p 200 w3) (\<lambda>w4.
              Inr (sandbox_process_scheduler_updates p w4)))))
         else Inl Panic)"

definition sandbox_set_as_complete ::
  "build_flags \<Rightarrow> u64 \<Rightarrow> sandbox_ptr \<Rightarrow> sandbox_state \<Rightarrow> 'rq worker \<Rightarrow> 'rq worker res" where
  "sandbox_set_as_complete b now p last_state w =
     (let w1 = set_state p SANDBOX_COMPLETE w
      in if last_state = SANDBOX_RETURNED
         then bindr (state_change_bookkeeping b True now p last_state SANDBOX_COMPLETE
                      (upd_sandbox p (\<lambda>s. s\<lparr>completion := now\<rparr>) w1)) (\<lambda>w2.
              let s = sandboxes w2 p
              in Inr (call_out [Admissions_Info_Update (sb_route s)
                          (duration_of_state s SANDBOX_RUNNING_USER + duration_of_state s SANDBOX_RUNNING_SYS),
                        Admissions_Control_Subtract (admissions_estimate s),
                        Route_Latency_Add (sb_route s) (total_time s)] w2))
         else Inl Panic)"

definition sandbox_exit_success :: "build_flags \<Rightarrow> u64 \<Rightarrow> sandbox_ptr \<Rightarrow> 'rq worker \<Rightarrow> 'rq worker res" where
  "sandbox_exit_success b now p w =
     assertc (state_of w p = SANDBOX_RETURNED) (sandbox_set_as_complete b now p SANDBOX_RETURNED w)"

definition sandbox_set_as_error ::
  "build_flags \<Rightarrow> 'rq local_runqueue_config \<Rightarrow> u64 \<Rightarrow> sandbox_ptr \<Rightarrow> sandbox_state \<Rightarrow> 'rq worker \<Rightarrow> 'rq worker res" where
  "sandbox_set_as_error b cfg now p last_state w =
     (let w1 = set_state p SANDBOX_ERROR w;
          rest = (\<lambda>w2. bindr (state_change_bookkeeping b True now p last_state SANDBOX_ERROR w2) (\<lambda>w3.
            respond p 500 (call_out [Admissions_Control_Subtract (admissions_estimate (sandboxes w3 p))] w3)))
      in case last_state of
           SANDBOX_ALLOCATED \<Rightarrow> rest w1
         | SANDBOX_RUNNING_SYS \<Rightarrow>
             bindr (local_runqueue_delete cfg (runq w1) p) (\<lambda>q.
             bindr (sandbox_free_linear_memory p (w1\<lparr>runq := q\<rparr>)) rest)
         | _ \<Rightarrow> Inl Panic)"

definition sandbox_exit_error ::
  "build_flags \<Rightarrow> 'rq local_runqueue_config \<Rightarrow> u64 \<Rightarrow> sandbox_ptr \<Rightarrow> 'rq worker \<Rightarrow> 'rq worker res" where
  "sandbox_exit_error b cfg now p w =
     assertc (state_of w p = SANDBOX_RUNNING_SYS)
       (bindr (sandbox_set_as_error b cfg now p SANDBOX_RUNNING_SYS w)
         (\<lambda>w1. Inr (sandbox_process_scheduler_updates p w1)))"

subsection \<open>Allocation and release (runtime/src/sandbox.c)\<close>

definition sandbox_total_postfix_increment :: "'rq worker \<Rightarrow> u64 \<times> 'rq worker" where
  "sandbox_total_postfix_increment w = (sandbox_total w + 1, w\<lparr>sandbox_total := sandbox_total w + 1\<rparr>)"

definition zero_sandbox :: sandbox where
  "zero_sandbox = \<lparr>sb_id = 0, sb_state = SANDBOX_UNINITIALIZED, state_history = [], sb_route = 0, sb_tenant = 0,
     sb_http = None, sb_module = 0, sb_variant = ARCH_CONTEXT_VARIANT_UNUSED, sb_stack = None, sb_memory = None,
     sb_globals = None, sb_wasi_context = None, last_state_change = 0, allocation = 0, dispatched = 0,
     completion = 0, duration_of_state = (\<lambda>_. 0), last_state_duration = 0, absolute_deadline = 0,
     admissions_estimate = 0, total_time = 0\<rparr>"

text \<open>The argument \<open>relative_deadline\<close> is that field of the route.\<close>

definition sandbox_init ::
  "build_flags \<Rightarrow> u64 \<Rightarrow> u64 \<Rightarrow> sandbox_ptr \<Rightarrow> nat \<Rightarrow> nat \<Rightarrow> nat \<Rightarrow> nat \<Rightarrow> u64 \<Rightarrow> 'rq worker \<Rightarrow> 'rq worker res" where
  "sandbox_init b now relative_deadline p module session route tenant estimate w =
     (let (i, w1) = sandbox_total_postfix_increment w;
          w2 = call_out [Module_Acquire module, Ps_List_Init p]
                 (upd_sandbox p (\<lambda>s. s\<lparr>sb_id := i, sb_module := module\<rparr>) w1);
          w3 = upd_sandbox p (\<lambda>s. s\<lparr>sb_http := Some session, sb_tenant := tenant, sb_route := route,
                 absolute_deadline := allocation s + relative_deadline\<rparr>) w2
      in assertc (estimate \<noteq> 0)
           (sandbox_set_as_initialized b now p SANDBOX_ALLOCATED
             (upd_sandbox p (\<lambda>s. s\<lparr>admissions_estimate := estimate\<rparr>) w3)))"

text \<open>The argument \<open>mem\<close> is what \<open>aligned_alloc\<close> returns; \<open>now\<close> and \<open>now'\<close> are the two clock readings.\<close>

definition sandbox_alloc ::
  "build_flags \<Rightarrow> u64 \<Rightarrow> u64 \<Rightarrow> u64 \<Rightarrow> sandbox_ptr option \<Rightarrow> nat \<Rightarrow> nat \<Rightarrow> nat \<Rightarrow> nat \<Rightarrow> u64 \<Rightarrow> 'rq worker \<Rightarrow>
    (sandbox_ptr option \<times> 'rq worker) res" where
  "sandbox_alloc b now now' relative_deadline mem module session route tenant estimate w =
     (case mem of
        None \<Rightarrow> Inr (None, w)
      | Some p \<Rightarrow>
          bindr (sandbox_set_as_allocated b now p (upd_sandbox p (\<lambda>_. zero_sandbox) w)) (\<lambda>w1.
          bindr (sandbox_init b now' relative_deadline p module session route tenant estimate w1) (\<lambda>w2.
          Inr (Some p, w2))))"

text \<open>What the allocations of a sandbox's resources return: return codes, or the address or null.\<close>

record alloc_results =
  body_rc :: int
  globals_rc :: int
  globals_buffer :: "nat option"
  memory_res :: "nat option"
  stack_res :: "nat option"

definition sandbox_prepare_execution_environment ::
  "build_flags \<Rightarrow> 'rq local_runqueue_config \<Rightarrow> u64 \<Rightarrow> alloc_results \<Rightarrow> sandbox_ptr \<Rightarrow> 'rq worker \<Rightarrow> (int \<times> 'rq worker) res" where
  "sandbox_prepare_execution_environment b cfg now r p w =
     (let err = (\<lambda>w'. bindr (sandbox_set_as_error b cfg now p SANDBOX_ALLOCATED w') (\<lambda>w''. Inr (- 1, w'')))
      in if sb_http (sandboxes w p) = None then Inl Assertion_Failure
         else if body_rc r < 0 then err w
         else let w1 = upd_sandbox p (\<lambda>s. s\<lparr>sb_globals := globals_buffer r\<rparr>) w
         in if globals_rc r < 0 then err w1
         else let w2 = upd_sandbox p (\<lambda>s. s\<lparr>sb_memory := memory_res r\<rparr>) w1
         in if memory_res r = None then err w2
         else let w3 = upd_sandbox p (\<lambda>s. s\<lparr>sb_stack := stack_res r\<rparr>) w2
         in if stack_res r = None then err w3
         else Inr (0, upd_sandbox p (\<lambda>s. s\<lparr>sb_variant := ARCH_CONTEXT_VARIANT_FAST\<rparr>) w3))"

definition sandbox_deinit :: "sandbox_ptr \<Rightarrow> 'rq worker \<Rightarrow> 'rq worker res" where
  "sandbox_deinit p w =
     (let s = sandboxes w p
      in assertc (current w \<noteq> Some p)
        (assertc (sb_state s = SANDBOX_ERROR \<or> sb_state s = SANDBOX_COMPLETE)
        (assertc (sb_http s = None)
        (assertc (sb_memory s = None)
          (Inr (call_out ([Module_Release (sb_module s)] @
             (case sb_stack s of None \<Rightarrow> [] | Some st \<Rightarrow> [Module_Free_Stack (sb_module s) st]) @
             (case sb_globals s of None \<Rightarrow> [] | Some g \<Rightarrow> [Globals_Deinit g]) @
             (case sb_wasi_context s of None \<Rightarrow> [] | Some c \<Rightarrow> [Wasi_Context_Destroy c])) w))))))"

definition sandbox_free :: "sandbox_ptr \<Rightarrow> 'rq worker \<Rightarrow> 'rq worker res" where
  "sandbox_free p w =
     assertc (current w \<noteq> Some p)
    (assertc (state_of w p = SANDBOX_ERROR \<or> state_of w p = SANDBOX_COMPLETE) (sandbox_deinit p w))"

text \<open>
  \<open>current_sandbox_set\<close> of runtime/include/current_sandbox.h, without the copy of the sandbox's memory,
  table and global into the module instance that compiled code reads; reading the memory needs a
  sandbox that has one.
\<close>

definition current_sandbox_set :: "sandbox_ptr option \<Rightarrow> 'rq worker \<Rightarrow> 'rq worker res" where
  "current_sandbox_set sp w =
     (case sp of
        None \<Rightarrow> Inr (w\<lparr>current := None, worker_deadline := UINT64_MAX\<rparr>)
      | Some p \<Rightarrow> if sb_memory (sandboxes w p) = None then Inl Null_Dereference
                  else Inr (w\<lparr>current := Some p, worker_deadline := absolute_deadline (sandboxes w p)\<rparr>))"

subsection \<open>The steps of a worker that change sandboxes\<close>

inductive sandbox_step :: "build_flags \<Rightarrow> 'rq local_runqueue_config \<Rightarrow> 'rq worker \<Rightarrow> 'rq worker \<Rightarrow> bool"
  for b cfg where
  step_runnable: "\<lbrakk>state_of w p = SANDBOX_INITIALIZED;
      sandbox_set_as_runnable b cfg now p SANDBOX_INITIALIZED w = Inr w'\<rbrakk> \<Longrightarrow> sandbox_step b cfg w w'"
| step_dispatch: "\<lbrakk>state_of w p = SANDBOX_RUNNABLE; current_sandbox_set (Some p) w = Inr w1;
      sandbox_set_as_running_sys b now p SANDBOX_RUNNABLE w1 = Inr w'\<rbrakk> \<Longrightarrow> sandbox_step b cfg w w'"
| step_resume: "\<lbrakk>state_of w p = SANDBOX_PREEMPTED; current_sandbox_set (Some p) w = Inr w1;
      sandbox_set_as_running_user b now p SANDBOX_PREEMPTED w1 = Inr w'\<rbrakk> \<Longrightarrow> sandbox_step b cfg w w'"
| step_leave: "current_sandbox_set None w = Inr w' \<Longrightarrow> sandbox_step b cfg w w'"
| step_return: "sandbox_return b now p w = Inr w' \<Longrightarrow> sandbox_step b cfg w w'"
| step_syscall: "sandbox_syscall b now p w = Inr w' \<Longrightarrow> sandbox_step b cfg w w'"
| step_interrupt: "\<lbrakk>state_of w p = SANDBOX_RUNNING_USER; sandbox_interrupt b now p w = Inr w'\<rbrakk> \<Longrightarrow>
      sandbox_step b cfg w w'"
| step_interrupt_return: "\<lbrakk>state_of w p = SANDBOX_INTERRUPTED;
      sandbox_interrupt_return b now p SANDBOX_RUNNING_USER w = Inr w'\<rbrakk> \<Longrightarrow> sandbox_step b cfg w w'"
| step_preempt: "sandbox_preempt b now p w = Inr w' \<Longrightarrow> sandbox_step b cfg w w'"
| step_sleep: "sandbox_sleep b cfg now p w = Inr w' \<Longrightarrow> sandbox_step b cfg w w'"
| step_wakeup: "sandbox_wakeup b cfg now p w = Inr w' \<Longrightarrow> sandbox_step b cfg w w'"
| step_returned: "\<lbrakk>state_of w p = SANDBOX_RUNNING_SYS;
      sandbox_set_as_returned b cfg now p SANDBOX_RUNNING_SYS w = Inr w'\<rbrakk> \<Longrightarrow> sandbox_step b cfg w w'"
| step_exit_success: "sandbox_exit_success b now p w = Inr w' \<Longrightarrow> sandbox_step b cfg w w'"
| step_exit_error: "sandbox_exit_error b cfg now p w = Inr w' \<Longrightarrow> sandbox_step b cfg w w'"

subsection \<open>What is stated of the states\<close>

definition sandbox_states :: "sandbox_state list" where
  "sandbox_states = [SANDBOX_UNINITIALIZED, SANDBOX_ALLOCATED, SANDBOX_INITIALIZED, SANDBOX_RUNNABLE,
     SANDBOX_PREEMPTED, SANDBOX_RUNNING_SYS, SANDBOX_RUNNING_USER, SANDBOX_INTERRUPTED, SANDBOX_ASLEEP,
     SANDBOX_RETURNED, SANDBOX_COMPLETE, SANDBOX_ERROR]"

text \<open>All the time between the allocation and the last transition is charged to some state.\<close>

definition time_accounted :: "sandbox \<Rightarrow> bool" where
  "time_accounted s \<longleftrightarrow>
     sum_list (map (duration_of_state s) sandbox_states) = last_state_change s - allocation s"

text \<open>The states in which a sandbox is on the run queue of its worker.\<close>

definition queued_state :: "sandbox_state \<Rightarrow> bool" where
  "queued_state st \<longleftrightarrow> st \<in> {SANDBOX_RUNNABLE, SANDBOX_PREEMPTED, SANDBOX_RUNNING_SYS, SANDBOX_RUNNING_USER,
     SANDBOX_INTERRUPTED}"

text \<open>The edges of the state machine.\<close>

definition legal_transition :: "sandbox_state \<Rightarrow> sandbox_state \<Rightarrow> bool" where
  "legal_transition st st' \<longleftrightarrow> (st, st') \<in> {
     (SANDBOX_INITIALIZED, SANDBOX_RUNNABLE), (SANDBOX_ASLEEP, SANDBOX_RUNNABLE),
     (SANDBOX_RUNNABLE, SANDBOX_RUNNING_SYS), (SANDBOX_RUNNING_USER, SANDBOX_RUNNING_SYS),
     (SANDBOX_RUNNING_SYS, SANDBOX_RUNNING_USER), (SANDBOX_PREEMPTED, SANDBOX_RUNNING_USER),
     (SANDBOX_RUNNING_USER, SANDBOX_INTERRUPTED), (SANDBOX_INTERRUPTED, SANDBOX_RUNNING_USER),
     (SANDBOX_INTERRUPTED, SANDBOX_PREEMPTED), (SANDBOX_RUNNING_SYS, SANDBOX_ASLEEP),
     (SANDBOX_RUNNING_SYS, SANDBOX_RETURNED), (SANDBOX_RETURNED, SANDBOX_COMPLETE),
     (SANDBOX_RUNNING_SYS, SANDBOX_ERROR)}"

definition responses_to :: "nat \<Rightarrow> call list \<Rightarrow> nat" where
  "responses_to h cs = count_list cs (Http_Send_Response h)"

text \<open>Only the sandbox \<open>p\<close> changed, to the state \<open>new\<close>, with its accounting and deadline kept.\<close>

definition moved :: "sandbox_ptr \<Rightarrow> sandbox_state \<Rightarrow> 'rq worker \<Rightarrow> 'rq worker \<Rightarrow> bool" where
  "moved p new w w' \<longleftrightarrow> (\<forall>q. q \<noteq> p \<longrightarrow> sandboxes w' q = sandboxes w q) \<and> state_of w' p = new \<and>
     time_accounted (sandboxes w' p) = time_accounted (sandboxes w p) \<and>
     absolute_deadline (sandboxes w' p) = absolute_deadline (sandboxes w p)"

text \<open>No response was sent, and the session of \<open>p\<close> is still with the sandbox.\<close>

definition no_response :: "sandbox_ptr \<Rightarrow> 'rq worker \<Rightarrow> 'rq worker \<Rightarrow> bool" where
  "no_response p w w' \<longleftrightarrow> sb_http (sandboxes w' p) = sb_http (sandboxes w p) \<and>
     (\<forall>h. responses_to h (calls w') = responses_to h (calls w))"

text \<open>One response was sent on the session of \<open>p\<close>, which the sandbox gave up.\<close>

definition one_response :: "sandbox_ptr \<Rightarrow> 'rq worker \<Rightarrow> 'rq worker \<Rightarrow> bool" where
  "one_response p w w' \<longleftrightarrow> (\<exists>s. sb_http (sandboxes w p) = Some s \<and> sb_http (sandboxes w' p) = None \<and>
     (\<forall>h. responses_to h (calls w') = responses_to h (calls w) + (if h = s then 1 else 0)))"

text \<open>
  One step of the state machine: one sandbox moves along a legal edge, the run queue gains or loses
  exactly that sandbox when the edge enters or leaves the queued states, and the response goes out
  exactly on the edges into the returned and the error state.
\<close>

definition machine_step :: "'rq local_runqueue_config \<Rightarrow> sandbox_ptr \<Rightarrow> sandbox_state \<Rightarrow> 'rq worker \<Rightarrow> 'rq worker \<Rightarrow> bool" where
  "machine_step cfg p st w w' \<longleftrightarrow> moved p st w w' \<and> legal_transition (state_of w p) st \<and>
     (if queued_state (state_of w p) = queued_state st then runq w' = runq w
      else if queued_state st then local_runqueue_add cfg (runq w) p = Inr (runq w')
      else local_runqueue_delete cfg (runq w) p = Inr (runq w')) \<and>
     (if st \<in> {SANDBOX_RETURNED, SANDBOX_ERROR} then one_response p w w' else no_response p w w')"

text \<open>The session \<open>h\<close> of the sandbox \<open>p\<close> is answered exactly when \<open>p\<close> has returned or failed.\<close>

definition answered :: "sandbox_state \<Rightarrow> bool" where
  "answered st \<longleftrightarrow> st \<in> {SANDBOX_RETURNED, SANDBOX_COMPLETE, SANDBOX_ERROR}"

definition session_inv :: "sandbox_ptr \<Rightarrow> nat \<Rightarrow> 'rq worker \<Rightarrow> bool" where
  "session_inv p h w \<longleftrightarrow> (\<forall>q. q \<noteq> p \<longrightarrow> sb_http (sandboxes w q) \<noteq> Some h) \<and>
     sb_http (sandboxes w p) = (if answered (state_of w p) then None else Some h) \<and>
     responses_to h (calls w) = (if answered (state_of w p) then 1 else 0)"

text \<open>
  The run queue holds, once each, exactly the sandboxes that are in a queued state; the addresses
  that are not valid for a sandbox hold none.
\<close>

definition queue_matches ::
  "('rq \<Rightarrow> sandbox_ptr multiset \<Rightarrow> bool) \<Rightarrow> (sandbox_ptr \<Rightarrow> bool) \<Rightarrow> 'rq worker \<Rightarrow> bool" where
  "queue_matches rep valid w \<longleftrightarrow> (\<exists>A. rep (runq w) A \<and>
     (\<forall>p. count A p = (if queued_state (state_of w p) then 1 else 0))) \<and>
     (\<forall>p. \<not> valid p \<longrightarrow> state_of w p = SANDBOX_UNINITIALIZED)"

text \<open>A worker with no sandbox, and the default build.\<close>

definition idle_worker :: "'rq \<Rightarrow> 'rq worker" where
  "idle_worker q = \<lparr>sandboxes = (\<lambda>_. zero_sandbox), runq = q, current = None, worker_deadline = UINT64_MAX,
     deferred_sigalrm = 0, replenishment_period = (\<lambda>_. 0), remaining_budget = (\<lambda>_. 0),
     sandbox_state_totals = (\<lambda>_. 0), sandbox_total = 0, calls = []\<rparr>"

definition default_build :: build_flags where
  "default_build = \<lparr>SANDBOX_STATE_TOTALS = False, LOG_STATE_CHANGES = False\<rparr>"

subsection \<open>Effects of the building blocks\<close>

lemma helper_simps [simp]:
  "sandboxes (upd_sandbox p f w) = (sandboxes w)(p := f (sandboxes w p))"
  "runq (upd_sandbox p f w) = runq w" "current (upd_sandbox p f w) = current w"
  "worker_deadline (upd_sandbox p f w) = worker_deadline w" "calls (upd_sandbox p f w) = calls w"
  "sandbox_state_totals (upd_sandbox p f w) = sandbox_state_totals w"
  "sandboxes (call_out cs w) = sandboxes w" "runq (call_out cs w) = runq w" "current (call_out cs w) = current w"
  "worker_deadline (call_out cs w) = worker_deadline w" "calls (call_out cs w) = calls w @ cs"
  "sandboxes (set_state p st w) = (sandboxes w)(p := (sandboxes w p)\<lparr>sb_state := st\<rparr>)"
  "runq (set_state p st w) = runq w" "current (set_state p st w) = current w"
  "worker_deadline (set_state p st w) = worker_deadline w" "calls (set_state p st w) = calls w"
  "sandboxes (sandbox_process_scheduler_updates p w) = sandboxes w"
  "runq (sandbox_process_scheduler_updates p w) = runq w"
  "current (sandbox_process_scheduler_updates p w) = current w"
  "worker_deadline (sandbox_process_scheduler_updates p w) = worker_deadline w"
  "calls (sandbox_process_scheduler_updates p w) = calls w"
  "sandboxes (software_interrupt_deferred_sigalrm_replay w) = sandboxes w"
  "runq (software_interrupt_deferred_sigalrm_replay w) = runq w"
  "current (software_interrupt_deferred_sigalrm_replay w) = current w"
  by (simp_all add: upd_sandbox_def call_out_def set_state_def sandbox_process_scheduler_updates_def Let_def
      software_interrupt_deferred_sigalrm_replay_def software_interrupt_deferred_sigalrm_clear_def)

lemma totals_simps [simp]:
  "sandboxes (sandbox_state_totals_increment b st w) = sandboxes w"
  "runq (sandbox_state_totals_increment b st w) = runq w"
  "current (sandbox_state_totals_increment b st w) = current w"
  "worker_deadline (sandbox_state_totals_increment b st w) = worker_deadline w"
  "calls (sandbox_state_totals_increment b st w) = calls w"
  by (simp_all add: sandbox_state_totals_increment_def)

lemma totals_decrement_effects:
  "sandbox_state_totals_decrement b st w = Inr w' \<Longrightarrow>
    sandboxes w' = sandboxes w \<and> runq w' = runq w \<and> current w' = current w \<and>
    worker_deadline w' = worker_deadline w \<and> calls w' = calls w"
  by (auto simp: sandbox_state_totals_decrement_def split: if_splits)

lemma bookkeeping_effects:
  assumes "state_change_bookkeeping b hist now p last_state new w = Inr w'"
  shows "\<exists>h. sandboxes w' = (sandboxes w)(p := (charge now last_state (sandboxes w p))\<lparr>state_history := h\<rparr>) \<and>
    runq w' = runq w \<and> current w' = current w \<and> worker_deadline w' = worker_deadline w \<and> calls w' = calls w"
proof (cases hist)
  case True
  then show ?thesis
    using assms by (auto simp: state_change_bookkeeping_def Let_def dest!: totals_decrement_effects)
next
  case False
  then show ?thesis
    using assms
    by (auto simp: state_change_bookkeeping_def Let_def dest!: totals_decrement_effects
        intro!: exI [of _ "state_history (charge now last_state (sandboxes w p))"])
qed

lemma charge_simps [simp]:
  "sb_state (charge now l s) = sb_state s" "sb_http (charge now l s) = sb_http s"
  "sb_memory (charge now l s) = sb_memory s" "absolute_deadline (charge now l s) = absolute_deadline s"
  "allocation (charge now l s) = allocation s" "last_state_change (charge now l s) = now"
  "admissions_estimate (charge now l s) = admissions_estimate s" "sb_variant (charge now l s) = sb_variant s"
  by (simp_all add: charge_def Let_def)

lemma sum_states_update:
  "sum_list (map (d(st := d st + x)) sandbox_states) = sum_list (map d sandbox_states) + x" for x :: u64
  by (cases st) (simp_all add: sandbox_states_def)

lemma charge_shift: "x + (n - l) = n - a \<longleftrightarrow> x = l - a" for x n l a :: u64
proof
  assume "x + (n - l) = n - a"
  then have "x = n - a - (n - l)" by (metis add_diff_cancel_right')
  also have "\<dots> = l - a" by simp
  finally show "x = l - a" .
qed simp

lemma time_accounted_charge [simp]: "time_accounted (charge now l s) = time_accounted s"
  by (simp add: time_accounted_def charge_def Let_def sum_states_update charge_shift del: fun_upd_apply)

lemma time_accounted_upd [simp]:
  "time_accounted (s\<lparr>sb_state := st\<rparr>) = time_accounted s"
  "time_accounted (s\<lparr>state_history := h\<rparr>) = time_accounted s"
  "time_accounted (s\<lparr>dispatched := n\<rparr>) = time_accounted s"
  "time_accounted (s\<lparr>completion := n\<rparr>) = time_accounted s"
  "time_accounted (s\<lparr>sb_memory := m\<rparr>) = time_accounted s"
  "time_accounted (s\<lparr>sb_http := ht\<rparr>) = time_accounted s"
  by (simp_all add: time_accounted_def)

lemma responses_to_simps [simp]:
  "responses_to h (cs @ ds) = responses_to h cs + responses_to h ds" "responses_to h [] = 0"
  "responses_to h (Http_Send_Response h' # cs) = (if h' = h then 1 else 0) + responses_to h cs"
  "responses_to h (Http_Set_Response_Header a c # cs) = responses_to h cs"
  "responses_to h (Http_Set_Execution_Complete a # cs) = responses_to h cs"
  "responses_to h (Module_Free_Linear_Memory a m # cs) = responses_to h cs"
  "responses_to h (Admissions_Info_Update r d # cs) = responses_to h cs"
  "responses_to h (Admissions_Control_Subtract e # cs) = responses_to h cs"
  "responses_to h (Route_Latency_Add r d # cs) = responses_to h cs"
  "responses_to h (Raise_Sigalrm # cs) = responses_to h cs"
  by (simp_all add: responses_to_def)

lemma replay_responses [simp]:
  "responses_to h (calls (software_interrupt_deferred_sigalrm_replay w)) = responses_to h (calls w)"
  by (simp add: software_interrupt_deferred_sigalrm_replay_def software_interrupt_deferred_sigalrm_clear_def)

subsection \<open>Effects of the transitions\<close>

named_theorems transition_effects \<open>what a transition that returns did\<close>

lemma set_as_runnable_effects [transition_effects]:
  assumes "sandbox_set_as_runnable b cfg now p st w = Inr w'"
  shows "moved p SANDBOX_RUNNABLE w w' \<and> no_response p w w' \<and>
    local_runqueue_add cfg (runq w) p = Inr (runq w') \<and> st \<in> {SANDBOX_INITIALIZED, SANDBOX_ASLEEP}"
  using assms
  by (auto simp: sandbox_set_as_runnable_def Let_def moved_def no_response_def
      dest!: bookkeeping_effects split: sandbox_state.splits)

lemma set_as_running_sys_effects [transition_effects]:
  assumes "sandbox_set_as_running_sys b now p st w = Inr w'"
  shows "moved p SANDBOX_RUNNING_SYS w w' \<and> no_response p w w' \<and> runq w' = runq w \<and>
    st \<in> {SANDBOX_RUNNING_USER, SANDBOX_RUNNABLE}"
  using assms
  by (auto simp: sandbox_set_as_running_sys_def Let_def moved_def no_response_def
      dest!: bookkeeping_effects split: sandbox_state.splits)

lemma set_as_running_user_effects [transition_effects]:
  assumes "sandbox_set_as_running_user b now p st w = Inr w'"
  shows "moved p SANDBOX_RUNNING_USER w w' \<and> no_response p w w' \<and> runq w' = runq w \<and>
    st \<in> {SANDBOX_RUNNING_SYS, SANDBOX_PREEMPTED}"
  using assms
  by (auto simp: sandbox_set_as_running_user_def Let_def moved_def no_response_def
      dest!: bookkeeping_effects split: sandbox_state.splits)

lemma set_as_interrupted_effects [transition_effects]:
  assumes "sandbox_set_as_interrupted b now p st w = Inr w'"
  shows "moved p SANDBOX_INTERRUPTED w w' \<and> no_response p w w' \<and> runq w' = runq w"
  using assms
  by (auto simp: sandbox_set_as_interrupted_def moved_def no_response_def dest!: bookkeeping_effects)

lemma time_accounted_interrupt_return:
  "time_accounted (s\<lparr>duration_of_state := (duration_of_state s)(st := duration_of_state s st +
     (now - last_state_change s)), last_state_change := now\<rparr>) = time_accounted s"
  by (simp add: time_accounted_def sum_states_update charge_shift del: fun_upd_apply)

lemma interrupt_return_effects [transition_effects]:
  assumes "sandbox_interrupt_return b now p st w = Inr w'"
  shows "moved p st w w' \<and> no_response p w w' \<and> runq w' = runq w \<and> st \<noteq> SANDBOX_INTERRUPTED"
  using assms
  by (auto simp: sandbox_interrupt_return_def Let_def moved_def no_response_def time_accounted_interrupt_return
      simp del: fun_upd_upd dest!: totals_decrement_effects)

lemma set_as_preempted_effects [transition_effects]:
  assumes "sandbox_set_as_preempted b now p st w = Inr w'"
  shows "moved p SANDBOX_PREEMPTED w w' \<and> no_response p w w' \<and> runq w' = runq w \<and> st = SANDBOX_INTERRUPTED"
  using assms
  by (auto simp: sandbox_set_as_preempted_def Let_def moved_def no_response_def
      dest!: bookkeeping_effects split: if_splits)

lemma set_as_asleep_effects [transition_effects]:
  assumes "sandbox_set_as_asleep b cfg now p st w = Inr w'"
  shows "moved p SANDBOX_ASLEEP w w' \<and> no_response p w w' \<and>
    local_runqueue_delete cfg (runq w) p = Inr (runq w') \<and> st = SANDBOX_RUNNING_SYS"
  using assms
  by (auto simp: sandbox_set_as_asleep_def Let_def moved_def no_response_def
      dest!: bookkeeping_effects split: if_splits)

lemma set_as_returned_effects [transition_effects]:
  assumes "sandbox_set_as_returned b cfg now p st w = Inr w'"
  shows "moved p SANDBOX_RETURNED w w' \<and> one_response p w w' \<and>
    local_runqueue_delete cfg (runq w) p = Inr (runq w') \<and> sb_memory (sandboxes w' p) = None \<and>
    st = SANDBOX_RUNNING_SYS"
  using assms
  by (auto simp: sandbox_set_as_returned_def Let_def moved_def one_response_def respond_def
      sandbox_free_linear_memory_def dest!: bookkeeping_effects split: if_splits option.splits)

lemma set_as_complete_effects [transition_effects]:
  assumes "sandbox_set_as_complete b now p st w = Inr w'"
  shows "moved p SANDBOX_COMPLETE w w' \<and> no_response p w w' \<and> runq w' = runq w \<and> st = SANDBOX_RETURNED"
  using assms
  by (auto simp: sandbox_set_as_complete_def Let_def moved_def no_response_def
      dest!: bookkeeping_effects split: if_splits)

lemma set_as_error_effects [transition_effects]:
  assumes "sandbox_set_as_error b cfg now p st w = Inr w'"
  shows "moved p SANDBOX_ERROR w w' \<and> one_response p w w' \<and>
    (st = SANDBOX_ALLOCATED \<and> runq w' = runq w \<or>
     st = SANDBOX_RUNNING_SYS \<and> local_runqueue_delete cfg (runq w) p = Inr (runq w') \<and>
       sb_memory (sandboxes w' p) = None)"
  using assms
  by (auto simp: sandbox_set_as_error_def Let_def moved_def one_response_def respond_def
      sandbox_free_linear_memory_def dest!: bookkeeping_effects split: sandbox_state.splits option.splits)

lemma current_sandbox_set_effects:
  assumes "current_sandbox_set sp w = Inr w'"
  shows "sandboxes w' = sandboxes w \<and> runq w' = runq w \<and> calls w' = calls w \<and> current w' = sp"
  using assms by (auto simp: current_sandbox_set_def split: option.splits if_splits)

lemma api_effects [transition_effects]:
  "sandbox_return b now p w = Inr w' \<Longrightarrow> state_of w p = SANDBOX_RUNNING_SYS \<and>
     moved p SANDBOX_RUNNING_USER w w' \<and> no_response p w w' \<and> runq w' = runq w"
  "sandbox_syscall b now p w = Inr w' \<Longrightarrow> state_of w p = SANDBOX_RUNNING_USER \<and>
     moved p SANDBOX_RUNNING_SYS w w' \<and> no_response p w w' \<and> runq w' = runq w"
  "sandbox_interrupt b now p w = Inr w' \<Longrightarrow>
     moved p SANDBOX_INTERRUPTED w w' \<and> no_response p w w' \<and> runq w' = runq w"
  "sandbox_preempt b now p w = Inr w' \<Longrightarrow> state_of w p = SANDBOX_INTERRUPTED \<and>
     moved p SANDBOX_PREEMPTED w w' \<and> no_response p w w' \<and> runq w' = runq w"
  "sandbox_sleep b cfg now p w = Inr w' \<Longrightarrow> state_of w p = SANDBOX_RUNNING_SYS \<and>
     moved p SANDBOX_ASLEEP w w' \<and> no_response p w w' \<and> local_runqueue_delete cfg (runq w) p = Inr (runq w')"
  "sandbox_wakeup b cfg now p w = Inr w' \<Longrightarrow> state_of w p = SANDBOX_ASLEEP \<and>
     moved p SANDBOX_RUNNABLE w w' \<and> no_response p w w' \<and> local_runqueue_add cfg (runq w) p = Inr (runq w')"
  "sandbox_exit_success b now p w = Inr w' \<Longrightarrow> state_of w p = SANDBOX_RETURNED \<and>
     moved p SANDBOX_COMPLETE w w' \<and> no_response p w w' \<and> runq w' = runq w"
  "sandbox_exit_error b cfg now p w = Inr w' \<Longrightarrow> state_of w p = SANDBOX_RUNNING_SYS \<and>
     moved p SANDBOX_ERROR w w' \<and> one_response p w w' \<and> local_runqueue_delete cfg (runq w) p = Inr (runq w')"
proof -
  have sched: "moved p st w (sandbox_process_scheduler_updates p v) = moved p st w v"
    "no_response p w (sandbox_process_scheduler_updates p v) = no_response p w v"
    "one_response p w (sandbox_process_scheduler_updates p v) = one_response p w v" for st and v :: "'a worker"
    by (simp_all add: moved_def no_response_def one_response_def)
  show "sandbox_return b now p w = Inr w' \<Longrightarrow> state_of w p = SANDBOX_RUNNING_SYS \<and>
     moved p SANDBOX_RUNNING_USER w w' \<and> no_response p w w' \<and> runq w' = runq w"
    by (auto simp: sandbox_return_def dest: transition_effects)
  show "sandbox_syscall b now p w = Inr w' \<Longrightarrow> state_of w p = SANDBOX_RUNNING_USER \<and>
     moved p SANDBOX_RUNNING_SYS w w' \<and> no_response p w w' \<and> runq w' = runq w"
    by (auto simp: sandbox_syscall_def sched dest: transition_effects)
  show "sandbox_interrupt b now p w = Inr w' \<Longrightarrow>
     moved p SANDBOX_INTERRUPTED w w' \<and> no_response p w w' \<and> runq w' = runq w"
    by (auto simp: sandbox_interrupt_def sched dest: transition_effects)
  show "sandbox_preempt b now p w = Inr w' \<Longrightarrow> state_of w p = SANDBOX_INTERRUPTED \<and>
     moved p SANDBOX_PREEMPTED w w' \<and> no_response p w w' \<and> runq w' = runq w"
    by (auto simp: sandbox_preempt_def dest: transition_effects)
  show "sandbox_sleep b cfg now p w = Inr w' \<Longrightarrow> state_of w p = SANDBOX_RUNNING_SYS \<and>
     moved p SANDBOX_ASLEEP w w' \<and> no_response p w w' \<and> local_runqueue_delete cfg (runq w) p = Inr (runq w')"
    by (auto simp: sandbox_sleep_def dest: transition_effects)
  show "sandbox_wakeup b cfg now p w = Inr w' \<Longrightarrow> state_of w p = SANDBOX_ASLEEP \<and>
     moved p SANDBOX_RUNNABLE w w' \<and> no_response p w w' \<and> local_runqueue_add cfg (runq w) p = Inr (runq w')"
    by (auto simp: sandbox_wakeup_def dest: transition_effects)
  show "sandbox_exit_success b now p w = Inr w' \<Longrightarrow> state_of w p = SANDBOX_RETURNED \<and>
     moved p SANDBOX_COMPLETE w w' \<and> no_response p w w' \<and> runq w' = runq w"
    by (auto simp: sandbox_exit_success_def dest: transition_effects)
  show "sandbox_exit_error b cfg now p w = Inr w' \<Longrightarrow> state_of w p = SANDBOX_RUNNING_SYS \<and>
     moved p SANDBOX_ERROR w w' \<and> one_response p w w' \<and> local_runqueue_delete cfg (runq w) p = Inr (runq w')"
    by (auto simp: sandbox_exit_error_def sched dest: transition_effects)
qed

lemma effects_cong:
  assumes "sandboxes w1 = sandboxes w" "calls w1 = calls w"
  shows "moved p st w1 w' = moved p st w w'" "no_response p w1 w' = no_response p w w'"
  using assms by (simp_all add: moved_def no_response_def)

lemmas machine_step_defs = machine_step_def legal_transition_def queued_state_def

lemma sandbox_step_machine:
  assumes "sandbox_step b cfg w w'"
  shows "(sandboxes w' = sandboxes w \<and> runq w' = runq w \<and> calls w' = calls w) \<or> (\<exists>p st. machine_step cfg p st w w')"
  using assms
proof cases
  case (step_dispatch p w1 now)
  then have "machine_step cfg p SANDBOX_RUNNING_SYS w w'"
    using current_sandbox_set_effects [OF step_dispatch(2)] set_as_running_sys_effects [OF step_dispatch(3)]
      effects_cong [of w1 w]
    by (simp add: machine_step_defs)
  then show ?thesis by blast
next
  case (step_resume p w1 now)
  then have "machine_step cfg p SANDBOX_RUNNING_USER w w'"
    using current_sandbox_set_effects [OF step_resume(2)] set_as_running_user_effects [OF step_resume(3)]
      effects_cong [of w1 w]
    by (simp add: machine_step_defs)
  then show ?thesis by blast
next
  case step_leave
  then show ?thesis using current_sandbox_set_effects by blast
next
  case (step_runnable p now)
  have "machine_step cfg p SANDBOX_RUNNABLE w w'" using set_as_runnable_effects [OF step_runnable(2)] step_runnable(1) by (simp add: machine_step_defs)
  then show ?thesis by blast
next
  case (step_return now p)
  have "machine_step cfg p SANDBOX_RUNNING_USER w w'" using api_effects(1) [OF step_return] by (simp add: machine_step_defs)
  then show ?thesis by blast
next
  case (step_syscall now p)
  have "machine_step cfg p SANDBOX_RUNNING_SYS w w'" using api_effects(2) [OF step_syscall] by (simp add: machine_step_defs)
  then show ?thesis by blast
next
  case (step_interrupt p now)
  have "machine_step cfg p SANDBOX_INTERRUPTED w w'" using api_effects(3) [OF step_interrupt(2)] step_interrupt(1) by (simp add: machine_step_defs)
  then show ?thesis by blast
next
  case (step_interrupt_return p now)
  have "machine_step cfg p SANDBOX_RUNNING_USER w w'" using interrupt_return_effects [OF step_interrupt_return(2)] step_interrupt_return(1) by (simp add: machine_step_defs)
  then show ?thesis by blast
next
  case (step_preempt now p)
  have "machine_step cfg p SANDBOX_PREEMPTED w w'" using api_effects(4) [OF step_preempt] by (simp add: machine_step_defs)
  then show ?thesis by blast
next
  case (step_sleep now p)
  have "machine_step cfg p SANDBOX_ASLEEP w w'" using api_effects(5) [OF step_sleep] by (simp add: machine_step_defs)
  then show ?thesis by blast
next
  case (step_wakeup now p)
  have "machine_step cfg p SANDBOX_RUNNABLE w w'" using api_effects(6) [OF step_wakeup] by (simp add: machine_step_defs)
  then show ?thesis by blast
next
  case (step_returned p now)
  have "machine_step cfg p SANDBOX_RETURNED w w'" using set_as_returned_effects [OF step_returned(2)] step_returned(1) by (simp add: machine_step_defs)
  then show ?thesis by blast
next
  case (step_exit_success now p)
  have "machine_step cfg p SANDBOX_COMPLETE w w'" using api_effects(7) [OF step_exit_success] by (simp add: machine_step_defs)
  then show ?thesis by blast
next
  case (step_exit_error now p)
  have "machine_step cfg p SANDBOX_ERROR w w'" using api_effects(8) [OF step_exit_error] by (simp add: machine_step_defs)
  then show ?thesis by blast
qed

subsection \<open>Invariants of the steps\<close>

lemma step_time: "\<lbrakk>sandbox_step b cfg w w'; \<forall>p. time_accounted (sandboxes w p)\<rbrakk> \<Longrightarrow> \<forall>p. time_accounted (sandboxes w' p)"
  using sandbox_step_machine [of b cfg w w'] unfolding machine_step_def moved_def by metis

lemma steps_time:
  "\<lbrakk>(sandbox_step b cfg)\<^sup>*\<^sup>* w w'; \<forall>p. time_accounted (sandboxes w p)\<rbrakk> \<Longrightarrow> \<forall>p. time_accounted (sandboxes w' p)"
  by (induction rule: rtranclp_induct) (auto dest: step_time)

lemma machine_step_answered:
  assumes "machine_step cfg p st w w'"
  shows "if st \<in> {SANDBOX_RETURNED, SANDBOX_ERROR} then answered st \<and> \<not> answered (state_of w p)
    else answered st = answered (state_of w p)"
  using assms unfolding machine_step_def legal_transition_def answered_def by auto

lemma machine_step_session:
  assumes m: "machine_step cfg p' st w w'" and inv: "session_inv p h w"
  shows "session_inv p h w'"
proof -
  have mv: "\<And>q. q \<noteq> p' \<Longrightarrow> sandboxes w' q = sandboxes w q" "state_of w' p' = st"
    using m by (simp_all add: machine_step_def moved_def)
  note ans = machine_step_answered [OF m]
  show ?thesis
  proof (cases "st \<in> {SANDBOX_RETURNED, SANDBOX_ERROR}")
    case True
    then have "one_response p' w w'" using m by (simp add: machine_step_def)
    then obtain s where s: "sb_http (sandboxes w p') = Some s" "sb_http (sandboxes w' p') = None"
      "\<And>h. responses_to h (calls w') = responses_to h (calls w) + (if h = s then 1 else 0)"
      unfolding one_response_def by blast
    have a: "answered st" "\<not> answered (state_of w p')" using ans True by auto
    show ?thesis
    proof (cases "p' = p")
      case True
      then have "s = h" using inv s(1) a(2) by (simp add: session_inv_def)
      then show ?thesis using True inv s a mv by (simp add: session_inv_def)
    next
      case False
      then have "s \<noteq> h" using inv s(1) by (auto simp: session_inv_def)
      moreover have "sb_http (sandboxes w' q) \<noteq> Some h" if "q \<noteq> p" for q
        using that inv s(2) mv(1) [of q] by (cases "q = p'") (auto simp: session_inv_def)
      ultimately show ?thesis using False inv s(3) mv(1) [of p] by (simp add: session_inv_def)
    qed
  next
    case False
    then have n: "sb_http (sandboxes w' p') = sb_http (sandboxes w p')"
      "\<And>h. responses_to h (calls w') = responses_to h (calls w)"
      using m by (simp_all add: machine_step_def no_response_def)
    have a: "answered st = answered (state_of w p')" using ans False by simp
    have "sb_http (sandboxes w' q) = sb_http (sandboxes w q)" for q
      using n(1) mv(1) [of q] by (cases "q = p'") auto
    moreover have "answered (state_of w' p) = answered (state_of w p)"
      using a mv by (cases "p = p'") auto
    ultimately show ?thesis using inv n(2) by (simp add: session_inv_def)
  qed
qed

lemma step_session: "\<lbrakk>sandbox_step b cfg w w'; session_inv p h w\<rbrakk> \<Longrightarrow> session_inv p h w'"
  using sandbox_step_machine [of b cfg w w'] machine_step_session [of cfg _ _ w w' p h]
  by (auto simp: session_inv_def)

lemma steps_session: "\<lbrakk>(sandbox_step b cfg)\<^sup>*\<^sup>* w w'; session_inv p h w\<rbrakk> \<Longrightarrow> session_inv p h w'"
  by (induction rule: rtranclp_induct) (auto intro: step_session)

lemma alloc_effects:
  assumes "sandbox_alloc b now now' rd mem md h rt tn e w = Inr (Some p, w')"
  shows "state_of w' p = SANDBOX_INITIALIZED \<and> time_accounted (sandboxes w' p) \<and>
    sb_http (sandboxes w' p) = Some h \<and> absolute_deadline (sandboxes w' p) = now + rd \<and>
    (\<forall>q. q \<noteq> p \<longrightarrow> sandboxes w' q = sandboxes w q) \<and> runq w' = runq w \<and>
    calls w' = calls w @ [Module_Acquire md, Ps_List_Init p]"
  using assms
  by (auto simp: sandbox_alloc_def sandbox_set_as_allocated_def sandbox_init_def sandbox_set_as_initialized_def
      sandbox_total_postfix_increment_def Let_def zero_sandbox_def time_accounted_def
      sum_states_update [of "\<lambda>_. 0", simplified] sandbox_states_def charge_def
      dest!: bookkeeping_effects split: option.splits)

context runqueue
begin

lemma machine_step_matches:
  assumes m: "machine_step cfg p st w w'" and inv: "queue_matches rep valid w"
  shows "queue_matches rep valid w'"
proof -
  obtain A where A: "rep (runq w) A" "\<And>q. count A q = (if queued_state (state_of w q) then 1 else 0)"
    and v: "\<And>q. \<not> valid q \<Longrightarrow> state_of w q = SANDBOX_UNINITIALIZED"
    using inv by (auto simp: queue_matches_def)
  have mv: "\<And>q. q \<noteq> p \<Longrightarrow> sandboxes w' q = sandboxes w q" "state_of w' p = st"
    and lg: "legal_transition (state_of w p) st"
    using m by (auto simp: machine_step_def moved_def)
  have "\<not> legal_transition SANDBOX_UNINITIALIZED st" by (simp add: legal_transition_def)
  then have vp: "valid p" using v [of p] lg by metis
  define A' where "A' = (if queued_state (state_of w p) = queued_state st then A
    else if queued_state st then add_mset p A else A - {#p#})"
  have "rep (runq w') A'"
  proof -
    consider "queued_state (state_of w p) = queued_state st" | "\<not> queued_state (state_of w p)" "queued_state st"
      | "queued_state (state_of w p)" "\<not> queued_state st" by blast
    then show ?thesis
    proof cases
      case 1
      then show ?thesis using m A(1) by (simp add: machine_step_def A'_def)
    next
      case 2
      then have "p \<notin># A" using A(2) [of p] by (simp add: count_eq_zero_iff)
      then show ?thesis using 2 m add_result [OF A(1) _ vp] by (simp add: machine_step_def A'_def)
    next
      case 3
      then have "p \<in># A" using A(2) [of p] by (simp add: count_greater_zero_iff [symmetric])
      then show ?thesis using 3 m delete_result [OF A(1)] by (simp add: machine_step_def A'_def)
    qed
  qed
  moreover have "count A' q = (if queued_state (state_of w' q) then 1 else 0)" for q
    using A(2) [of q] mv by (cases "q = p") (auto simp: A'_def)
  moreover have "state_of w' q = SANDBOX_UNINITIALIZED" if "\<not> valid q" for q
    using that v [of q] vp mv(1) [of q] by metis
  ultimately show ?thesis by (auto simp: queue_matches_def)
qed

lemma steps_matches:
  assumes "(sandbox_step b cfg)\<^sup>*\<^sup>* w w'" "queue_matches rep valid w"
  shows "queue_matches rep valid w'"
  using assms
proof (induction rule: rtranclp_induct)
  case (step u v)
  then have u: "queue_matches rep valid u" by simp
  consider "sandboxes v = sandboxes u" "runq v = runq u" | p st where "machine_step cfg p st u v"
    using sandbox_step_machine [OF step(2)] by blast
  then show ?case
  proof cases
    case 1
    then show ?thesis using u by (simp add: queue_matches_def)
  qed (rule machine_step_matches [OF _ u])
qed

end

subsection \<open>Properties\<close>


lemma idle_alloc:
  "\<exists>w0. sandbox_alloc default_build 5 9 100 (Some 1) 2 3 4 6 8 (idle_worker q) = Inr (Some 1, w0)"
  by (simp add: sandbox_alloc_def sandbox_set_as_allocated_def sandbox_init_def sandbox_set_as_initialized_def
      sandbox_total_postfix_increment_def idle_worker_def zero_sandbox_def default_build_def
      state_change_bookkeeping_def sandbox_state_totals_increment_def sandbox_state_totals_decrement_def
      Let_def set_state_def upd_sandbox_def call_out_def)

lemma idle_time: "\<forall>p. time_accounted (sandboxes (idle_worker q) p)"
  by (simp add: idle_worker_def zero_sandbox_def time_accounted_def sandbox_states_def)


text \<open>
  Claim C9: with the min-heap run queue, whatever sequence of transitions a worker makes, its run queue
  contains exactly the sandboxes that are runnable, preempted, running or interrupted, once each.
\<close>

theorem minheap_runqueue_membership:
  assumes "(sandbox_step b (minheap_config fresh dl))\<^sup>*\<^sup>* w w'" and "queue_matches (minheap_rep dl) (\<lambda>_. True) w"
  shows "queue_matches (minheap_rep dl) (\<lambda>_. True) w'"
  by (rule minheap_rq.steps_matches [OF assms])

theorem minheap_runqueue_membership_witness:
  "queue_matches (minheap_rep (\<lambda>p. of_nat p)) (\<lambda>_. True) (idle_worker (priority_queue_initialize 4 False))"
proof (rule minheap_runqueue_membership [OF rtranclp.rtrancl_refl])
  have "minheap_rep (\<lambda>p. of_nat p) (priority_queue_initialize 4 False) {#}"
    unfolding minheap_rep_def initialize_inv(2) using initialize_inv(1) [of "\<lambda>p. of_nat p" 4 False]
    by (auto simp: pq_inv_def lock_ok_def priority_queue_initialize_def)
  then show "queue_matches (minheap_rep (\<lambda>p. of_nat p)) (\<lambda>_. True) (idle_worker (priority_queue_initialize 4 False))"
    by (auto simp: queue_matches_def idle_worker_def zero_sandbox_def queued_state_def intro!: exI [of _ "{#}"])
qed

text \<open>
  The same for the list run queue of the FIFO scheduler, whose head node at address \<open>h\<close> is not a
  sandbox: the ring stays well linked and contains exactly the sandboxes in the queued states.
\<close>

theorem list_runqueue_membership:
  assumes "(sandbox_step b list_config)\<^sup>*\<^sup>* w w'"
    and "queue_matches (\<lambda>q A. lhead q = h \<and> (\<exists>xs. list_rep q xs \<and> mset xs = A)) (\<lambda>p. p \<noteq> h) w"
  shows "queue_matches (\<lambda>q A. lhead q = h \<and> (\<exists>xs. list_rep q xs \<and> mset xs = A)) (\<lambda>p. p \<noteq> h) w'"
  by (rule list_rq.steps_matches [OF assms])





end
