(* ===== verification/Deque.thy ===== *)
theory Deque
  imports Sledge_Prelude
begin

text \<open>
  The work-stealing deque of runtime/include/deque.h. Its indices are C \<open>long\<close>s and only grow, so they
  are integers here. The array \<open>wrk\<close> has \<open>DEQUE_MAX_SZ\<close> cells and is indexed without a modulus; an
  index outside it is the result \<^const>\<open>Out_Of_Bounds\<close>. The first part has the operations as a thread
  runs them alone; the second one has the single accesses to the shared deque of a thread that
  pushes (the listener) and of any number of threads that steal (the workers), interleaved.
\<close>

definition DEQUE_MAX_SZ :: int where
  "DEQUE_MAX_SZ = 2 ^ 23"

record 'a deque =
  wrk :: "int \<Rightarrow> 'a option"
  dq_size :: int
  dq_top :: int
  dq_bottom :: int

definition deque_init :: "int \<Rightarrow> 'a deque res" where
  "deque_init sz =
     (if sz \<noteq> 0
      then assertc (sz \<le> DEQUE_MAX_SZ) (Inr \<lparr>wrk = (\<lambda>_. None), dq_size = sz, dq_top = 0, dq_bottom = 0\<rparr>)
      else Inr \<lparr>wrk = (\<lambda>_. None), dq_size = DEQUE_MAX_SZ, dq_top = 0, dq_bottom = 0\<rparr>)"

definition in_wrk :: "int \<Rightarrow> bool" where
  "in_wrk i \<longleftrightarrow> 0 \<le> i \<and> i < DEQUE_MAX_SZ"

definition deque_push :: "'a deque \<Rightarrow> 'a option \<Rightarrow> (int \<times> 'a deque) res" where
  "deque_push q w =
     (let ct = dq_top q; cb = dq_bottom q
      in if dq_size q - 1 < cb - ct then Inr (- ENOSPC, q)
         else if in_wrk cb then Inr (0, q\<lparr>wrk := (wrk q)(cb := w), dq_bottom := cb + 1\<rparr>)
         else Inl Out_Of_Bounds)"

definition deque_pop :: "'a deque \<Rightarrow> (int \<times> 'a option \<times> 'a deque) res" where
  "deque_pop q =
     (let cb = dq_bottom q - 1; q1 = q\<lparr>dq_bottom := cb\<rparr>; ct = dq_top q1; sz = cb - ct
      in if sz < 0 then Inr (- ENOENT, None, q1\<lparr>dq_bottom := ct\<rparr>)
         else if in_wrk cb
         then if sz > 0 then Inr (0, wrk q1 cb, q1)
              else Inr (0, wrk q1 cb, q1\<lparr>dq_top := ct + 1, dq_bottom := ct + 1\<rparr>)
         else Inl Out_Of_Bounds)"

definition deque_steal :: "'a deque \<Rightarrow> (int \<times> 'a option \<times> 'a deque) res" where
  "deque_steal q =
     (let ct = dq_top q; cb = dq_bottom q
      in if ct \<ge> cb then Inr (- ENOENT, None, q)
         else if in_wrk ct then Inr (0, wrk q ct, q\<lparr>dq_top := ct + 1\<rparr>)
         else Inl Out_Of_Bounds)"

subsection \<open>One pusher and many stealers, interleaved\<close>

text \<open>
  The program points of the two operations between their accesses to the shared deque, with the
  local variables that are live there, in the order in which the code makes the accesses. The log
  of completed pushes and of completed steals is history that the code does not keep.
\<close>

datatype 'a push_pc = Push_Idle | Push_Read_Top 'a int | Push_Checked 'a int | Push_Written 'a int

datatype 'a steal_pc = Steal_Idle | Steal_Read_Top int | Steal_Checked int | Steal_Read_Wrk int "'a option"

record 'a shared =
  dq :: "'a deque"
  pusher :: "'a push_pc"
  thief :: "nat \<Rightarrow> 'a steal_pc"
  pushed :: "'a list"
  stolen :: "(nat \<times> 'a option) list"

inductive dq_step :: "'a shared \<Rightarrow> 'a shared \<Rightarrow> bool" where
  push_top: "pusher s = Push_Idle \<Longrightarrow> dq_step s (s\<lparr>pusher := Push_Read_Top w (dq_top (dq s))\<rparr>)"
| push_full: "\<lbrakk>pusher s = Push_Read_Top w ct; dq_size (dq s) - 1 < dq_bottom (dq s) - ct\<rbrakk> \<Longrightarrow>
    dq_step s (s\<lparr>pusher := Push_Idle\<rparr>)"
| push_check: "\<lbrakk>pusher s = Push_Read_Top w ct; \<not> dq_size (dq s) - 1 < dq_bottom (dq s) - ct\<rbrakk> \<Longrightarrow>
    dq_step s (s\<lparr>pusher := Push_Checked w (dq_bottom (dq s))\<rparr>)"
| push_write: "\<lbrakk>pusher s = Push_Checked w cb; in_wrk cb\<rbrakk> \<Longrightarrow>
    dq_step s (s\<lparr>pusher := Push_Written w cb, dq := (dq s)\<lparr>wrk := (wrk (dq s))(cb := Some w)\<rparr>\<rparr>)"
| push_cas: "\<lbrakk>pusher s = Push_Written w cb; dq_bottom (dq s) = cb\<rbrakk> \<Longrightarrow>
    dq_step s (s\<lparr>pusher := Push_Idle, dq := (dq s)\<lparr>dq_bottom := cb + 1\<rparr>, pushed := pushed s @ [w]\<rparr>)"
| steal_top: "thief s i = Steal_Idle \<Longrightarrow>
    dq_step s (s\<lparr>thief := (thief s)(i := Steal_Read_Top (dq_top (dq s)))\<rparr>)"
| steal_empty: "\<lbrakk>thief s i = Steal_Read_Top ct; ct \<ge> dq_bottom (dq s)\<rbrakk> \<Longrightarrow>
    dq_step s (s\<lparr>thief := (thief s)(i := Steal_Idle)\<rparr>)"
| steal_check: "\<lbrakk>thief s i = Steal_Read_Top ct; \<not> ct \<ge> dq_bottom (dq s)\<rbrakk> \<Longrightarrow>
    dq_step s (s\<lparr>thief := (thief s)(i := Steal_Checked ct)\<rparr>)"
| steal_read: "\<lbrakk>thief s i = Steal_Checked ct; in_wrk ct\<rbrakk> \<Longrightarrow>
    dq_step s (s\<lparr>thief := (thief s)(i := Steal_Read_Wrk ct (wrk (dq s) ct))\<rparr>)"
| steal_again: "\<lbrakk>thief s i = Steal_Read_Wrk ct x; dq_top (dq s) \<noteq> ct\<rbrakk> \<Longrightarrow>
    dq_step s (s\<lparr>thief := (thief s)(i := Steal_Idle)\<rparr>)"
| steal_cas: "\<lbrakk>thief s i = Steal_Read_Wrk ct x; dq_top (dq s) = ct\<rbrakk> \<Longrightarrow>
    dq_step s (s\<lparr>thief := (thief s)(i := Steal_Idle), dq := (dq s)\<lparr>dq_top := ct + 1\<rparr>,
                 stolen := stolen s @ [(i, x)]\<rparr>)"

definition shared_init :: "'a deque \<Rightarrow> 'a shared" where
  "shared_init q = \<lparr>dq = q, pusher = Push_Idle, thief = (\<lambda>_. Steal_Idle), pushed = [], stolen = []\<rparr>"

text \<open>What holds of the shared deque and of the local variables at every moment.\<close>

fun push_ok :: "'a deque \<Rightarrow> 'a push_pc \<Rightarrow> bool" where
  "push_ok q (Push_Checked w cb) \<longleftrightarrow> cb = dq_bottom q"
| "push_ok q (Push_Written w cb) \<longleftrightarrow> cb = dq_bottom q \<and> wrk q cb = Some w"
| "push_ok q _ \<longleftrightarrow> True"

fun thief_ok :: "int \<Rightarrow> 'a list \<Rightarrow> 'a steal_pc \<Rightarrow> bool" where
  "thief_ok t ps Steal_Idle \<longleftrightarrow> True"
| "thief_ok t ps (Steal_Read_Top ct) \<longleftrightarrow> 0 \<le> ct \<and> ct \<le> t"
| "thief_ok t ps (Steal_Checked ct) \<longleftrightarrow> 0 \<le> ct \<and> ct \<le> t \<and> ct < int (length ps)"
| "thief_ok t ps (Steal_Read_Wrk ct x) \<longleftrightarrow>
     0 \<le> ct \<and> ct \<le> t \<and> ct < int (length ps) \<and> x = Some (ps ! nat ct)"

definition dq_inv :: "'a shared \<Rightarrow> bool" where
  "dq_inv s \<longleftrightarrow> 0 \<le> dq_top (dq s) \<and> dq_top (dq s) \<le> dq_bottom (dq s) \<and>
     dq_bottom (dq s) = int (length (pushed s)) \<and>
     (\<forall>k < length (pushed s). wrk (dq s) (int k) = Some (pushed s ! k)) \<and>
     map snd (stolen s) = map Some (take (nat (dq_top (dq s))) (pushed s)) \<and>
     push_ok (dq s) (pusher s) \<and> (\<forall>i. thief_ok (dq_top (dq s)) (pushed s) (thief s i))"

text \<open>A push followed by a steal, \<open>n\<close> times: what the listener and a worker do to a stream of requests.\<close>

fun push_steal_rounds :: "nat \<Rightarrow> 'a \<Rightarrow> 'a deque \<Rightarrow> 'a deque res" where
  "push_steal_rounds 0 x q = Inr q"
| "push_steal_rounds (Suc n) x q =
     bindr (deque_push q (Some x)) (\<lambda>(rc, q1). bindr (deque_steal q1) (\<lambda>(rc', y, q2). push_steal_rounds n x q2))"

definition deque_list :: "'a deque \<Rightarrow> 'a option list" where
  "deque_list q = map (\<lambda>i. wrk q i) [dq_top q..dq_bottom q - 1]"

definition deque_ok :: "'a deque \<Rightarrow> bool" where
  "deque_ok q \<longleftrightarrow> 0 \<le> dq_top q \<and> dq_top q \<le> dq_bottom q \<and> dq_bottom q \<le> DEQUE_MAX_SZ \<and> 0 < dq_size q"

subsection \<open>The operations of a thread that runs alone\<close>

lemma deque_list_empty_iff: "deque_list q = [] \<longleftrightarrow> dq_bottom q \<le> dq_top q"
  by (auto simp: deque_list_def)

lemma deque_list_Cons: "dq_top q < dq_bottom q \<Longrightarrow> deque_list q = wrk q (dq_top q) # deque_list (q\<lparr>dq_top := dq_top q + 1\<rparr>)"
  by (simp add: deque_list_def upto_rec1)

lemma length_deque_list: "dq_top q \<le> dq_bottom q \<Longrightarrow> int (length (deque_list q)) = dq_bottom q - dq_top q"
  by (simp add: deque_list_def)

lemma deque_push_list:
  assumes "deque_ok q" "dq_bottom q - dq_top q < dq_size q" "dq_bottom q < DEQUE_MAX_SZ"
  shows "\<exists>q'. deque_push q w = Inr (0, q') \<and> deque_ok q' \<and> deque_list q' = deque_list q @ [w] \<and>
    dq_size q' = dq_size q \<and> dq_top q' = dq_top q \<and> dq_bottom q' = dq_bottom q + 1"
proof -
  have "[dq_top q..dq_bottom q] = [dq_top q..dq_bottom q - 1] @ [dq_bottom q]"
    using assms by (intro upto_rec2) (simp add: deque_ok_def)
  then show ?thesis
    using assms by (auto simp: deque_push_def Let_def in_wrk_def deque_ok_def deque_list_def)
qed

lemma deque_push_full: "dq_bottom q - dq_top q \<ge> dq_size q \<Longrightarrow> deque_push q w = Inr (- ENOSPC, q)"
  by (simp add: deque_push_def Let_def)

lemma deque_steal_list:
  assumes "deque_ok q"
  shows "case deque_list q of
      [] \<Rightarrow> deque_steal q = Inr (- ENOENT, None, q)
    | x # xs \<Rightarrow> \<exists>q'. deque_steal q = Inr (0, x, q') \<and> deque_ok q' \<and> deque_list q' = xs \<and>
        dq_size q' = dq_size q \<and> dq_top q' = dq_top q + 1 \<and> dq_bottom q' = dq_bottom q"
proof (cases "dq_top q < dq_bottom q")
  case True
  then show ?thesis
    using assms by (auto simp: deque_list_Cons deque_steal_def Let_def in_wrk_def deque_ok_def)
next
  case False
  then show ?thesis using deque_list_empty_iff [of q] by (simp add: deque_steal_def Let_def)
qed

lemma deque_pop_list:
  assumes "deque_ok q"
  shows "if deque_list q = [] then deque_pop q = Inr (- ENOENT, None, q)
    else \<exists>q'. deque_pop q = Inr (0, last (deque_list q), q') \<and> deque_ok q' \<and> deque_list q' = butlast (deque_list q)"
proof (cases "dq_top q < dq_bottom q")
  case True
  then have "[dq_top q..dq_bottom q - 1] = [dq_top q..dq_bottom q - 1 - 1] @ [dq_bottom q - 1]"
    by (intro upto_rec2) simp
  then have l: "deque_list q = map (wrk q) [dq_top q..dq_bottom q - 1 - 1] @ [wrk q (dq_bottom q - 1)]"
    by (simp add: deque_list_def)
  have ne: "deque_list q \<noteq> []" using True by (simp add: deque_list_empty_iff)
  show ?thesis
  proof (cases "dq_bottom q - 1 = dq_top q")
    case single: True
    then show ?thesis
      using True assms l ne by (auto simp: deque_pop_def Let_def in_wrk_def deque_ok_def deque_list_def)
  next
    case False
    then show ?thesis
      using True assms l ne by (auto simp: deque_pop_def Let_def in_wrk_def deque_ok_def deque_list_def)
  qed
next
  case False
  then have "deque_list q = []" "dq_top q = dq_bottom q" using assms by (auto simp: deque_list_empty_iff deque_ok_def)
  then show ?thesis by (simp add: deque_pop_def Let_def)
qed

lemma push_steal_rounds_ok:
  assumes "dq_top q = k" "dq_bottom q = k" "0 \<le> k" "0 < dq_size q" "k + int n \<le> DEQUE_MAX_SZ"
  shows "\<exists>q'. push_steal_rounds n x q = Inr q' \<and> dq_top q' = k + int n \<and> dq_bottom q' = k + int n \<and> dq_size q' = dq_size q"
  using assms
proof (induction n arbitrary: q k)
  case (Suc n)
  define q1 where "q1 = q\<lparr>wrk := (wrk q)(k := Some x), dq_bottom := k + 1\<rparr>"
  have "deque_push q (Some x) = Inr (0, q1)" "deque_steal q1 = Inr (0, Some x, q1\<lparr>dq_top := k + 1\<rparr>)"
    using Suc.prems by (simp_all add: deque_push_def deque_steal_def Let_def in_wrk_def q1_def)
  then show ?case using Suc.IH [of "q1\<lparr>dq_top := k + 1\<rparr>" "k + 1"] Suc.prems by (auto simp: q1_def)
qed simp

subsection \<open>The invariant of the interleaved accesses\<close>

lemma shared_init_inv: "\<lbrakk>dq_top q = 0; dq_bottom q = 0\<rbrakk> \<Longrightarrow> dq_inv (shared_init q)"
  by (simp add: dq_inv_def shared_init_def)

lemma thief_ok_mono: "\<lbrakk>thief_ok t ps pc; t \<le> t'\<rbrakk> \<Longrightarrow> thief_ok t' (ps @ xs) pc"
  by (cases pc) (auto simp: nth_append)

lemma thief_ok_append: "thief_ok t ps pc \<Longrightarrow> thief_ok t (ps @ xs) pc"
  using thief_ok_mono [of t ps pc t xs] by simp

lemma thief_ok_top: "thief_ok t ps pc \<Longrightarrow> thief_ok (t + 1) ps pc"
  using thief_ok_mono [of t ps pc "t + 1" "[]"] by simp

lemma thief_ok_read:
  "\<lbrakk>thief_ok t ps (Steal_Checked ct); \<forall>k < length ps. wrk q (int k) = Some (ps ! k)\<rbrakk> \<Longrightarrow>
    thief_ok t ps (Steal_Read_Wrk ct (wrk q ct))"
  by (metis int_nat_eq of_nat_less_iff thief_ok.simps(3,4))

lemma dq_step_inv: "\<lbrakk>dq_step s s'; dq_inv s\<rbrakk> \<Longrightarrow> dq_inv s'"
proof (induction rule: dq_step.induct)
  case (push_cas s w cb)
  then have cb: "cb = int (length (pushed s))" "wrk (dq s) cb = Some w" "nat (dq_top (dq s)) \<le> length (pushed s)"
    by (auto simp: dq_inv_def)
  then show ?case
    using push_cas by (auto simp: dq_inv_def nth_append less_Suc_eq intro: thief_ok_append)
next
  case (steal_read s i ct)
  then show ?case
    using thief_ok_read [of "dq_top (dq s)" "pushed s" ct "dq s"] by (auto simp: dq_inv_def dest: spec [of _ i])
next
  case (steal_cas s i ct x)
  have t: "0 \<le> ct" "ct < int (length (pushed s))" "x = Some (pushed s ! nat ct)" "dq_top (dq s) = ct"
    using steal_cas by (auto simp: dq_inv_def dest!: spec [of _ i])
  then have "take (nat (ct + 1)) (pushed s) = take (nat ct) (pushed s) @ [pushed s ! nat ct]"
    by (simp add: nat_add_distrib take_Suc_conv_app_nth)
  moreover have "push_ok ((dq s)\<lparr>dq_top := ct + 1\<rparr>) (pusher s)"
    using steal_cas by (cases "pusher s") (auto simp: dq_inv_def)
  ultimately show ?case using steal_cas t by (auto simp: dq_inv_def intro: thief_ok_top)
next
  case (steal_check s i ct)
  then show ?case by (auto simp: dq_inv_def dest: spec [of _ i])
qed (auto simp: dq_inv_def)

lemma dq_reachable_inv: "\<lbrakk>dq_step\<^sup>*\<^sup>* s s'; dq_inv s\<rbrakk> \<Longrightarrow> dq_inv s'"
  by (induction rule: rtranclp_induct) (auto intro: dq_step_inv)

subsection \<open>Properties\<close>



text \<open>
  Run by one thread at a time, the deque is a FIFO queue: while it is neither full nor past the
  end of its array a push appends to the list of queued values, and a steal takes the head of that list.
\<close>

lemma deque_push_steal_fifo:
  assumes "deque_ok q" and "dq_bottom q < DEQUE_MAX_SZ"
  shows "(if dq_bottom q - dq_top q < dq_size q
      then \<exists>q'. deque_push q w = Inr (0, q') \<and> deque_ok q' \<and> deque_list q' = deque_list q @ [w]
      else deque_push q w = Inr (- ENOSPC, q)) \<and>
    (case deque_list q of
      [] \<Rightarrow> deque_steal q = Inr (- ENOENT, None, q)
    | x # xs \<Rightarrow> \<exists>q'. deque_steal q = Inr (0, x, q') \<and> deque_ok q' \<and> deque_list q' = xs)"
  using deque_push_list [OF assms(1) _ assms(2), of w] deque_push_full [of q w] deque_steal_list [OF assms(1)]
  by (auto split: list.splits)

text \<open>
  Claim C35: the indices of the deque are never reduced modulo its size, so after \<open>DEQUE_MAX_SZ\<close> pushes that
  were all stolen the deque is empty and still the next push writes outside the array.
\<close>

theorem deque_push_overruns:
  assumes "deque_init sz = Inr q" and "0 < sz"
  shows "\<exists>q'. push_steal_rounds (nat DEQUE_MAX_SZ) x q = Inr q' \<and> deque_list q' = [] \<and>
    deque_push q' (Some y) = Inl Out_Of_Bounds"
proof -
  have q: "dq_top q = 0" "dq_bottom q = 0" "0 < dq_size q"
    using assms by (auto simp: deque_init_def split: if_splits)
  obtain q' where q': "push_steal_rounds (nat DEQUE_MAX_SZ) x q = Inr q'" "dq_top q' = DEQUE_MAX_SZ"
    "dq_bottom q' = DEQUE_MAX_SZ" "dq_size q' = dq_size q"
    using push_steal_rounds_ok [OF q(1,2) order_refl q(3), of "nat DEQUE_MAX_SZ" x] by (auto simp: DEQUE_MAX_SZ_def)
  then show ?thesis using q by (simp add: deque_list_empty_iff deque_push_def Let_def in_wrk_def)
qed

theorem deque_push_overruns_witness:
  "\<exists>q q'. deque_init 524288 = Inr q \<and> push_steal_rounds (nat DEQUE_MAX_SZ) (1 :: nat) q = Inr q' \<and>
     deque_list q' = [] \<and> deque_push q' (Some 2) = Inl Out_Of_Bounds"
proof -
  obtain q :: "nat deque" where q: "deque_init 524288 = Inr q" by (simp add: deque_init_def DEQUE_MAX_SZ_def)
  from deque_push_overruns [OF q, of 1 2] q show ?thesis by auto
qed

end
