(* ===== verification/Global_Request_Scheduler.thy ===== *)
theory Global_Request_Scheduler
  imports Deque Local_Runqueue
begin

text \<open>
  The queue of requests between the listener and the workers: the polymorphic interface of
  runtime/src/global_request_scheduler.c and its variants global_request_scheduler_deque.c (first in,
  first out) and global_request_scheduler_minheap.c (earliest deadline first). The argument \<open>lt\<close> is
  \<open>listener_thread_is_running()\<close>, \<open>dl\<close> gives the deadline of the sandbox at an address.
\<close>

record 'g global_request_scheduler_config =
  grs_add_fn :: "('g \<Rightarrow> sandbox_ptr \<Rightarrow> (sandbox_ptr option \<times> 'g) res) option"
  grs_remove_fn :: "('g \<Rightarrow> (int \<times> sandbox_ptr option \<times> 'g) res) option"
  grs_remove_if_earlier_fn :: "('g \<Rightarrow> u64 \<Rightarrow> (int \<times> sandbox_ptr option \<times> 'g) res) option"
  grs_peek_fn :: "('g \<Rightarrow> u64 res) option"

definition uninitialized_scheduler :: "'g global_request_scheduler_config" where
  "uninitialized_scheduler = \<lparr>grs_add_fn = Some (\<lambda>g p. Inl Panic), grs_remove_fn = Some (\<lambda>g. Inl Panic),
     grs_remove_if_earlier_fn = None, grs_peek_fn = Some (\<lambda>g. Inl Panic)\<rparr>"

definition global_request_scheduler_add ::
  "'g global_request_scheduler_config \<Rightarrow> 'g \<Rightarrow> sandbox_ptr \<Rightarrow> (sandbox_ptr option \<times> 'g) res" where
  "global_request_scheduler_add c g p =
     (case grs_add_fn c of None \<Rightarrow> Inl Null_Dereference | Some f \<Rightarrow> f g p)"

definition global_request_scheduler_remove ::
  "'g global_request_scheduler_config \<Rightarrow> 'g \<Rightarrow> (int \<times> sandbox_ptr option \<times> 'g) res" where
  "global_request_scheduler_remove c g =
     (case grs_remove_fn c of None \<Rightarrow> Inl Null_Dereference | Some f \<Rightarrow> f g)"

definition global_request_scheduler_remove_if_earlier ::
  "'g global_request_scheduler_config \<Rightarrow> 'g \<Rightarrow> u64 \<Rightarrow> (int \<times> sandbox_ptr option \<times> 'g) res" where
  "global_request_scheduler_remove_if_earlier c g target_deadline =
     (case grs_remove_if_earlier_fn c of None \<Rightarrow> Inl Null_Dereference | Some f \<Rightarrow> f g target_deadline)"

definition global_request_scheduler_peek :: "'g global_request_scheduler_config \<Rightarrow> 'g \<Rightarrow> u64 res" where
  "global_request_scheduler_peek c g =
     (case grs_peek_fn c of None \<Rightarrow> Inl Null_Dereference | Some f \<Rightarrow> f g)"

subsection \<open>global_request_scheduler_deque.c\<close>

definition GLOBAL_REQUEST_SCHEDULER_DEQUE_CAPACITY :: int where
  "GLOBAL_REQUEST_SCHEDULER_DEQUE_CAPACITY = 2 ^ 19"

definition global_request_scheduler_deque_add ::
  "sandbox_ptr deque \<Rightarrow> sandbox_ptr \<Rightarrow> (sandbox_ptr option \<times> sandbox_ptr deque) res" where
  "global_request_scheduler_deque_add g p =
     bindr (deque_push g (Some p)) (\<lambda>(rc, g'). Inr (if rc \<noteq> 0 then None else Some p, g'))"

definition global_request_scheduler_deque_remove ::
  "sandbox_ptr deque \<Rightarrow> (int \<times> sandbox_ptr option \<times> sandbox_ptr deque) res" where
  "global_request_scheduler_deque_remove g = deque_steal g"

definition global_request_scheduler_deque_remove_if_earlier ::
  "sandbox_ptr deque \<Rightarrow> u64 \<Rightarrow> (int \<times> sandbox_ptr option \<times> sandbox_ptr deque) res" where
  "global_request_scheduler_deque_remove_if_earlier g target_deadline = Inl Panic"

definition deque_scheduler_config :: "sandbox_ptr deque global_request_scheduler_config" where
  "deque_scheduler_config = \<lparr>grs_add_fn = Some global_request_scheduler_deque_add,
     grs_remove_fn = Some global_request_scheduler_deque_remove,
     grs_remove_if_earlier_fn = Some global_request_scheduler_deque_remove_if_earlier, grs_peek_fn = None\<rparr>"

definition global_request_scheduler_deque_initialize ::
  "(sandbox_ptr deque \<times> sandbox_ptr deque global_request_scheduler_config) res" where
  "global_request_scheduler_deque_initialize =
     bindr (deque_init GLOBAL_REQUEST_SCHEDULER_DEQUE_CAPACITY) (\<lambda>q. Inr (q, deque_scheduler_config))"

subsection \<open>global_request_scheduler_minheap.c\<close>

definition global_request_scheduler_minheap_add ::
  "bool \<Rightarrow> (sandbox_ptr \<Rightarrow> u64) \<Rightarrow> sandbox_ptr priority_queue \<Rightarrow> sandbox_ptr \<Rightarrow>
    (sandbox_ptr option \<times> sandbox_ptr priority_queue) res" where
  "global_request_scheduler_minheap_add lt dl g p =
     (if \<not> lt then Inl Panic
      else bindr (priority_queue_enqueue dl g p) (\<lambda>(rc, g'). Inr (if rc \<noteq> 0 then None else Some p, g')))"

definition global_request_scheduler_minheap_remove ::
  "bool \<Rightarrow> (sandbox_ptr \<Rightarrow> u64) \<Rightarrow> sandbox_ptr priority_queue \<Rightarrow>
    (int \<times> sandbox_ptr option \<times> sandbox_ptr priority_queue) res" where
  "global_request_scheduler_minheap_remove lt dl g = priority_queue_dequeue lt dl g"

definition global_request_scheduler_minheap_remove_if_earlier ::
  "bool \<Rightarrow> (sandbox_ptr \<Rightarrow> u64) \<Rightarrow> sandbox_ptr priority_queue \<Rightarrow> u64 \<Rightarrow>
    (int \<times> sandbox_ptr option \<times> sandbox_ptr priority_queue) res" where
  "global_request_scheduler_minheap_remove_if_earlier lt dl g target_deadline =
     priority_queue_dequeue_if_earlier lt dl g target_deadline"

definition global_request_scheduler_minheap_peek :: "sandbox_ptr priority_queue \<Rightarrow> u64" where
  "global_request_scheduler_minheap_peek g = priority_queue_peek g"

definition minheap_scheduler_config ::
  "bool \<Rightarrow> (sandbox_ptr \<Rightarrow> u64) \<Rightarrow> sandbox_ptr priority_queue global_request_scheduler_config" where
  "minheap_scheduler_config lt dl = \<lparr>grs_add_fn = Some (global_request_scheduler_minheap_add lt dl),
     grs_remove_fn = Some (global_request_scheduler_minheap_remove lt dl),
     grs_remove_if_earlier_fn = Some (global_request_scheduler_minheap_remove_if_earlier lt dl),
     grs_peek_fn = Some (\<lambda>g. Inr (global_request_scheduler_minheap_peek g))\<rparr>"

definition global_request_scheduler_minheap_initialize ::
  "bool \<Rightarrow> (sandbox_ptr \<Rightarrow> u64) \<Rightarrow>
    sandbox_ptr priority_queue \<times> sandbox_ptr priority_queue global_request_scheduler_config" where
  "global_request_scheduler_minheap_initialize lt dl =
     (priority_queue_initialize 4096 True, minheap_scheduler_config lt dl)"

text \<open>What a deque of sandboxes holds: its cells between top and bottom, none of them null.\<close>

definition deque_rep :: "sandbox_ptr deque \<Rightarrow> sandbox_ptr multiset \<Rightarrow> bool" where
  "deque_rep g A \<longleftrightarrow> deque_ok g \<and> (\<exists>xs. deque_list g = map Some xs \<and> mset xs = A)"

subsection \<open>The contract of the request queue\<close>

text \<open>
  The listener adds through the configuration \<open>cfg True\<close> and a worker removes through \<open>cfg False\<close>; the
  requests in the queue are a multiset, and every request that was accepted comes out once.
\<close>

locale request_queue =
  fixes rep :: "'g \<Rightarrow> sandbox_ptr multiset \<Rightarrow> bool"
    and ready :: "'g \<Rightarrow> bool"
    and cfg :: "bool \<Rightarrow> 'g global_request_scheduler_config"
  assumes add_law: "\<lbrakk>rep g A; ready g\<rbrakk> \<Longrightarrow> \<exists>r g'. global_request_scheduler_add (cfg True) g p = Inr (r, g') \<and>
        (r = Some p \<and> rep g' (add_mset p A) \<or> r = None \<and> rep g' A)"
    and remove_law: "rep g A \<Longrightarrow> \<exists>rc x g'. global_request_scheduler_remove (cfg False) g = Inr (rc, x, g') \<and>
        (rc = 0 \<and> (\<exists>p. x = Some p \<and> p \<in># A \<and> rep g' (A - {#p#})) \<or> rc < 0 \<and> rep g' A)"
begin

text \<open>An accepted request and the ones that were there before are all that a worker can get.\<close>

lemma add_remove:
  assumes "rep g A" "ready g" "global_request_scheduler_add (cfg True) g p = Inr (Some p, g1)"
    "global_request_scheduler_remove (cfg False) g1 = Inr (0, x, g2)"
  shows "\<exists>q. x = Some q \<and> q \<in># add_mset p A \<and> rep g2 (add_mset p A - {#q#})"
  using add_law [OF assms(1,2), of p] assms(3,4) remove_law [of g1 "add_mset p A"] by fastforce

end

lemma minheap_scheduler_simps [simp]:
  "global_request_scheduler_add (minheap_scheduler_config lt dl) g p = global_request_scheduler_minheap_add lt dl g p"
  "global_request_scheduler_remove (minheap_scheduler_config lt dl) g = global_request_scheduler_minheap_remove lt dl g"
  "global_request_scheduler_remove_if_earlier (minheap_scheduler_config lt dl) g t =
     global_request_scheduler_minheap_remove_if_earlier lt dl g t"
  "global_request_scheduler_peek (minheap_scheduler_config lt dl) g = Inr (highest_priority g)"
  by (simp_all add: minheap_scheduler_config_def global_request_scheduler_add_def global_request_scheduler_remove_def
      global_request_scheduler_remove_if_earlier_def global_request_scheduler_peek_def
      global_request_scheduler_minheap_peek_def priority_queue_peek_def)

lemma deque_scheduler_simps [simp]:
  "global_request_scheduler_add deque_scheduler_config h p = global_request_scheduler_deque_add h p"
  "global_request_scheduler_remove deque_scheduler_config h = global_request_scheduler_deque_remove h"
  by (simp_all add: deque_scheduler_config_def global_request_scheduler_add_def global_request_scheduler_remove_def)

lemma minheap_remove_law:
  assumes "pq_inv dl g"
  shows "\<exists>rc x g'. global_request_scheduler_minheap_remove_if_earlier False dl g t = Inr (rc, x, g') \<and> pq_inv dl g' \<and>
    (rc = 0 \<and> (\<exists>p. x = Some p \<and> p \<in># pq_contents g \<and> dl p = highest_priority g \<and>
        pq_contents g' = pq_contents g - {#p#}) \<and> highest_priority g < t \<or>
     rc = - ENOENT \<and> x = None \<and> pq_contents g' = pq_contents g \<and> t \<le> highest_priority g)"
proof (cases "highest_priority g < t")
  case True
  then show ?thesis using locked_pq.deq_early [OF assms True]
    by (auto simp: global_request_scheduler_minheap_remove_if_earlier_def)
next
  case False
  then have late: "t \<le> highest_priority g" by simp
  then show ?thesis using locked_pq.deq_late [OF assms late]
    by (auto simp: global_request_scheduler_minheap_remove_if_earlier_def)
qed

lemma minheap_add_law:
  assumes "pq_inv dl g"
  shows "\<exists>g'. global_request_scheduler_minheap_add True dl g p =
      Inr (if pq_size g < pq_capacity g then Some p else None, g') \<and> pq_inv dl g' \<and>
    pq_contents g' = (if pq_size g < pq_capacity g then add_mset p (pq_contents g) else pq_contents g)"
proof (cases "pq_size g < pq_capacity g")
  case True
  then obtain g' where "priority_queue_enqueue dl g p = Inr (0, g')" "pq_inv dl g'"
    "pq_contents g' = add_mset p (pq_contents g)"
    using locked_pq.enq_room [OF assms] by blast
  then show ?thesis using True by (simp add: global_request_scheduler_minheap_add_def)
next
  case False
  then obtain g' where g': "priority_queue_enqueue dl g p = Inr (- ENOSPC, g')" "pq_inv dl g'"
    "pq_contents g' = pq_contents g"
    using locked_pq.enq_full [OF assms] by blast
  have "global_request_scheduler_minheap_add True dl g p = Inr (None, g')"
    using g'(1) by (simp add: global_request_scheduler_minheap_add_def ENOSPC_def)
  then show ?thesis using False g' by auto
qed

interpretation minheap_grs: request_queue "\<lambda>g A. pq_inv dl g \<and> pq_contents g = A" "\<lambda>g. True"
  "\<lambda>lt. minheap_scheduler_config lt dl" for dl
proof
  fix g A p
  assume rep: "pq_inv dl g \<and> pq_contents g = A"
  show "\<exists>r g'. global_request_scheduler_add (minheap_scheduler_config True dl) g p = Inr (r, g') \<and>
      (r = Some p \<and> pq_inv dl g' \<and> pq_contents g' = add_mset p A \<or> r = None \<and> pq_inv dl g' \<and> pq_contents g' = A)"
    using minheap_add_law [of dl g p] rep by (cases "pq_size g < pq_capacity g") auto
  show "\<exists>rc x g'. global_request_scheduler_remove (minheap_scheduler_config False dl) g = Inr (rc, x, g') \<and>
      (rc = 0 \<and> (\<exists>p. x = Some p \<and> p \<in># A \<and> pq_inv dl g' \<and> pq_contents g' = A - {#p#}) \<or>
       rc < 0 \<and> pq_inv dl g' \<and> pq_contents g' = A)"
    using minheap_remove_law [of dl g UINT64_MAX] rep
    by (auto simp: global_request_scheduler_minheap_remove_def global_request_scheduler_minheap_remove_if_earlier_def
        priority_queue_dequeue_def ENOENT_def)
qed

interpretation deque_grs: request_queue deque_rep "\<lambda>g. dq_bottom g < DEQUE_MAX_SZ" "\<lambda>lt. deque_scheduler_config"
proof
  fix g A p
  assume "deque_rep g A"
  then obtain xs where g: "deque_ok g" "deque_list g = map Some xs" "mset xs = A" by (auto simp: deque_rep_def)
  show "\<exists>r g'. global_request_scheduler_add deque_scheduler_config g p = Inr (r, g') \<and>
      (r = Some p \<and> deque_rep g' (add_mset p A) \<or> r = None \<and> deque_rep g' A)"
    if room: "dq_bottom g < DEQUE_MAX_SZ"
  proof (cases "dq_bottom g - dq_top g < dq_size g")
    case True
    then obtain g' where "deque_push g (Some p) = Inr (0, g')" "deque_ok g'" "deque_list g' = deque_list g @ [Some p]"
      using deque_push_list [OF g(1) _ room] by blast
    moreover from this have "deque_rep g' (add_mset p A)" using g by (auto simp: deque_rep_def intro!: exI [of _ "xs @ [p]"])
    ultimately show ?thesis by (simp add: global_request_scheduler_deque_add_def)
  next
    case False
    then have "deque_push g (Some p) = Inr (- ENOSPC, g)" by (intro deque_push_full) simp
    then have "global_request_scheduler_deque_add g p = Inr (None, g)"
      by (simp add: global_request_scheduler_deque_add_def ENOSPC_def)
    then show ?thesis using \<open>deque_rep g A\<close> by simp
  qed
  show "\<exists>rc x g'. global_request_scheduler_remove deque_scheduler_config g = Inr (rc, x, g') \<and>
      (rc = 0 \<and> (\<exists>p. x = Some p \<and> p \<in># A \<and> deque_rep g' (A - {#p#})) \<or> rc < 0 \<and> deque_rep g' A)"
  proof (cases xs)
    case Nil
    then show ?thesis using deque_steal_list [OF g(1)] g
      by (auto simp: global_request_scheduler_deque_remove_def deque_rep_def ENOENT_def)
  next
    case (Cons y ys)
    then show ?thesis using deque_steal_list [OF g(1)] g
      by (auto simp: global_request_scheduler_deque_remove_def deque_rep_def intro!: exI [of _ ys])
  qed
qed

subsection \<open>Properties\<close>

text \<open>
  The earliest-deadline request queue between the listener and the workers loses no request and
  duplicates none: what the listener adds to a queue that is not full is in the queue, and a worker
  that asks for a request earlier than a deadline gets the earliest one if that is earlier, and
  otherwise \<open>-ENOENT\<close>.
\<close>

theorem minheap_request_queue_correct:
  assumes "pq_inv dl g"
  shows "(\<exists>g'. global_request_scheduler_add (minheap_scheduler_config True dl) g p =
        Inr (if pq_size g < pq_capacity g then Some p else None, g') \<and> pq_inv dl g' \<and>
      pq_contents g' = (if pq_size g < pq_capacity g then add_mset p (pq_contents g) else pq_contents g)) \<and>
    (\<exists>rc x g'. global_request_scheduler_remove_if_earlier (minheap_scheduler_config False dl) g t = Inr (rc, x, g') \<and>
      pq_inv dl g' \<and>
      (if \<exists>y\<in>#pq_contents g. dl y < t
       then rc = 0 \<and> (\<exists>q. x = Some q \<and> q \<in># pq_contents g \<and> (\<forall>z\<in>#pq_contents g. dl q \<le> dl z) \<and>
              pq_contents g' = pq_contents g - {#q#})
       else rc = - ENOENT \<and> x = None \<and> pq_contents g' = pq_contents g))"
proof -
  have ex: "(\<exists>y\<in>#pq_contents g. dl y < t) \<longleftrightarrow> highest_priority g < t"
    using locked_pq.peek_less_iff [OF assms] by blast
  show ?thesis
    unfolding ex using minheap_add_law [OF assms, of p] minheap_remove_law [OF assms, of t] locked_pq.peek_le [OF assms]
    by (auto simp: leD)
qed

end
