(* ===== verification/Scheduler.thy ===== *)
theory Scheduler
  imports Sandbox Global_Request_Scheduler
begin

text \<open>
  The scheduler of a worker thread, runtime/include/scheduler.h, for the FIFO and the EDF policies (the
  multi-tenant policy has its own theory): the choice of the next sandbox, the switch in the SIGALRM
  handler, the cooperative switch and the body of the idle loop, with the contexts of
  runtime/include/arch/context.h, the handler of runtime/src/software_interrupt.c, and the exits of
  runtime/src/current_sandbox.c. The machine registers of a context are not modelled, only its variant. The
  write-back of the cached wasm global of the sandbox that is left is recorded as a call.
\<close>

datatype scheduler_policy = SCHEDULER_FIFO | SCHEDULER_EDF | SCHEDULER_MTDS | SCHEDULER_MTDBF

record ('rq, 'g) node =
  wk :: "'rq worker"
  grq :: 'g
  cleanup :: "sandbox_ptr list"
  base_variant :: arch_context_variant
  handler_depth :: nat

text \<open>
  What one pass through the scheduler reads from outside: the clock, four times at most, and the
  results of the allocations for a sandbox that is pulled from the request queue.
\<close>

record readings =
  t_prepare :: u64
  t_runnable :: u64
  t_out :: u64
  t_in :: u64
  allocs :: alloc_results

definition deadline_of :: "'rq worker \<Rightarrow> sandbox_ptr option \<Rightarrow> u64" where
  "deadline_of w sp = (case sp of None \<Rightarrow> UINT64_MAX | Some p \<Rightarrow> absolute_deadline (sandboxes w p))"

definition return_next ::
  "'rq local_runqueue_config \<Rightarrow> ('rq, 'g) node \<Rightarrow> (sandbox_ptr option \<times> ('rq, 'g) node) res" where
  "return_next cfg s = 
     bindr (local_runqueue_get_next cfg (runq (wk s))) (\<lambda>(n, q). Inr (n, s\<lparr>wk := (wk s)\<lparr>runq := q\<rparr>\<rparr>))"

definition scheduler_edf_get_next ::
  "build_flags \<Rightarrow> 'rq local_runqueue_config \<Rightarrow> 'g global_request_scheduler_config \<Rightarrow> readings \<Rightarrow> ('rq, 'g) node \<Rightarrow>
    (sandbox_ptr option \<times> ('rq, 'g) node) res" where
  "scheduler_edf_get_next b cfg gcfg r s =
     bindr (local_runqueue_get_next cfg (runq (wk s))) (\<lambda>(local, q).
     let s = s\<lparr>wk := (wk s)\<lparr>runq := q\<rparr>\<rparr>; local_deadline = deadline_of (wk s) local in
     bindr (global_request_scheduler_peek gcfg (grq s)) (\<lambda>global_deadline.
     if global_deadline < local_deadline
     then bindr (global_request_scheduler_remove_if_earlier gcfg (grq s) local_deadline) (\<lambda>(rc, global, g).
       if rc = 0
       then case global of
              None \<Rightarrow> Inl Assertion_Failure
            | Some p \<Rightarrow>
                assertc (absolute_deadline (sandboxes (wk s) p) < local_deadline)
                (bindr (sandbox_prepare_execution_environment b cfg (t_prepare r) (allocs r) p (wk s)) (\<lambda>(rc', w1).
                 assertc (state_of w1 p = SANDBOX_INITIALIZED)
                 (bindr (sandbox_set_as_runnable b cfg (t_runnable r) p SANDBOX_INITIALIZED w1) (\<lambda>w2.
                  return_next cfg (s\<lparr>wk := w2, grq := g\<rparr>)))))
       else return_next cfg (s\<lparr>grq := g\<rparr>))
     else return_next cfg s))"

definition scheduler_fifo_get_next ::
  "build_flags \<Rightarrow> list_runqueue local_runqueue_config \<Rightarrow> 'g global_request_scheduler_config \<Rightarrow> readings \<Rightarrow>
    (list_runqueue, 'g) node \<Rightarrow> (sandbox_ptr option \<times> (list_runqueue, 'g) node) res" where
  "scheduler_fifo_get_next b cfg gcfg r s =
     bindr (local_runqueue_get_next cfg (runq (wk s))) (\<lambda>(local, q).
     let s = s\<lparr>wk := (wk s)\<lparr>runq := q\<rparr>\<rparr> in
     if local = None
     then bindr (global_request_scheduler_remove gcfg (grq s)) (\<lambda>(rc, global, g).
       if rc < 0 then return_next cfg (s\<lparr>grq := g\<rparr>)
       else case global of
              None \<Rightarrow> Inl Assertion_Failure
            | Some p \<Rightarrow>
                bindr (sandbox_prepare_execution_environment b cfg (t_prepare r) (allocs r) p (wk s)) (\<lambda>(rc', w1).
                bindr (sandbox_set_as_runnable b cfg (t_runnable r) p SANDBOX_INITIALIZED w1) (\<lambda>w2.
                return_next cfg (s\<lparr>wk := w2, grq := g\<rparr>))))
     else if local = current (wk s)
     then bindr (local_runqueue_list_rotate (\<lambda>p. state_of (wk s) p = SANDBOX_INTERRUPTED) (runq (wk s))) (\<lambda>q.
            return_next cfg (s\<lparr>wk := (wk s)\<lparr>runq := q\<rparr>\<rparr>))
     else return_next cfg s)"

subsection \<open>Contexts\<close>

definition set_variant :: "sandbox_ptr \<Rightarrow> arch_context_variant \<Rightarrow> 'rq worker \<Rightarrow> 'rq worker" where
  "set_variant p v w = upd_sandbox p (\<lambda>s. s\<lparr>sb_variant := v\<rparr>) w"

definition arch_context_restore_fast :: "sandbox_ptr \<Rightarrow> 'rq worker \<Rightarrow> 'rq worker res" where
  "arch_context_restore_fast p w =
     assertc (sb_variant (sandboxes w p) = ARCH_CONTEXT_VARIANT_FAST)
       (Inr (set_variant p ARCH_CONTEXT_VARIANT_RUNNING w))"

definition arch_context_restore_slow :: "sandbox_ptr \<Rightarrow> 'rq worker \<Rightarrow> 'rq worker res" where
  "arch_context_restore_slow p w =
     assertc (sb_variant (sandboxes w p) = ARCH_CONTEXT_VARIANT_SLOW)
       (Inr (set_variant p ARCH_CONTEXT_VARIANT_RUNNING w))"

definition arch_context_save_slow :: "sandbox_ptr \<Rightarrow> 'rq worker \<Rightarrow> 'rq worker res" where
  "arch_context_save_slow p w =
     assertc (sb_variant (sandboxes w p) = ARCH_CONTEXT_VARIANT_RUNNING)
       (Inr (set_variant p ARCH_CONTEXT_VARIANT_SLOW w))"

subsection \<open>The switch in the signal handler\<close>

definition scheduler_preemptive_switch_to ::
  "build_flags \<Rightarrow> u64 \<Rightarrow> sandbox_ptr \<Rightarrow> 'rq worker \<Rightarrow> 'rq worker res" where
  "scheduler_preemptive_switch_to b now p w =
     (case sb_variant (sandboxes w p) of
        ARCH_CONTEXT_VARIANT_FAST \<Rightarrow>
          assertc (state_of w p = SANDBOX_RUNNABLE)
            (bindr (arch_context_restore_fast p w) (\<lambda>w1.
             bindr (current_sandbox_set (Some p) w1) (\<lambda>w2.
             sandbox_set_as_running_sys b now p SANDBOX_RUNNABLE w2)))
      | ARCH_CONTEXT_VARIANT_SLOW \<Rightarrow>
          assertc (state_of w p = SANDBOX_PREEMPTED)
            (bindr (arch_context_restore_slow p w) (\<lambda>w1.
             bindr (current_sandbox_set (Some p) w1) (\<lambda>w2.
             sandbox_set_as_running_user b now p SANDBOX_PREEMPTED w2)))
      | _ \<Rightarrow> Inl Panic)"

text \<open>
  \<open>get_next\<close> is the \<open>scheduler_get_next\<close> of the policy and \<open>updates\<close> its
  \<open>scheduler_process_policy_specific_updates_on_interrupts\<close>, which do nothing under FIFO and EDF.
\<close>

definition no_updates :: "('rq, 'g) node \<Rightarrow> ('rq, 'g) node res" where
  "no_updates s = Inr s"

definition scheduler_preemptive_sched ::
  "build_flags \<Rightarrow> (('rq, 'g) node \<Rightarrow> ('rq, 'g) node res) \<Rightarrow> (('rq, 'g) node \<Rightarrow> (sandbox_ptr option \<times> ('rq, 'g) node) res) \<Rightarrow> readings \<Rightarrow> ('rq, 'g) node \<Rightarrow>
    ('rq, 'g) node res" where
  "scheduler_preemptive_sched b updates get_next r s =
     (case current (wk s) of
        None \<Rightarrow> Inl Assertion_Failure
      | Some ip \<Rightarrow>
          assertc (state_of (wk s) ip = SANDBOX_INTERRUPTED)
            (bindr (updates s) (\<lambda>s0.
             bindr (get_next s0) (\<lambda>(next, s1).
             case next of
               None \<Rightarrow> Inl Assertion_Failure
             | Some n \<Rightarrow>
                 if ip = n
                 then bindr (sandbox_interrupt_return b (t_out r) ip SANDBOX_RUNNING_USER (wk s1)) (\<lambda>w. Inr (s1\<lparr>wk := w\<rparr>))
                 else bindr (sandbox_preempt b (t_out r) ip (wk s1)) (\<lambda>w1.
                      bindr (arch_context_save_slow ip (call_out [Globals_Write_Back ip] w1)) (\<lambda>w2.
                      bindr (scheduler_preemptive_switch_to b (t_in r) n w2) (\<lambda>w3. Inr (s1\<lparr>wk := w3\<rparr>))))))))"

subsection \<open>The cooperative switch\<close>

text \<open>
  The context that is left is that of a sandbox, or the base context of the worker. A switch to a
  preempted sandbox raises SIGUSR1, whose handler performs the preemptive switch to it.
\<close>

definition arch_context_switch ::
  "build_flags \<Rightarrow> u64 \<Rightarrow> sandbox_ptr option \<Rightarrow> sandbox_ptr option \<Rightarrow> ('rq, 'g) node \<Rightarrow> ('rq, 'g) node res" where
  "arch_context_switch b now a c s =
     (let variant = (\<lambda>s sp. case sp of None \<Rightarrow> base_variant s | Some p \<Rightarrow> sb_variant (sandboxes (wk s) p));
          set_v = (\<lambda>sp v s. case sp of None \<Rightarrow> s\<lparr>base_variant := v\<rparr> | Some p \<Rightarrow> s\<lparr>wk := set_variant p v (wk s)\<rparr>)
      in assertc (a \<noteq> c)
        (assertc (variant s a = ARCH_CONTEXT_VARIANT_RUNNING)
        (assertc (variant s c = ARCH_CONTEXT_VARIANT_FAST \<or> variant s c = ARCH_CONTEXT_VARIANT_SLOW)
          (let s1 = set_v a ARCH_CONTEXT_VARIANT_FAST s
           in if variant s c = ARCH_CONTEXT_VARIANT_FAST
              then Inr (set_v c ARCH_CONTEXT_VARIANT_RUNNING s1)
              else case current (wk s1) of
                     None \<Rightarrow> Inl Assertion_Failure
                   | Some p \<Rightarrow>
                       assertc (state_of (wk s1) p = SANDBOX_PREEMPTED)
                      (assertc (sb_variant (sandboxes (wk s1) p) = ARCH_CONTEXT_VARIANT_SLOW)
                        (bindr (scheduler_preemptive_switch_to b now p (wk s1)) (\<lambda>w. Inr (s1\<lparr>wk := w\<rparr>))))))))"

definition scheduler_cooperative_switch_to ::
  "build_flags \<Rightarrow> u64 \<Rightarrow> sandbox_ptr option \<Rightarrow> sandbox_ptr \<Rightarrow> ('rq, 'g) node \<Rightarrow> ('rq, 'g) node res" where
  "scheduler_cooperative_switch_to b now a n s =
     assertc (current (wk s) = None)
       (bindr
         (case state_of (wk s) n of
            SANDBOX_RUNNABLE \<Rightarrow>
              assertc (sb_variant (sandboxes (wk s) n) = ARCH_CONTEXT_VARIANT_FAST)
                (bindr (current_sandbox_set (Some n) (wk s)) (\<lambda>w1. sandbox_set_as_running_sys b now n SANDBOX_RUNNABLE w1))
          | SANDBOX_PREEMPTED \<Rightarrow>
              assertc (sb_variant (sandboxes (wk s) n) = ARCH_CONTEXT_VARIANT_SLOW) (current_sandbox_set (Some n) (wk s))
          | _ \<Rightarrow> Inl Panic)
         (\<lambda>w. arch_context_switch b now a (Some n) (s\<lparr>wk := w\<rparr>)))"

definition scheduler_switch_to_base_context ::
  "build_flags \<Rightarrow> u64 \<Rightarrow> sandbox_ptr option \<Rightarrow> ('rq, 'g) node \<Rightarrow> ('rq, 'g) node res" where
  "scheduler_switch_to_base_context b now a s =
     assertc (base_variant s = ARCH_CONTEXT_VARIANT_FAST) (arch_context_switch b now a None s)"

subsection \<open>Cleanup queue, idle loop, exits\<close>

fun local_cleanup_queue_free :: "sandbox_ptr list \<Rightarrow> 'rq worker \<Rightarrow> 'rq worker res" where
  "local_cleanup_queue_free [] w = Inr w"
| "local_cleanup_queue_free (p # ps) w = bindr (sandbox_free p w) (\<lambda>w'. local_cleanup_queue_free ps w')"

definition free_cleanup :: "('rq, 'g) node \<Rightarrow> ('rq, 'g) node res" where
  "free_cleanup s = bindr (local_cleanup_queue_free (cleanup s) (wk s)) (\<lambda>w. Inr (s\<lparr>wk := w, cleanup := []\<rparr>))"

text \<open>One iteration of the loop that the base context runs.\<close>

definition scheduler_idle_iteration ::
  "build_flags \<Rightarrow> (('rq, 'g) node \<Rightarrow> (sandbox_ptr option \<times> ('rq, 'g) node) res) \<Rightarrow> readings \<Rightarrow> ('rq, 'g) node \<Rightarrow>
    ('rq, 'g) node res" where
  "scheduler_idle_iteration b get_next r s =
     assertc (current (wk s) = None) (assertc (deferred_sigalrm (wk s) = 0)
       (bindr (get_next s) (\<lambda>(next, s1).
        bindr (case next of None \<Rightarrow> Inr s1 | Some n \<Rightarrow> scheduler_cooperative_switch_to b (t_in r) None n s1) free_cleanup)))"

definition scheduler_cooperative_sched ::
  "build_flags \<Rightarrow> (('rq, 'g) node \<Rightarrow> (sandbox_ptr option \<times> ('rq, 'g) node) res) \<Rightarrow> readings \<Rightarrow> bool \<Rightarrow> ('rq, 'g) node \<Rightarrow>
    ('rq, 'g) node res" where
  "scheduler_cooperative_sched b get_next r add_to_cleanup_queue s =
     (case current (wk s) of
        None \<Rightarrow> Inl Assertion_Failure
      | Some ep \<Rightarrow>
          bindr (current_sandbox_set None (wk s)) (\<lambda>w1.
          bindr (free_cleanup (s\<lparr>wk := software_interrupt_deferred_sigalrm_clear w1\<rparr>)) (\<lambda>s2.
          bindr (get_next s2) (\<lambda>(next, s3).
          if next = Some ep
          then bindr (sandbox_set_as_running_sys b (t_in r) ep SANDBOX_RUNNABLE (wk s3)) (\<lambda>w4.
               bindr (current_sandbox_set (Some ep) w4) (\<lambda>w5. Inr (s3\<lparr>wk := w5\<rparr>)))
          else let s3' = s3\<lparr>wk := call_out [Globals_Write_Back ep] (wk s3)\<rparr>;
                   s4 = (if add_to_cleanup_queue then s3'\<lparr>cleanup := cleanup s3' @ [ep]\<rparr> else s3')
               in case next of
                    Some n \<Rightarrow> scheduler_cooperative_switch_to b (t_in r) (Some ep) n s4
                  | None \<Rightarrow> scheduler_switch_to_base_context b (t_in r) (Some ep) s4))))"

definition current_sandbox_sleep ::
  "build_flags \<Rightarrow> 'rq local_runqueue_config \<Rightarrow> (('rq, 'g) node \<Rightarrow> (sandbox_ptr option \<times> ('rq, 'g) node) res) \<Rightarrow> readings \<Rightarrow>
    ('rq, 'g) node \<Rightarrow> ('rq, 'g) node res" where
  "current_sandbox_sleep b cfg get_next r s =
     (case current (wk s) of
        None \<Rightarrow> Inl Assertion_Failure
      | Some p \<Rightarrow>
          (case state_of (wk s) p of
             SANDBOX_RUNNING_SYS \<Rightarrow> bindr (sandbox_sleep b cfg (t_out r) p (wk s))
               (\<lambda>w. scheduler_cooperative_sched b get_next r False (s\<lparr>wk := w\<rparr>))
           | _ \<Rightarrow> Inl Panic))"

definition current_sandbox_exit ::
  "build_flags \<Rightarrow> 'rq local_runqueue_config \<Rightarrow> (('rq, 'g) node \<Rightarrow> (sandbox_ptr option \<times> ('rq, 'g) node) res) \<Rightarrow> readings \<Rightarrow>
    ('rq, 'g) node \<Rightarrow> ('rq, 'g) node res" where
  "current_sandbox_exit b cfg get_next r s =
     (case current (wk s) of
        None \<Rightarrow> Inl Assertion_Failure
      | Some p \<Rightarrow>
          bindr (case state_of (wk s) p of
                   SANDBOX_RETURNED \<Rightarrow> sandbox_exit_success b (t_out r) p (wk s)
                 | SANDBOX_RUNNING_SYS \<Rightarrow> sandbox_exit_error b cfg (t_out r) p (wk s)
                 | _ \<Rightarrow> Inl Panic)
            (\<lambda>w. bindr (scheduler_cooperative_sched b get_next r True (s\<lparr>wk := w\<rparr>)) (\<lambda>s'.
              if current (wk s') = Some p then Inl Assertion_Failure else Inr s')))"

text \<open>The end of the entry point of a sandbox, and the landing of a wasm trap; both leave the sandbox.\<close>

definition current_sandbox_fini ::
  "build_flags \<Rightarrow> 'rq local_runqueue_config \<Rightarrow> (('rq, 'g) node \<Rightarrow> (sandbox_ptr option \<times> ('rq, 'g) node) res) \<Rightarrow> readings \<Rightarrow>
    u64 \<Rightarrow> u64 \<Rightarrow> u64 \<Rightarrow> ('rq, 'g) node \<Rightarrow> ('rq, 'g) node res" where
  "current_sandbox_fini b cfg get_next r t_syscall t_completion t_returned s =
     (case current (wk s) of
        None \<Rightarrow> Inl Assertion_Failure
      | Some p \<Rightarrow>
          bindr (sandbox_syscall b t_syscall p (wk s)) (\<lambda>w1.
          let w2 = upd_sandbox p (\<lambda>x. x\<lparr>completion := t_completion, total_time := t_completion - allocation x\<rparr>) w1
          in assertc (state_of w2 p = SANDBOX_RUNNING_SYS)
            (bindr (sandbox_set_as_returned b cfg t_returned p SANDBOX_RUNNING_SYS w2) (\<lambda>w3.
             current_sandbox_exit b cfg get_next r (s\<lparr>wk := w3\<rparr>)))))"

definition current_sandbox_wasm_trap_handler ::
  "build_flags \<Rightarrow> 'rq local_runqueue_config \<Rightarrow> (('rq, 'g) node \<Rightarrow> (sandbox_ptr option \<times> ('rq, 'g) node) res) \<Rightarrow> readings \<Rightarrow>
    u64 \<Rightarrow> ('rq, 'g) node \<Rightarrow> ('rq, 'g) node res" where
  "current_sandbox_wasm_trap_handler b cfg get_next r t_syscall s =
     (case current (wk s) of
        None \<Rightarrow> Inl Null_Dereference
      | Some p \<Rightarrow> bindr (sandbox_syscall b t_syscall p (wk s)) (\<lambda>w1. current_sandbox_exit b cfg get_next r (s\<lparr>wk := w1\<rparr>)))"

subsection \<open>The handler of the signals\<close>

datatype signal = SIGALRM | SIGUSR1 | SIGFPE | SIGSEGV

datatype si_code = SI_KERNEL | SI_TKILL

datatype runtime_sigalrm_handler = RUNTIME_SIGALRM_HANDLER_BROADCAST | RUNTIME_SIGALRM_HANDLER_TRIAGED

text \<open>
  What the handler reads of the process: the policy, the variant of the handler, the index of the worker
  and, for each worker thread, the deadline of the sandbox that it runs.
\<close>

record runtime =
  scheduler :: scheduler_policy
  runtime_preemption_enabled :: bool
  runtime_sigalrm_handler :: runtime_sigalrm_handler
  worker_thread_idx :: nat
  runtime_worker_threads_deadline :: "u64 list"

definition scheduler_worker_would_preempt :: "runtime \<Rightarrow> ('g \<Rightarrow> u64 res) \<Rightarrow> 'g \<Rightarrow> nat \<Rightarrow> bool res" where
  "scheduler_worker_would_preempt rt peek g worker_idx =
     assertc (scheduler rt = SCHEDULER_EDF)
       (bindr (peek g) (\<lambda>global_deadline. Inr (global_deadline < runtime_worker_threads_deadline rt ! worker_idx)))"

fun propagate_loop :: "runtime \<Rightarrow> ('g \<Rightarrow> u64 res) \<Rightarrow> 'g \<Rightarrow> nat list \<Rightarrow> call list res" where
  "propagate_loop rt peek g [] = Inr []"
| "propagate_loop rt peek g (i # is) =
     (if i = worker_thread_idx rt then propagate_loop rt peek g is
      else case runtime_sigalrm_handler rt of
             RUNTIME_SIGALRM_HANDLER_TRIAGED \<Rightarrow>
               bindr (scheduler_worker_would_preempt rt peek g i) (\<lambda>preempt.
               bindr (propagate_loop rt peek g is) (\<lambda>cs. Inr (if preempt then Pthread_Kill_Sigalrm i # cs else cs)))
           | RUNTIME_SIGALRM_HANDLER_BROADCAST \<Rightarrow>
               bindr (propagate_loop rt peek g is) (\<lambda>cs. Inr (Pthread_Kill_Sigalrm i # cs)))"

definition propagate_sigalrm ::
  "runtime \<Rightarrow> ('g \<Rightarrow> u64 res) \<Rightarrow> si_code \<Rightarrow> ('rq, 'g) node \<Rightarrow> ('rq, 'g) node res" where
  "propagate_sigalrm rt peek code s =
     (if code = SI_KERNEL
      then bindr (propagate_loop rt peek (grq s) [0..<length (runtime_worker_threads_deadline rt)]) (\<lambda>cs.
             Inr (s\<lparr>wk := call_out cs (wk s)\<rparr>))
      else Inr s)"

definition worker_thread_is_running_cooperative_scheduler :: "'rq worker \<Rightarrow> bool" where
  "worker_thread_is_running_cooperative_scheduler w \<longleftrightarrow> current w = None"

definition current_sandbox_is_preemptable :: "'rq worker \<Rightarrow> bool" where
  "current_sandbox_is_preemptable w =
     (case current w of None \<Rightarrow> False | Some p \<Rightarrow> state_of w p = SANDBOX_RUNNING_USER)"

text \<open>
  The handler. \<open>promotions\<close> is \<open>global_timeout_queue_process_promotions\<close>, run by the multi-tenant policy
  on a signal from the kernel. Both traps leave through a long jump to the start of the sandbox, which
  the result marks with \<^const>\<open>True\<close>.
\<close>

definition software_interrupt_handle_signals ::
  "build_flags \<Rightarrow> runtime \<Rightarrow> ('g \<Rightarrow> u64 res) \<Rightarrow> (('rq, 'g) node \<Rightarrow> ('rq, 'g) node res) \<Rightarrow> (('rq, 'g) node \<Rightarrow> ('rq, 'g) node res) \<Rightarrow>
    (('rq, 'g) node \<Rightarrow> (sandbox_ptr option \<times> ('rq, 'g) node) res) \<Rightarrow> readings \<Rightarrow> u64 \<Rightarrow> signal \<Rightarrow> si_code \<Rightarrow>
    ('rq, 'g) node \<Rightarrow> (bool \<times> ('rq, 'g) node) res" where
  "software_interrupt_handle_signals b rt peek promotions updates get_next r now signal_type code s =
     assertc (handler_depth s = 0)
       (let s1 = s\<lparr>handler_depth := handler_depth s + 1\<rparr>;
            leave = (\<lambda>m. bindr m (\<lambda>s'. Inr (False, s'\<lparr>handler_depth := handler_depth s' - 1\<rparr>)));
            forward = (\<lambda>s'. bindr (if scheduler rt = SCHEDULER_MTDS \<and> code = SI_KERNEL then promotions s' else Inr s')
                              (propagate_sigalrm rt peek code))
        in case signal_type of
             SIGALRM \<Rightarrow>
               assertc (runtime_preemption_enabled rt)
                 (if worker_thread_is_running_cooperative_scheduler (wk s1) then leave (forward s1)
                  else if current_sandbox_is_preemptable (wk s1)
                  then leave (bindr (sandbox_interrupt b now (the (current (wk s1))) (wk s1)) (\<lambda>w.
                              bindr (forward (s1\<lparr>wk := w\<rparr>)) (scheduler_preemptive_sched b updates get_next r)))
                  else leave (bindr (forward s1) (\<lambda>s2.
                              Inr (s2\<lparr>wk := (wk s2)\<lparr>deferred_sigalrm := deferred_sigalrm (wk s2) + 1\<rparr>\<rparr>))))
           | SIGUSR1 \<Rightarrow>
               assertc (runtime_preemption_enabled rt)
                 (case current (wk s1) of
                    None \<Rightarrow> Inl Assertion_Failure
                  | Some p \<Rightarrow>
                      assertc (state_of (wk s1) p = SANDBOX_PREEMPTED)
                     (assertc (sb_variant (sandboxes (wk s1) p) = ARCH_CONTEXT_VARIANT_SLOW)
                       (leave (bindr (scheduler_preemptive_switch_to b now p (wk s1)) (\<lambda>w. Inr (s1\<lparr>wk := w\<rparr>))))))
           | _ \<Rightarrow>
               if current_sandbox_is_preemptable (wk s1)
               then Inr (True, s1\<lparr>handler_depth := handler_depth s1 - 1\<rparr>) else Inl Panic)"

subsection \<open>What holds of a node that schedules by deadline\<close>

text \<open>
  The run queue holds \<open>A\<close> in heap order, the request queue holds \<open>B\<close>, the deadlines that order them
  are those of the sandboxes, and a queued request is an initialised sandbox with its session that
  is not yet on the run queue.
\<close>

definition edf_node ::
  "(sandbox_ptr \<Rightarrow> u64) \<Rightarrow> (minheap_runqueue, sandbox_ptr priority_queue) node \<Rightarrow> sandbox_ptr multiset \<Rightarrow> sandbox_ptr multiset \<Rightarrow> bool" where
  "edf_node dl s A B \<longleftrightarrow> edf_rep dl (runq (wk s)) A \<and> pq_inv dl (grq s) \<and> pq_contents (grq s) = B \<and>
     (\<forall>p. p \<in># A \<or> p \<in># B \<longrightarrow> absolute_deadline (sandboxes (wk s) p) = dl p) \<and>
     (\<forall>p. count B p \<le> 1) \<and> (\<forall>p. p \<in># B \<longrightarrow> p \<notin># A \<and> state_of (wk s) p = SANDBOX_INITIALIZED \<and> sb_http (sandboxes (wk s) p) \<noteq> None)"

definition allocs_ok :: "alloc_results \<Rightarrow> bool" where
  "allocs_ok r \<longleftrightarrow> 0 \<le> body_rc r \<and> 0 \<le> globals_rc r \<and> memory_res r \<noteq> None \<and> stack_res r \<noteq> None"

text \<open>A queued sandbox that the worker can switch to: its saved context fits its state.\<close>

definition switchable :: "'rq worker \<Rightarrow> sandbox_ptr \<Rightarrow> bool" where
  "switchable w p \<longleftrightarrow> sb_memory (sandboxes w p) \<noteq> None \<and>
     (state_of w p = SANDBOX_RUNNABLE \<and> sb_variant (sandboxes w p) = ARCH_CONTEXT_VARIANT_FAST \<or>
      state_of w p = SANDBOX_PREEMPTED \<and> sb_variant (sandboxes w p) = ARCH_CONTEXT_VARIANT_SLOW)"

text \<open>
  What a switch from \<open>ip\<close> to \<open>p\<close> does to the worker, and what a quantum leaves behind when \<open>p\<close> is chosen
  and \<open>ip\<close> was running.
\<close>

definition switched_worker :: "sandbox_ptr \<Rightarrow> sandbox_ptr \<Rightarrow> 'rq worker \<Rightarrow> 'rq worker \<Rightarrow> bool" where
  "switched_worker ip p w w' \<longleftrightarrow> current w' = Some p \<and> runq w' = runq w \<and>
     state_of w' p \<in> {SANDBOX_RUNNING_SYS, SANDBOX_RUNNING_USER} \<and>
     (p \<noteq> ip \<longrightarrow> state_of w' ip = SANDBOX_PREEMPTED \<and> sb_variant (sandboxes w' ip) = ARCH_CONTEXT_VARIANT_SLOW) \<and>
     (\<forall>x. x \<noteq> p \<longrightarrow> x \<noteq> ip \<longrightarrow> sandboxes w' x = sandboxes w x) \<and>
     (\<forall>x. absolute_deadline (sandboxes w' x) = absolute_deadline (sandboxes w x))"

definition quantum_result ::
  "(sandbox_ptr \<Rightarrow> u64) \<Rightarrow> sandbox_ptr multiset \<Rightarrow> sandbox_ptr \<Rightarrow> (minheap_runqueue, sandbox_ptr priority_queue) node \<Rightarrow> sandbox_ptr \<Rightarrow> bool" where
  "quantum_result dl C ip s p \<longleftrightarrow> current (wk s) = Some p \<and> (\<forall>x\<in>#C. dl p \<le> dl x) \<and>
     state_of (wk s) p \<in> {SANDBOX_RUNNING_SYS, SANDBOX_RUNNING_USER} \<and>
     (p \<noteq> ip \<longrightarrow> state_of (wk s) ip = SANDBOX_PREEMPTED \<and> sb_variant (sandboxes (wk s) ip) = ARCH_CONTEXT_VARIANT_SLOW) \<and>
     handler_depth s = 0 \<and> (\<exists>A B. edf_node dl s A B \<and> A + B = C \<and> p \<in># A)"

abbreviation edf_next where
  "edf_next b fresh dl r \<equiv> scheduler_edf_get_next b (minheap_config fresh dl) (minheap_scheduler_config False dl) r"

text \<open>
  A worker that runs sandbox 1 (deadline 5) while sandbox 2 (deadline 4) waits in the request queue, and a
  set of clock readings and allocation results for one pass of its scheduler.
\<close>

definition sample_deadline :: "sandbox_ptr \<Rightarrow> u64" where
  "sample_deadline p = (if p = 1 then 5 else 4)"

definition sample_queue :: "bool \<Rightarrow> sandbox_ptr \<Rightarrow> sandbox_ptr priority_queue" where
  "sample_queue ul p = \<lparr>use_lock = ul, locked = False, highest_priority = sample_deadline p, pq_size = 1, pq_capacity = 3,
     pq_items = [None, Some p, None, None]\<rparr>"

definition sample_node :: "sandbox_state \<Rightarrow> (minheap_runqueue, sandbox_ptr priority_queue) node" where
  "sample_node st = \<lparr>wk = (idle_worker (sample_queue False 1))\<lparr>
       sandboxes := (\<lambda>_. zero_sandbox)
         (1 := zero_sandbox\<lparr>sb_state := st, absolute_deadline := 5, sb_variant := ARCH_CONTEXT_VARIANT_RUNNING, sb_memory := Some 7\<rparr>,
          2 := zero_sandbox\<lparr>sb_state := SANDBOX_INITIALIZED, absolute_deadline := 4, sb_http := Some 9\<rparr>),
       current := Some 1\<rparr>,
     grq = sample_queue True 2, cleanup = [], base_variant = ARCH_CONTEXT_VARIANT_FAST, handler_depth = 0\<rparr>"

definition sample_readings :: "nat option \<Rightarrow> readings" where
  "sample_readings stk = \<lparr>t_prepare = 10, t_runnable = 11, t_out = 12, t_in = 13,
     allocs = \<lparr>body_rc = 0, globals_rc = 0, globals_buffer = Some 3, memory_res = Some 4, stack_res = stk\<rparr>\<rparr>"

definition sample_ring :: "nat list \<Rightarrow> list_runqueue" where
  "sample_ring xs = \<lparr>lmem = (case xs of
       [p, n] \<Rightarrow> \<lparr>nx = (\<lambda>x. x)(0 := p, p := n, n := 0), pv = (\<lambda>x. x)(0 := n, n := p, p := 0)\<rparr>
     | _ \<Rightarrow> \<lparr>nx = (\<lambda>x. x), pv = (\<lambda>x. x)\<rparr>), lhead = 0\<rparr>"

definition sample_fifo_node :: "nat list \<Rightarrow> (list_runqueue, sandbox_ptr deque) node" where
  "sample_fifo_node xs = \<lparr>wk = (idle_worker (sample_ring xs))\<lparr>
       sandboxes := (\<lambda>_. zero_sandbox)
         (1 := zero_sandbox\<lparr>sb_state := SANDBOX_INTERRUPTED, sb_variant := ARCH_CONTEXT_VARIANT_RUNNING\<rparr>,
          2 := zero_sandbox\<lparr>sb_state := SANDBOX_RUNNABLE, sb_variant := ARCH_CONTEXT_VARIANT_FAST, sb_memory := Some 7\<rparr>,
          3 := zero_sandbox\<lparr>sb_state := SANDBOX_INITIALIZED, sb_http := Some 9\<rparr>),
       current := Some 1\<rparr>,
     grq = \<lparr>wrk = (\<lambda>_. Some 3), dq_size = 8, dq_top = 0, dq_bottom = 1\<rparr>, cleanup = [],
     base_variant = ARCH_CONTEXT_VARIANT_FAST, handler_depth = 0\<rparr>"

subsection \<open>Transitions that succeed\<close>

lemma bookkeeping_ok:
  "\<lbrakk>\<not> SANDBOX_STATE_TOTALS b; last_state_change (sandboxes w p) < now\<rbrakk> \<Longrightarrow>
    \<exists>w'. state_change_bookkeeping b hist now p st new w = Inr w'"
  by (simp add: state_change_bookkeeping_def Let_def sandbox_state_totals_decrement_def)

lemma bookkeeping_clock:
  "state_change_bookkeeping b hist now p st new w = Inr w' \<Longrightarrow> last_state_change (sandboxes w' p) = now"
  using bookkeeping_effects by fastforce

lemma set_as_runnable_ok:
  assumes "\<not> SANDBOX_STATE_TOTALS b" "last_state_change (sandboxes w p) < now"
    "local_runqueue_add cfg (runq w) p = Inr q"
  shows "\<exists>w'. sandbox_set_as_runnable b cfg now p SANDBOX_INITIALIZED w = Inr w' \<and> runq w' = q \<and>
    (\<forall>x. x \<noteq> p \<longrightarrow> sandboxes w' x = sandboxes w x) \<and> state_of w' p = SANDBOX_RUNNABLE \<and>
    sb_variant (sandboxes w' p) = sb_variant (sandboxes w p) \<and> sb_memory (sandboxes w' p) = sb_memory (sandboxes w p) \<and>
    absolute_deadline (sandboxes w' p) = absolute_deadline (sandboxes w p) \<and>
    last_state_change (sandboxes w' p) = now \<and> current w' = current w"
proof -
  let ?w = "(upd_sandbox p (\<lambda>s. s\<lparr>dispatched := now\<rparr>) (set_state p SANDBOX_RUNNABLE w))\<lparr>runq := q\<rparr>"
  obtain w' where w': "state_change_bookkeeping b True now p SANDBOX_INITIALIZED SANDBOX_RUNNABLE ?w = Inr w'"
    using bookkeeping_ok [OF assms(1), of ?w p now True SANDBOX_INITIALIZED SANDBOX_RUNNABLE] assms(2) by auto
  moreover from this have "sandbox_set_as_runnable b cfg now p SANDBOX_INITIALIZED w = Inr w'"
    using assms(3) by (simp add: sandbox_set_as_runnable_def Let_def)
  ultimately show ?thesis using bookkeeping_effects [OF w'] by (auto simp: charge_def Let_def)
qed

lemma prepare_ok:
  assumes "allocs_ok r" "sb_http (sandboxes w p) \<noteq> None"
  shows "\<exists>w'. sandbox_prepare_execution_environment b cfg now r p w = Inr (0, w') \<and> runq w' = runq w \<and>
    (\<forall>x. x \<noteq> p \<longrightarrow> sandboxes w' x = sandboxes w x) \<and> state_of w' p = state_of w p \<and>
    sb_variant (sandboxes w' p) = ARCH_CONTEXT_VARIANT_FAST \<and> sb_memory (sandboxes w' p) \<noteq> None \<and>
    absolute_deadline (sandboxes w' p) = absolute_deadline (sandboxes w p) \<and>
    last_state_change (sandboxes w' p) = last_state_change (sandboxes w p) \<and> current w' = current w"
  using assms by (auto simp: sandbox_prepare_execution_environment_def allocs_ok_def Let_def)

lemma set_as_error_allocated:
  assumes "\<not> SANDBOX_STATE_TOTALS b" "sandbox_set_as_error b cfg now p SANDBOX_ALLOCATED w = Inr w'"
  shows "state_of w' p = SANDBOX_ERROR"
  using set_as_error_effects [OF assms(2)] by (simp add: moved_def)

lemma set_as_error_abort:
  assumes "\<not> SANDBOX_STATE_TOTALS b" "sandbox_set_as_error b cfg now p SANDBOX_ALLOCATED w = Inl e"
  shows "e = Assertion_Failure"
  using assms
  by (auto simp: sandbox_set_as_error_def Let_def respond_def state_change_bookkeeping_def assertc_def
      sandbox_state_totals_decrement_def split: if_splits option.splits)

lemma prepare_fails:
  assumes "\<not> SANDBOX_STATE_TOTALS b" "\<not> allocs_ok r"
  shows "(\<exists>w'. sandbox_prepare_execution_environment b cfg now r p w = Inr (- 1, w') \<and> state_of w' p = SANDBOX_ERROR) \<or>
    sandbox_prepare_execution_environment b cfg now r p w = Inl Assertion_Failure"
proof -
  have err: "(\<exists>w'. bindr (sandbox_set_as_error b cfg now p SANDBOX_ALLOCATED v) (\<lambda>w''. Inr (- 1 :: int, w'')) = Inr (- 1, w') \<and>
      state_of w' p = SANDBOX_ERROR) \<or>
    bindr (sandbox_set_as_error b cfg now p SANDBOX_ALLOCATED v) (\<lambda>w''. Inr (- 1 :: int, w'')) = Inl Assertion_Failure" for v
    using set_as_error_allocated [OF assms(1), of cfg now p v] set_as_error_abort [OF assms(1), of cfg now p v]
    by (cases "sandbox_set_as_error b cfg now p SANDBOX_ALLOCATED v") auto
  show ?thesis
  proof (cases "sb_http (sandboxes w p) = None")
    case True
    then show ?thesis by (simp add: sandbox_prepare_execution_environment_def)
  next
    case False
    have "\<exists>v. sandbox_prepare_execution_environment b cfg now r p w =
        bindr (sandbox_set_as_error b cfg now p SANDBOX_ALLOCATED v) (\<lambda>w''. Inr (- 1, w''))"
      using assms(2) False unfolding sandbox_prepare_execution_environment_def allocs_ok_def Let_def
      by (simp only: if_False not_le de_Morgan_conj not_not) (auto simp: not_le)
    then show ?thesis using err by metis
  qed
qed

subsection \<open>The choice by deadline\<close>

lemma edf_local_deadline:
  assumes "edf_rep dl q A"
  shows "\<exists>n. local_runqueue_minheap_get_next q = Inr n \<and>
    (case n of None \<Rightarrow> A = {#} | Some p \<Rightarrow> p \<in># A \<and> (\<forall>x\<in>#A. dl p \<le> dl x))"
proof (cases "A = {#}")
  case True
  then show ?thesis
    using assms minheap_rq.next_law [of dl q A] by (auto simp: edf_rep_def minheap_rep_def pq_inv_def split: option.splits)
next
  case False
  have rep: "minheap_rep dl q A" "pq_order dl q" using assms by (auto simp: edf_rep_def minheap_rep_def pq_inv_def)
  obtain p where p: "local_runqueue_minheap_get_next q = Inr (Some p)" "p \<in># A"
    using minheap_rq.next_of_nonempty [OF rep(1) False] by auto
  then have "\<forall>x\<in>#A. dl p \<le> dl x" using edf_rq.next_earliest [OF rep, of _ p] by auto
  with p show ?thesis by auto
qed

lemma edf_return_next:
  assumes "edf_node dl s A B"
  shows "\<exists>n. return_next (minheap_config fresh dl) s = Inr (n, s) \<and>
    (case n of None \<Rightarrow> A = {#} | Some p \<Rightarrow> p \<in># A \<and> (\<forall>x\<in>#A. dl p \<le> dl x))"
  using edf_local_deadline [of dl "runq (wk s)" A] assms by (auto simp: edf_node_def return_next_def)

lemma edf_request_peek:
  assumes "edf_node dl s A B"
  shows "(\<forall>x\<in>#B. highest_priority (grq s) \<le> dl x) \<and>
    (\<forall>t. highest_priority (grq s) < t \<longleftrightarrow> (\<exists>x\<in>#B. dl x < t))"
  using assms locked_pq.peek_le [of dl "grq s"] locked_pq.peek_less_iff [of dl "grq s"] by (auto simp: edf_node_def)

lemma edf_pull:
  assumes node: "edf_node dl s A B" and p: "p \<in># B" and flags: "\<not> SANDBOX_STATE_TOTALS b"
    and al: "allocs_ok (allocs r)" and clock: "last_state_change (sandboxes (wk s) p) < t_runnable r"
    and g: "pq_inv dl g" "pq_contents g = B - {#p#}"
  shows "\<exists>w1 w2. sandbox_prepare_execution_environment b (minheap_config fresh dl) (t_prepare r) (allocs r) p (wk s) = Inr (0, w1) \<and>
    state_of w1 p = SANDBOX_INITIALIZED \<and>
    sandbox_set_as_runnable b (minheap_config fresh dl) (t_runnable r) p SANDBOX_INITIALIZED w1 = Inr w2 \<and>
    edf_node dl (s\<lparr>wk := w2, grq := g\<rparr>) (add_mset p A) (B - {#p#}) \<and> switchable w2 p \<and>
    last_state_change (sandboxes w2 p) = t_runnable r \<and>
    (\<forall>x. x \<noteq> p \<longrightarrow> sandboxes w2 x = sandboxes (wk s) x) \<and> current w2 = current (wk s)"
proof -
  have n: "edf_rep dl (runq (wk s)) A" "\<And>x. x \<in># A \<or> x \<in># B \<Longrightarrow> absolute_deadline (sandboxes (wk s) x) = dl x"
    "\<And>x. count B x \<le> 1"
    "\<And>x. x \<in># B \<Longrightarrow> x \<notin># A \<and> state_of (wk s) x = SANDBOX_INITIALIZED \<and> sb_http (sandboxes (wk s) x) \<noteq> None"
    using node by (auto simp: edf_node_def)
  obtain w1 where w1: "sandbox_prepare_execution_environment b (minheap_config fresh dl) (t_prepare r) (allocs r) p (wk s) = Inr (0, w1)"
    "runq w1 = runq (wk s)" "\<And>x. x \<noteq> p \<Longrightarrow> sandboxes w1 x = sandboxes (wk s) x" "state_of w1 p = state_of (wk s) p"
    "sb_variant (sandboxes w1 p) = ARCH_CONTEXT_VARIANT_FAST" "sb_memory (sandboxes w1 p) \<noteq> None"
    "absolute_deadline (sandboxes w1 p) = absolute_deadline (sandboxes (wk s) p)"
    "last_state_change (sandboxes w1 p) = last_state_change (sandboxes (wk s) p)" "current w1 = current (wk s)"
    using prepare_ok [OF al, of "wk s" p b "minheap_config fresh dl" "t_prepare r"] n(4) [OF p] by metis
  have rep: "minheap_rep dl (runq w1) A" "pq_order dl (runq w1)"
    using n(1) w1(2) by (auto simp: edf_rep_def minheap_rep_def pq_inv_def)
  obtain q where q: "local_runqueue_add (minheap_config fresh dl) (runq w1) p = Inr q"
    "minheap_rep dl q (add_mset p A)" "pq_order dl q"
    using minheap_add_ok [OF rep(1), of fresh p] rep(2) by auto
  have clock1: "last_state_change (sandboxes w1 p) < t_runnable r" using clock w1(8) by simp
  obtain w2 where w2: "sandbox_set_as_runnable b (minheap_config fresh dl) (t_runnable r) p SANDBOX_INITIALIZED w1 = Inr w2"
    "runq w2 = q" "\<And>x. x \<noteq> p \<Longrightarrow> sandboxes w2 x = sandboxes w1 x" "state_of w2 p = SANDBOX_RUNNABLE"
    "sb_variant (sandboxes w2 p) = ARCH_CONTEXT_VARIANT_FAST" "sb_memory (sandboxes w2 p) \<noteq> None"
    "absolute_deadline (sandboxes w2 p) = dl p" "last_state_change (sandboxes w2 p) = t_runnable r"
    "current w2 = current (wk s)"
    using set_as_runnable_ok [OF flags clock1 q(1)] w1 n(2) [of p] p by (metis (no_types, lifting))
  have np: "p \<notin># B - {#p#}" using n(3) [of p] by (simp add: count_eq_zero_iff [symmetric])
  have other: "\<And>x. x \<noteq> p \<Longrightarrow> sandboxes w2 x = sandboxes (wk s) x" using w1(3) w2(3) by simp
  have "edf_rep dl q (add_mset p A)" using q by (simp add: edf_rep_def minheap_rep_def pq_inv_def)
  moreover have "absolute_deadline (sandboxes w2 x) = dl x" if "x \<in># add_mset p A \<or> x \<in># B - {#p#}" for x
    using that n(2) [of x] w2(7) other [of x] by (cases "x = p") (auto dest: in_diffD)
  moreover have "x \<notin># add_mset p A \<and> state_of w2 x = SANDBOX_INITIALIZED \<and> sb_http (sandboxes w2 x) \<noteq> None"
    if "x \<in># B - {#p#}" for x
  proof -
    have "x \<noteq> p" "x \<in># B" using that np by (auto dest: in_diffD)
    then show ?thesis using n(4) [of x] other [of x] by simp
  qed
  moreover have "count (B - {#p#}) x \<le> 1" for x using n(3) [of x] by (simp add: le_diff_conv)
  ultimately have "edf_node dl (s\<lparr>wk := w2, grq := g\<rparr>) (add_mset p A) (B - {#p#})"
    using g w2(2) by (simp add: edf_node_def)
  then show ?thesis using w1 w2 n(4) [OF p] other by (auto simp: switchable_def)
qed

lemma edf_get_next_ok:
  assumes node: "edf_node dl s A B" and flags: "\<not> SANDBOX_STATE_TOTALS b" and al: "allocs_ok (allocs r)"
    and clock: "\<forall>p\<in>#B. last_state_change (sandboxes (wk s) p) < t_runnable r"
  shows "\<exists>n s' A' B'. edf_next b fresh dl r s = Inr (n, s') \<and> edf_node dl s' A' B' \<and> A' + B' = A + B \<and>
    current (wk s') = current (wk s) \<and> A \<subseteq># A' \<and>
    (\<forall>x. x \<notin># A' - A \<longrightarrow> sandboxes (wk s') x = sandboxes (wk s) x) \<and>
    (\<forall>x\<in>#A' - A. switchable (wk s') x \<and> last_state_change (sandboxes (wk s') x) = t_runnable r) \<and>
    (case n of None \<Rightarrow> A' = {#} \<and> (\<forall>x\<in>#B. dl x = UINT64_MAX)
     | Some p \<Rightarrow> p \<in># A' \<and> (\<forall>x\<in>#A + B. dl p \<le> dl x))"
proof -
  obtain l where l: "local_runqueue_minheap_get_next (runq (wk s)) = Inr l"
    "case l of None \<Rightarrow> A = {#} | Some p \<Rightarrow> p \<in># A \<and> (\<forall>x\<in>#A. dl p \<le> dl x)"
    using edf_local_deadline [of dl "runq (wk s)" A] node by (auto simp: edf_node_def)
  define d where "d = deadline_of (wk s) l"
  have d: "\<forall>x\<in>#A. d \<le> dl x" "A = {#} \<Longrightarrow> d = UINT64_MAX" "\<And>p. l = Some p \<Longrightarrow> d = dl p"
    using l(2) node by (auto simp: d_def deadline_of_def edf_node_def split: option.splits)
  note peek = edf_request_peek [OF node]
  show ?thesis
  proof (cases "highest_priority (grq s) < d")
    case False
    have "edf_next b fresh dl r s = return_next (minheap_config fresh dl) s"
      using l(1) False by (simp add: scheduler_edf_get_next_def d_def)
    moreover obtain n where n: "return_next (minheap_config fresh dl) s = Inr (n, s)"
      "case n of None \<Rightarrow> A = {#} | Some p \<Rightarrow> p \<in># A \<and> (\<forall>x\<in>#A. dl p \<le> dl x)"
      using edf_return_next [OF node] by blast
    have "n = l" using n(1) l(1) by (simp add: return_next_def)
    have late: "\<forall>x\<in>#B. d \<le> dl x" using False peek by (meson not_le)
    have "case n of None \<Rightarrow> A = {#} \<and> (\<forall>x\<in>#B. dl x = UINT64_MAX) | Some p \<Rightarrow> p \<in># A \<and> (\<forall>x\<in>#A + B. dl p \<le> dl x)"
    proof (cases n)
      case None
      then have "A = {#}" using n(2) by simp
      then show ?thesis using None d(2) late by simp
    next
      case (Some p)
      then have "d = dl p" using d(3) \<open>n = l\<close> by simp
      then show ?thesis using Some n(2) late by auto
    qed
    ultimately show ?thesis using n(1) node by (intro exI [of _ n] exI [of _ s] exI [of _ A] exI [of _ B]) simp
  next
    case True
    have "pq_inv dl (grq s)" "pq_contents (grq s) = B" using node by (auto simp: edf_node_def)
    then obtain p g where p: "global_request_scheduler_minheap_remove_if_earlier False dl (grq s) d = Inr (0, Some p, g)"
      "p \<in># B" "dl p = highest_priority (grq s)" "pq_inv dl g" "pq_contents g = B - {#p#}"
      using minheap_remove_law [of dl "grq s" d] True by (auto simp: not_less [symmetric])
    have dp: "absolute_deadline (sandboxes (wk s) p) = dl p" using node p(2) by (simp add: edf_node_def)
    have cp: "last_state_change (sandboxes (wk s) p) < t_runnable r" using clock p(2) by blast
    obtain w1 w2 where w: "sandbox_prepare_execution_environment b (minheap_config fresh dl) (t_prepare r) (allocs r) p (wk s) = Inr (0, w1)"
      "state_of w1 p = SANDBOX_INITIALIZED"
      "sandbox_set_as_runnable b (minheap_config fresh dl) (t_runnable r) p SANDBOX_INITIALIZED w1 = Inr w2"
      "edf_node dl (s\<lparr>wk := w2, grq := g\<rparr>) (add_mset p A) (B - {#p#})" "switchable w2 p"
      "last_state_change (sandboxes w2 p) = t_runnable r"
      "\<And>x. x \<noteq> p \<Longrightarrow> sandboxes w2 x = sandboxes (wk s) x" "current w2 = current (wk s)"
      using edf_pull [OF node p(2) flags al cp p(4,5), where fresh = fresh] by blast
    obtain n where n: "return_next (minheap_config fresh dl) (s\<lparr>wk := w2, grq := g\<rparr>) = Inr (n, s\<lparr>wk := w2, grq := g\<rparr>)"
      "case n of None \<Rightarrow> add_mset p A = {#} | Some q \<Rightarrow> q \<in># add_mset p A \<and> (\<forall>x\<in>#add_mset p A. dl q \<le> dl x)"
      using edf_return_next [OF w(4)] by blast
    have "edf_next b fresh dl r s = Inr (n, s\<lparr>wk := w2, grq := g\<rparr>)"
      using l(1) True p(1,3) dp w(1-3) n(1) by (simp add: scheduler_edf_get_next_def d_def [symmetric])
    moreover have "case n of None \<Rightarrow> False | Some q \<Rightarrow> q \<in># add_mset p A \<and> (\<forall>x\<in>#A + B. dl q \<le> dl x)"
    proof (cases n)
      case None
      then show ?thesis using n(2) by simp
    next
      case (Some q)
      have "\<forall>x\<in>#B. dl p \<le> dl x" using peek p(3) by simp
      then show ?thesis using Some n(2) by (auto intro: order_trans)
    qed
    moreover have "add_mset p A - A = {#p#}" by simp
    ultimately show ?thesis
      using w(4-8) p(2)
      by (intro exI [of _ n] exI [of _ "s\<lparr>wk := w2, grq := g\<rparr>"] exI [of _ "add_mset p A"] exI [of _ "B - {#p#}"])
        (auto split: option.splits)
  qed
qed

subsection \<open>The switch at the end of a quantum\<close>

lemma edf_node_cong:
  assumes "edf_node dl s A B" "runq w = runq (wk s)"
    and "\<And>x. x \<in># B \<Longrightarrow> sandboxes w x = sandboxes (wk s) x"
    and "\<And>x. x \<in># A \<Longrightarrow> absolute_deadline (sandboxes w x) = absolute_deadline (sandboxes (wk s) x)"
  shows "edf_node dl (s\<lparr>wk := w\<rparr>) A B"
  using assms by (auto simp: edf_node_def)

lemma preempt_ok:
  assumes "\<not> SANDBOX_STATE_TOTALS b" "state_of w p = SANDBOX_INTERRUPTED" "last_state_change (sandboxes w p) < now"
  shows "\<exists>w'. sandbox_preempt b now p w = Inr w' \<and> state_of w' p = SANDBOX_PREEMPTED \<and>
    (\<forall>x. x \<noteq> p \<longrightarrow> sandboxes w' x = sandboxes w x) \<and> sb_variant (sandboxes w' p) = sb_variant (sandboxes w p) \<and>
    sb_memory (sandboxes w' p) = sb_memory (sandboxes w p) \<and>
    absolute_deadline (sandboxes w' p) = absolute_deadline (sandboxes w p) \<and> runq w' = runq w \<and> current w' = current w"
proof -
  let ?w = "set_state p SANDBOX_PREEMPTED w"
  obtain w' where w': "state_change_bookkeeping b True now p SANDBOX_INTERRUPTED SANDBOX_PREEMPTED ?w = Inr w'"
    using bookkeeping_ok [OF assms(1), of ?w p now True SANDBOX_INTERRUPTED SANDBOX_PREEMPTED] assms(3) by auto
  then have "sandbox_preempt b now p w = Inr w'"
    using assms(2) by (simp add: sandbox_preempt_def sandbox_set_as_preempted_def Let_def)
  then show ?thesis using bookkeeping_effects [OF w'] by auto
qed

lemma interrupt_return_ok:
  assumes "\<not> SANDBOX_STATE_TOTALS b" "st \<noteq> SANDBOX_INTERRUPTED"
  shows "\<exists>w'. sandbox_interrupt_return b now p st w = Inr w' \<and> state_of w' p = st \<and>
    (\<forall>x. x \<noteq> p \<longrightarrow> sandboxes w' x = sandboxes w x) \<and>
    absolute_deadline (sandboxes w' p) = absolute_deadline (sandboxes w p) \<and> runq w' = runq w \<and> current w' = current w"
  using assms
  by (simp add: sandbox_interrupt_return_def Let_def sandbox_state_totals_decrement_def sandbox_state_totals_increment_def)

lemma running_sys_ok:
  assumes "\<not> SANDBOX_STATE_TOTALS b" "last_state_change (sandboxes w p) < now"
  shows "\<exists>w'. sandbox_set_as_running_sys b now p SANDBOX_RUNNABLE w = Inr w' \<and> state_of w' p = SANDBOX_RUNNING_SYS \<and>
    (\<forall>x. x \<noteq> p \<longrightarrow> sandboxes w' x = sandboxes w x) \<and>
    absolute_deadline (sandboxes w' p) = absolute_deadline (sandboxes w p) \<and> runq w' = runq w \<and> current w' = current w"
proof -
  let ?w = "set_state p SANDBOX_RUNNING_SYS w"
  obtain w' where w': "state_change_bookkeeping b True now p SANDBOX_RUNNABLE SANDBOX_RUNNING_SYS ?w = Inr w'"
    using bookkeeping_ok [OF assms(1), of ?w p now True SANDBOX_RUNNABLE SANDBOX_RUNNING_SYS] assms(2) by auto
  then have "sandbox_set_as_running_sys b now p SANDBOX_RUNNABLE w = Inr w'"
    by (simp add: sandbox_set_as_running_sys_def Let_def)
  then show ?thesis using bookkeeping_effects [OF w'] by auto
qed

lemma running_user_ok:
  assumes "\<not> SANDBOX_STATE_TOTALS b" "last_state_change (sandboxes w p) < now"
  shows "\<exists>w'. sandbox_set_as_running_user b now p SANDBOX_PREEMPTED w = Inr w' \<and> state_of w' p = SANDBOX_RUNNING_USER \<and>
    (\<forall>x. x \<noteq> p \<longrightarrow> sandboxes w' x = sandboxes w x) \<and>
    absolute_deadline (sandboxes w' p) = absolute_deadline (sandboxes w p) \<and> runq w' = runq w \<and> current w' = current w"
proof -
  obtain w' where w': "state_change_bookkeeping b True now p SANDBOX_PREEMPTED SANDBOX_RUNNING_USER w = Inr w'"
    using bookkeeping_ok [OF assms(1,2)] by blast
  then have "sandbox_set_as_running_user b now p SANDBOX_PREEMPTED w =
      Inr (software_interrupt_deferred_sigalrm_replay (set_state p SANDBOX_RUNNING_USER w'))"
    by (simp add: sandbox_set_as_running_user_def Let_def)
  then show ?thesis using bookkeeping_effects [OF w'] by auto
qed

lemma preemptive_switch_ok:
  assumes flags: "\<not> SANDBOX_STATE_TOTALS b" and sw: "switchable w p" and clock: "last_state_change (sandboxes w p) < now"
  shows "\<exists>w'. scheduler_preemptive_switch_to b now p w = Inr w' \<and> current w' = Some p \<and>
    state_of w' p \<in> {SANDBOX_RUNNING_SYS, SANDBOX_RUNNING_USER} \<and>
    (\<forall>x. x \<noteq> p \<longrightarrow> sandboxes w' x = sandboxes w x) \<and>
    absolute_deadline (sandboxes w' p) = absolute_deadline (sandboxes w p) \<and> runq w' = runq w"
proof -
  define w2 where "w2 = (set_variant p ARCH_CONTEXT_VARIANT_RUNNING w)\<lparr>current := Some p,
    worker_deadline := absolute_deadline (sandboxes w p)\<rparr>"
  have w2: "current w2 = Some p" "runq w2 = runq w" "\<And>x. x \<noteq> p \<Longrightarrow> sandboxes w2 x = sandboxes w x"
    "absolute_deadline (sandboxes w2 p) = absolute_deadline (sandboxes w p)"
    "last_state_change (sandboxes w2 p) < now"
    using clock by (auto simp: w2_def set_variant_def)
  have cs: "current_sandbox_set (Some p) (set_variant p ARCH_CONTEXT_VARIANT_RUNNING w) = Inr w2"
    using sw by (simp add: switchable_def current_sandbox_set_def w2_def set_variant_def)
  show ?thesis
  proof (cases "state_of w p = SANDBOX_RUNNABLE")
    case True
    then have "scheduler_preemptive_switch_to b now p w = sandbox_set_as_running_sys b now p SANDBOX_RUNNABLE w2"
      using sw cs by (simp add: switchable_def scheduler_preemptive_switch_to_def arch_context_restore_fast_def)
    then show ?thesis using running_sys_ok [OF flags w2(5)] w2 by (metis insertI1)
  next
    case False
    then have "scheduler_preemptive_switch_to b now p w = sandbox_set_as_running_user b now p SANDBOX_PREEMPTED w2"
      using sw cs by (auto simp: switchable_def scheduler_preemptive_switch_to_def arch_context_restore_slow_def)
    then show ?thesis using running_user_ok [OF flags w2(5)] w2 by (metis insertI1 insertI2)
  qed
qed

lemma preemptive_sched_resumes:
  assumes "\<not> SANDBOX_STATE_TOTALS b" "current (wk s) = Some ip" "state_of (wk s) ip = SANDBOX_INTERRUPTED"
    and "get_next s = Inr (Some ip, s1)" "current (wk s1) = Some ip"
  shows "\<exists>w. scheduler_preemptive_sched b no_updates get_next r s = Inr (s1\<lparr>wk := w\<rparr>) \<and> switched_worker ip ip (wk s1) w"
proof -
  obtain w' where w': "sandbox_interrupt_return b (t_out r) ip SANDBOX_RUNNING_USER (wk s1) = Inr w'"
    "state_of w' ip = SANDBOX_RUNNING_USER" "\<forall>x. x \<noteq> ip \<longrightarrow> sandboxes w' x = sandboxes (wk s1) x"
    "absolute_deadline (sandboxes w' ip) = absolute_deadline (sandboxes (wk s1) ip)" "runq w' = runq (wk s1)"
    "current w' = current (wk s1)"
    using interrupt_return_ok [OF assms(1), of SANDBOX_RUNNING_USER "t_out r" ip "wk s1"] by auto
  have "scheduler_preemptive_sched b no_updates get_next r s = Inr (s1\<lparr>wk := w'\<rparr>)"
    using assms w'(1) by (simp add: scheduler_preemptive_sched_def no_updates_def)
  moreover have "switched_worker ip ip (wk s1) w'"
    unfolding switched_worker_def using w'(2-6) assms(5) by (metis insertI1 insertI2)
  ultimately show ?thesis by (intro exI [of _ w'] conjI)
qed

lemma preemptive_sched_switches:
  assumes flags: "\<not> SANDBOX_STATE_TOTALS b" and cur: "current (wk s) = Some ip" "state_of (wk s) ip = SANDBOX_INTERRUPTED"
    and next_eq: "get_next s = Inr (Some p, s1)" and ne: "p \<noteq> ip"
    and ip: "state_of (wk s1) ip = SANDBOX_INTERRUPTED" "last_state_change (sandboxes (wk s1) ip) < t_out r"
      "sb_variant (sandboxes (wk s1) ip) = ARCH_CONTEXT_VARIANT_RUNNING"
    and sw: "switchable (wk s1) p" "last_state_change (sandboxes (wk s1) p) < t_in r"
  shows "\<exists>w. scheduler_preemptive_sched b no_updates get_next r s = Inr (s1\<lparr>wk := w\<rparr>) \<and> switched_worker ip p (wk s1) w"
proof -
  obtain w1 where w1: "sandbox_preempt b (t_out r) ip (wk s1) = Inr w1" "state_of w1 ip = SANDBOX_PREEMPTED"
    "\<forall>x. x \<noteq> ip \<longrightarrow> sandboxes w1 x = sandboxes (wk s1) x"
    "sb_variant (sandboxes w1 ip) = ARCH_CONTEXT_VARIANT_RUNNING"
    "absolute_deadline (sandboxes w1 ip) = absolute_deadline (sandboxes (wk s1) ip)" "runq w1 = runq (wk s1)"
    using preempt_ok [OF flags ip(1,2)] ip(3) by auto
  define w2 where "w2 = set_variant ip ARCH_CONTEXT_VARIANT_SLOW (call_out [Globals_Write_Back ip] w1)"
  have w2: "arch_context_save_slow ip (call_out [Globals_Write_Back ip] w1) = Inr w2" "state_of w2 ip = SANDBOX_PREEMPTED"
    "sb_variant (sandboxes w2 ip) = ARCH_CONTEXT_VARIANT_SLOW" "runq w2 = runq (wk s1)"
    "absolute_deadline (sandboxes w2 ip) = absolute_deadline (sandboxes (wk s1) ip)"
    "\<forall>x. x \<noteq> ip \<longrightarrow> sandboxes w2 x = sandboxes (wk s1) x"
    using w1 by (simp_all add: w2_def arch_context_save_slow_def set_variant_def)
  have "sandboxes w2 p = sandboxes (wk s1) p" using w2(6) ne by blast
  then have "switchable w2 p" "last_state_change (sandboxes w2 p) < t_in r" using sw by (simp_all add: switchable_def)
  then obtain w3 where w3: "scheduler_preemptive_switch_to b (t_in r) p w2 = Inr w3" "current w3 = Some p"
    "state_of w3 p \<in> {SANDBOX_RUNNING_SYS, SANDBOX_RUNNING_USER}" "\<forall>x. x \<noteq> p \<longrightarrow> sandboxes w3 x = sandboxes w2 x"
    "absolute_deadline (sandboxes w3 p) = absolute_deadline (sandboxes w2 p)" "runq w3 = runq w2"
    using preemptive_switch_ok [OF flags] by blast
  have "scheduler_preemptive_sched b no_updates get_next r s = Inr (s1\<lparr>wk := w3\<rparr>)"
    using cur next_eq ne w1(1) w2(1) w3(1) by (simp add: scheduler_preemptive_sched_def no_updates_def)
  moreover have "absolute_deadline (sandboxes w3 x) = absolute_deadline (sandboxes (wk s1) x)" for x
    using w3(4,5) w2(5,6) by metis
  then have "switched_worker ip p (wk s1) w3"
    unfolding switched_worker_def using ne w2(2,3,4,6) w3(2,3,4,6) by metis
  ultimately show ?thesis by (intro exI [of _ w3] conjI)
qed

lemma edf_node_switched:
  assumes "edf_node dl s A B" "switched_worker ip p (wk s) w" "ip \<in># A" "p \<in># A"
  shows "edf_node dl (s\<lparr>wk := w\<rparr>) A B"
proof (rule edf_node_cong [OF assms(1)])
  show "sandboxes w x = sandboxes (wk s) x" if "x \<in># B" for x
    using that assms by (metis edf_node_def switched_worker_def)
qed (use assms(2) in \<open>simp_all add: switched_worker_def\<close>)

lemma preemptive_sched_edf:
  assumes node: "edf_node dl s A B" and flags: "\<not> SANDBOX_STATE_TOTALS b" and al: "allocs_ok (allocs r)"
    and cur: "current (wk s) = Some ip" "ip \<in># A" "state_of (wk s) ip = SANDBOX_INTERRUPTED"
      "sb_variant (sandboxes (wk s) ip) = ARCH_CONTEXT_VARIANT_RUNNING"
    and sw: "\<forall>x\<in>#A. x \<noteq> ip \<longrightarrow> switchable (wk s) x"
    and clock: "\<forall>x\<in>#B. last_state_change (sandboxes (wk s) x) < t_runnable r"
      "\<forall>x\<in>#A. last_state_change (sandboxes (wk s) x) < t_out r \<and> last_state_change (sandboxes (wk s) x) < t_in r"
      "t_runnable r < t_in r"
  shows "\<exists>s1 w A' B' p. scheduler_preemptive_sched b no_updates (edf_next b fresh dl r) r s = Inr (s1\<lparr>wk := w\<rparr>) \<and>
    switched_worker ip p (wk s1) w \<and> edf_node dl (s1\<lparr>wk := w\<rparr>) A' B' \<and>
    A' + B' = A + B \<and> p \<in># A' \<and> (\<forall>x\<in>#A + B. dl p \<le> dl x)"
proof -
  obtain n s1 A' B' where g: "edf_next b fresh dl r s = Inr (n, s1)" "edf_node dl s1 A' B'" "A' + B' = A + B"
    "current (wk s1) = current (wk s)" "A \<subseteq># A'" "\<forall>x. x \<notin># A' - A \<longrightarrow> sandboxes (wk s1) x = sandboxes (wk s) x"
    "\<forall>x\<in>#A' - A. switchable (wk s1) x \<and> last_state_change (sandboxes (wk s1) x) = t_runnable r"
    "case n of None \<Rightarrow> A' = {#} \<and> (\<forall>x\<in>#B. dl x = UINT64_MAX) | Some p \<Rightarrow> p \<in># A' \<and> (\<forall>x\<in>#A + B. dl p \<le> dl x)"
    using edf_get_next_ok [OF node flags al clock(1), of fresh] by (elim exE conjE) (rule that)
  have ipA': "ip \<in># A'" using cur(2) g(5) by (rule mset_subset_eqD [rotated])
  then obtain p where p: "n = Some p" "p \<in># A'" "\<forall>x\<in>#A + B. dl p \<le> dl x" using g(8) by (cases n) auto
  have "A' - A \<subseteq># B"
    using g(3) by (simp add: subset_eq_diff_conv) (metis add.commute mset_subset_eq_add_left)
  then have "ip \<notin># A' - A" using node cur(2) by (metis edf_node_def mset_subset_eqD)
  then have ip: "sandboxes (wk s1) ip = sandboxes (wk s) ip" using g(6) by blast
  have pick: "switchable (wk s1) p \<and> last_state_change (sandboxes (wk s1) p) < t_in r" if "p \<noteq> ip"
  proof (cases "p \<in># A' - A")
    case True
    then show ?thesis using g(7) clock(3) by simp
  next
    case False
    then have "p \<in># A" using p(2) g(5) by (metis subset_mset.diff_add union_iff)
    moreover have "sandboxes (wk s1) p = sandboxes (wk s) p" using g(6) False by blast
    ultimately show ?thesis using sw clock(2) that by (simp add: switchable_def)
  qed
  have "\<exists>w. scheduler_preemptive_sched b no_updates (edf_next b fresh dl r) r s = Inr (s1\<lparr>wk := w\<rparr>) \<and> switched_worker ip p (wk s1) w"
  proof (cases "p = ip")
    case True
    then show ?thesis using preemptive_sched_resumes [OF flags cur(1,3), of "edf_next b fresh dl r" s1] g(1,4) cur(1) p(1) by simp
  next
    case False
    then show ?thesis
      using preemptive_sched_switches [OF flags cur(1,3), of "edf_next b fresh dl r" p s1] g(1) p(1) ip cur clock(2) pick by simp
  qed
  then obtain w where w: "scheduler_preemptive_sched b no_updates (edf_next b fresh dl r) r s = Inr (s1\<lparr>wk := w\<rparr>)"
    "switched_worker ip p (wk s1) w" by blast
  show ?thesis
    by (intro exI conjI) (rule w edf_node_switched [OF g(2) w(2) ipA' p(2)] g(3) p(2,3))+
qed

subsection \<open>The handler\<close>

lemma interrupt_ok:
  assumes "\<not> SANDBOX_STATE_TOTALS b" "last_state_change (sandboxes w p) < now"
  shows "\<exists>w'. sandbox_interrupt b now p w = Inr w' \<and> state_of w' p = SANDBOX_INTERRUPTED \<and>
    (\<forall>x. x \<noteq> p \<longrightarrow> sandboxes w' x = sandboxes w x) \<and> sb_variant (sandboxes w' p) = sb_variant (sandboxes w p) \<and>
    absolute_deadline (sandboxes w' p) = absolute_deadline (sandboxes w p) \<and> last_state_change (sandboxes w' p) = now \<and>
    runq w' = runq w \<and> current w' = current w"
proof -
  let ?w = "set_state p SANDBOX_INTERRUPTED w"
  obtain w' where w': "state_change_bookkeeping b False now p (state_of w p) SANDBOX_INTERRUPTED ?w = Inr w'"
    using bookkeeping_ok [OF assms(1), of ?w p now False "state_of w p" SANDBOX_INTERRUPTED] assms(2) by auto
  then have "sandbox_interrupt b now p w = Inr (sandbox_process_scheduler_updates p w')"
    by (simp add: sandbox_interrupt_def sandbox_set_as_interrupted_def)
  then show ?thesis using bookkeeping_effects [OF w'] by (auto simp: charge_def Let_def)
qed

lemma propagate_loop_exact:
  assumes "runtime_sigalrm_handler rt = RUNTIME_SIGALRM_HANDLER_TRIAGED \<longrightarrow> scheduler rt = SCHEDULER_EDF \<and> peek g = Inr d"
  shows "propagate_loop rt peek g is = Inr (map Pthread_Kill_Sigalrm (filter (\<lambda>i. i \<noteq> worker_thread_idx rt \<and>
    (runtime_sigalrm_handler rt = RUNTIME_SIGALRM_HANDLER_TRIAGED \<longrightarrow> d < runtime_worker_threads_deadline rt ! i)) is))"
  using assms
  by (induction "is")
    (auto simp: scheduler_worker_would_preempt_def split: runtime_sigalrm_handler.splits)

lemma propagate_ok:
  assumes "scheduler rt = SCHEDULER_EDF" "peek (grq s) = Inr d"
  shows "\<exists>cs. propagate_sigalrm rt peek code s = Inr (s\<lparr>wk := call_out cs (wk s)\<rparr>)"
proof (cases "code = SI_KERNEL")
  case True
  then show ?thesis using propagate_loop_exact [of rt peek "grq s" d] assms by (simp add: propagate_sigalrm_def) blast
next
  case False
  have "s = s\<lparr>wk := call_out [] (wk s)\<rparr>" by (simp add: call_out_def)
  then show ?thesis using False by (auto simp: propagate_sigalrm_def intro!: exI [of _ "[]"])
qed

lemma edf_next_frame:
  "scheduler_edf_get_next b cfg gcfg r s = Inr (n, s') \<Longrightarrow>
    handler_depth s' = handler_depth s \<and> cleanup s' = cleanup s \<and> base_variant s' = base_variant s"
  by (auto simp: scheduler_edf_get_next_def return_next_def Let_def assertc_def split: if_splits option.splits)

lemma preemptive_sched_frame:
  "scheduler_preemptive_sched b no_updates (scheduler_edf_get_next b cfg gcfg r) r' s = Inr s' \<Longrightarrow>
    handler_depth s' = handler_depth s \<and> cleanup s' = cleanup s \<and> base_variant s' = base_variant s"
  by (auto simp: scheduler_preemptive_sched_def no_updates_def assertc_def dest!: edf_next_frame split: if_splits option.splits)

lemma edf_node_depth: "edf_node dl (s\<lparr>handler_depth := n\<rparr>) A B = edf_node dl s A B"
  by (simp add: edf_node_def)

lemma handle_sigalrm_edf:
  assumes node: "edf_node dl s A B" and flags: "\<not> SANDBOX_STATE_TOTALS b" and al: "allocs_ok (allocs r)"
    and rt: "scheduler rt = SCHEDULER_EDF" "runtime_preemption_enabled rt" and depth: "handler_depth s = 0"
    and cur: "current (wk s) = Some ip" "ip \<in># A" "state_of (wk s) ip = SANDBOX_RUNNING_USER"
      "sb_variant (sandboxes (wk s) ip) = ARCH_CONTEXT_VARIANT_RUNNING"
    and sw: "\<forall>x\<in>#A. x \<noteq> ip \<longrightarrow> switchable (wk s) x"
    and clock: "\<forall>x\<in>#A + B. last_state_change (sandboxes (wk s) x) < now" "now < t_runnable r" "now < t_out r"
      "t_runnable r < t_in r"
  shows "\<exists>s' p. software_interrupt_handle_signals b rt (global_request_scheduler_peek (minheap_scheduler_config False dl))
      promotions no_updates (edf_next b fresh dl r) r now SIGALRM code s = Inr (False, s') \<and> quantum_result dl (A + B) ip s' p"
proof -
  let ?s1 = "s\<lparr>handler_depth := handler_depth s + 1\<rparr>" and ?peek = "global_request_scheduler_peek (minheap_scheduler_config False dl)"
  obtain w where w: "sandbox_interrupt b now ip (wk s) = Inr w" "state_of w ip = SANDBOX_INTERRUPTED"
    "\<forall>x. x \<noteq> ip \<longrightarrow> sandboxes w x = sandboxes (wk s) x" "sb_variant (sandboxes w ip) = ARCH_CONTEXT_VARIANT_RUNNING"
    "absolute_deadline (sandboxes w ip) = absolute_deadline (sandboxes (wk s) ip)" "last_state_change (sandboxes w ip) = now"
    "runq w = runq (wk s)" "current w = Some ip"
    using interrupt_ok [OF flags, of "wk s" ip now] clock(1) cur by auto
  obtain cs where cs: "propagate_sigalrm rt ?peek code (?s1\<lparr>wk := w\<rparr>) = Inr (?s1\<lparr>wk := call_out cs w\<rparr>)"
    using propagate_ok [OF rt(1), of ?peek "?s1\<lparr>wk := w\<rparr>"] by auto
  let ?s2 = "?s1\<lparr>wk := call_out cs w\<rparr>"
  have ipB: "ip \<notin># B" using node cur(2) by (auto simp: edf_node_def)
  have "edf_node dl (?s1\<lparr>wk := call_out cs w\<rparr>) A B"
  proof (rule edf_node_cong)
    show "edf_node dl ?s1 A B" using node by (simp only: edf_node_depth)
    show "sandboxes (call_out cs w) x = sandboxes (wk ?s1) x" if "x \<in># B" for x
    proof -
      have "x \<noteq> ip" using that ipB by blast
      then show ?thesis using w(3) by (simp add: call_out_def)
    qed
    show "absolute_deadline (sandboxes (call_out cs w) x) = absolute_deadline (sandboxes (wk ?s1) x)" for x
      using w(3,5) by (cases "x = ip") (simp_all add: call_out_def)
  qed (simp add: call_out_def w(7))
  moreover have same: "sandboxes w x = sandboxes (wk s) x" if "x \<noteq> ip" for x using w(3) that by blast
  have late: "now < t_in r" using clock(2,4) by (rule less_trans)
  have before: "last_state_change (sandboxes w x) \<le> now" if "x \<in># A + B" for x
    using clock(1) that w(6) same [of x] by (cases "x = ip") (auto intro: less_imp_le)
  moreover have "\<forall>x\<in>#A. x \<noteq> ip \<longrightarrow> switchable (wk ?s2) x" using sw same by (simp add: switchable_def call_out_def)
  moreover have "\<forall>x\<in>#B. last_state_change (sandboxes (wk ?s2) x) < t_runnable r"
    using before clock(2) by (auto simp: call_out_def intro: le_less_trans)
  moreover have "\<forall>x\<in>#A. last_state_change (sandboxes (wk ?s2) x) < t_out r \<and> last_state_change (sandboxes (wk ?s2) x) < t_in r"
    using before clock(3) late by (auto simp: call_out_def intro: le_less_trans)
  ultimately obtain s1 w' A' B' p where r: "scheduler_preemptive_sched b no_updates (edf_next b fresh dl r) r ?s2 = Inr (s1\<lparr>wk := w'\<rparr>)"
    "switched_worker ip p (wk s1) w'" "edf_node dl (s1\<lparr>wk := w'\<rparr>) A' B'" "A' + B' = A + B" "p \<in># A'" "\<forall>x\<in>#A + B. dl p \<le> dl x"
    using preemptive_sched_edf [OF _ flags al, of dl ?s2 A B ip fresh] cur(2) w clock(4) by (auto simp: call_out_def)
  let ?s3 = "s1\<lparr>wk := w', handler_depth := handler_depth s1 - 1\<rparr>"
  have "software_interrupt_handle_signals b rt ?peek promotions no_updates (edf_next b fresh dl r) r now SIGALRM code s = Inr (False, ?s3)"
    using depth rt cur w(1) cs r(1)
    by (simp add: software_interrupt_handle_signals_def worker_thread_is_running_cooperative_scheduler_def
        current_sandbox_is_preemptable_def Let_def)
  moreover have "handler_depth s1 = 1" using preemptive_sched_frame [OF r(1)] depth by simp
  then have "quantum_result dl (A + B) ip ?s3 p"
    unfolding quantum_result_def using r(2-6) edf_node_depth [of dl 0 "s1\<lparr>wk := w'\<rparr>" A' B'] by (auto simp: switched_worker_def)
  ultimately show ?thesis by blast
qed

subsection \<open>Round robin\<close>

lemma fifo_rotate:
  assumes "list_rep (runq (wk s)) (p # ps)" "current (wk s) = Some p" "state_of (wk s) p = SANDBOX_INTERRUPTED"
  shows "\<exists>q. scheduler_fifo_get_next b list_config gcfg r s = Inr (Some (hd (ps @ [p])), s\<lparr>wk := (wk s)\<lparr>runq := q\<rparr>\<rparr>) \<and>
    list_rep q (ps @ [p])"
proof -
  obtain q where q: "local_runqueue_list_rotate (\<lambda>p. state_of (wk s) p = SANDBOX_INTERRUPTED) (runq (wk s)) = Inr q"
    "list_rep q (ps @ [p])" using list_rotate_ok [OF assms(1), of "\<lambda>p. state_of (wk s) p = SANDBOX_INTERRUPTED"] assms(3) by blast
  then have "local_runqueue_list_get_next q = Some (hd (ps @ [p]))"
    using list_get_next_ok [OF q(2)] by (cases ps) auto
  moreover have "local_runqueue_list_get_next (runq (wk s)) = Some p" using list_get_next_ok [OF assms(1)] by simp
  ultimately have "scheduler_fifo_get_next b list_config gcfg r s = Inr (Some (hd (ps @ [p])), s\<lparr>wk := (wk s)\<lparr>runq := q\<rparr>\<rparr>)"
    using q(1) assms(2) by (simp add: scheduler_fifo_get_next_def return_next_def)
  then show ?thesis using q(2) by blast
qed

lemma fifo_preemptive:
  assumes flags: "\<not> SANDBOX_STATE_TOTALS b" and q: "list_rep (runq (wk s)) (p # ps)"
    and cur: "current (wk s) = Some p" "state_of (wk s) p = SANDBOX_INTERRUPTED"
      "sb_variant (sandboxes (wk s) p) = ARCH_CONTEXT_VARIANT_RUNNING" "last_state_change (sandboxes (wk s) p) < t_out r"
    and sw: "\<forall>x\<in>set ps. switchable (wk s) x \<and> last_state_change (sandboxes (wk s) x) < t_in r" "p \<notin> set ps"
  shows "\<exists>s1 w. scheduler_preemptive_sched b no_updates (scheduler_fifo_get_next b list_config gcfg r) r s = Inr (s1\<lparr>wk := w\<rparr>) \<and>
    switched_worker p (hd (ps @ [p])) (wk s1) w \<and> list_rep (runq w) (ps @ [p])"
proof -
  obtain q' where g: "scheduler_fifo_get_next b list_config gcfg r s = Inr (Some (hd (ps @ [p])), s\<lparr>wk := (wk s)\<lparr>runq := q'\<rparr>\<rparr>)"
    "list_rep q' (ps @ [p])" using fifo_rotate [OF q cur(1,2)] by blast
  let ?s1 = "s\<lparr>wk := (wk s)\<lparr>runq := q'\<rparr>\<rparr>"
  have "\<exists>w. scheduler_preemptive_sched b no_updates (scheduler_fifo_get_next b list_config gcfg r) r s = Inr (?s1\<lparr>wk := w\<rparr>) \<and>
    switched_worker p (hd (ps @ [p])) (wk ?s1) w"
  proof (cases ps)
    case Nil
    then show ?thesis
      using preemptive_sched_resumes [OF flags cur(1,2), of "scheduler_fifo_get_next b list_config gcfg r" ?s1] g(1) cur(1) by simp
  next
    case (Cons x xs)
    then show ?thesis
      using preemptive_sched_switches [OF flags cur(1,2), of "scheduler_fifo_get_next b list_config gcfg r" x ?s1] g(1) cur sw
      by (auto simp: switchable_def)
  qed
  then obtain w where w: "scheduler_preemptive_sched b no_updates (scheduler_fifo_get_next b list_config gcfg r) r s = Inr (?s1\<lparr>wk := w\<rparr>)"
    "switched_worker p (hd (ps @ [p])) (wk ?s1) w" by blast
  have "runq w = q'" using w(2) by (simp add: switched_worker_def)
  then show ?thesis using w g(2) by blast
qed

lemma prepare_fails_state:
  assumes "\<not> SANDBOX_STATE_TOTALS b" "\<not> allocs_ok r" "sb_http (sandboxes w p) \<noteq> None" "last_state_change (sandboxes w p) < now"
  shows "\<exists>w'. sandbox_prepare_execution_environment b cfg now r p w = Inr (- 1, w') \<and> state_of w' p = SANDBOX_ERROR \<and>
    sb_http (sandboxes w' p) = None \<and> last_state_change (sandboxes w' p) = now \<and> runq w' = runq w \<and> current w' = current w"
proof -
  have err: "\<exists>w'. sandbox_set_as_error b cfg now p SANDBOX_ALLOCATED v = Inr w' \<and> state_of w' p = SANDBOX_ERROR \<and>
    sb_http (sandboxes w' p) = None \<and> last_state_change (sandboxes w' p) = now \<and> runq w' = runq v \<and> current w' = current v"
    if v: "sb_http (sandboxes v p) \<noteq> None" "last_state_change (sandboxes v p) < now" for v
  proof -
    let ?v = "set_state p SANDBOX_ERROR v"
    obtain w' where w': "state_change_bookkeeping b True now p SANDBOX_ALLOCATED SANDBOX_ERROR ?v = Inr w'"
      using bookkeeping_ok [OF assms(1), of ?v p now True SANDBOX_ALLOCATED SANDBOX_ERROR] v by auto
    show ?thesis
      using bookkeeping_effects [OF w'] v(1) w'
      by (auto simp: sandbox_set_as_error_def Let_def respond_def charge_def)
  qed
  have "\<exists>v. sandbox_prepare_execution_environment b cfg now r p w =
      bindr (sandbox_set_as_error b cfg now p SANDBOX_ALLOCATED v) (\<lambda>w''. Inr (- 1, w'')) \<and>
      sb_http (sandboxes v p) = sb_http (sandboxes w p) \<and> last_state_change (sandboxes v p) = last_state_change (sandboxes w p) \<and>
      runq v = runq w \<and> current v = current w"
    using assms(2,3) unfolding sandbox_prepare_execution_environment_def allocs_ok_def Let_def
    by (simp only: if_False not_le de_Morgan_conj not_not) (auto simp: not_le)
  then obtain v where v: "sandbox_prepare_execution_environment b cfg now r p w =
      bindr (sandbox_set_as_error b cfg now p SANDBOX_ALLOCATED v) (\<lambda>w''. Inr (- 1, w''))"
    "sb_http (sandboxes v p) \<noteq> None" "last_state_change (sandboxes v p) < now" "runq v = runq w" "current v = current w"
    using assms(3,4) by auto
  show ?thesis using err [OF v(2,3)] v(1,4,5) by auto
qed

lemma fifo_pull_failed:
  assumes flags: "\<not> SANDBOX_STATE_TOTALS b" and al: "\<not> allocs_ok (allocs r)"
    and q: "list_rep (runq (wk s)) []" "x \<noteq> lhead (runq (wk s))" "ps_list_singleton (lmem (runq (wk s))) x"
    and g: "deque_ok (grq s)" "deque_list (grq s) = Some x # rest"
    and x: "sb_http (sandboxes (wk s) x) \<noteq> None" "last_state_change (sandboxes (wk s) x) < t_prepare r" "t_prepare r < t_runnable r"
  shows "\<exists>s'. scheduler_fifo_get_next b list_config deque_scheduler_config r s = Inr (Some x, s') \<and>
    state_of (wk s') x = SANDBOX_RUNNABLE \<and> list_rep (runq (wk s')) [x] \<and> sb_http (sandboxes (wk s') x) = None"
proof -
  obtain g' where g': "deque_steal (grq s) = Inr (0, Some x, g')" using deque_steal_list [OF g(1)] g(2) by auto
  obtain w1 where w1: "sandbox_prepare_execution_environment b list_config (t_prepare r) (allocs r) x (wk s) = Inr (- 1, w1)"
    "sb_http (sandboxes w1 x) = None" "last_state_change (sandboxes w1 x) = t_prepare r" "runq w1 = runq (wk s)"
    using prepare_fails_state [OF flags al x(1,2), of list_config] by auto
  obtain q' where q': "local_runqueue_list_append (runq w1) x = Inr q'" "list_rep q' [x]"
    using list_append_ok [OF q(1), of x] q(2,3) w1(4) by auto
  let ?w = "(upd_sandbox x (\<lambda>s. s\<lparr>dispatched := t_runnable r\<rparr>) (set_state x SANDBOX_RUNNABLE w1))\<lparr>runq := q'\<rparr>"
  obtain w2 where w2: "state_change_bookkeeping b True (t_runnable r) x SANDBOX_INITIALIZED SANDBOX_RUNNABLE ?w = Inr w2"
    using bookkeeping_ok [OF flags, of ?w x "t_runnable r" True SANDBOX_INITIALIZED SANDBOX_RUNNABLE] w1(3) x(3) by auto
  have "sandbox_set_as_runnable b list_config (t_runnable r) x SANDBOX_INITIALIZED w1 = Inr w2"
    using q'(1) w2 by (simp add: sandbox_set_as_runnable_def Let_def)
  moreover have "runq w2 = q'" "state_of w2 x = SANDBOX_RUNNABLE" "sb_http (sandboxes w2 x) = None"
    using bookkeeping_effects [OF w2] w1(2) by auto
  moreover have "local_runqueue_list_get_next (runq (wk s)) = None" "local_runqueue_list_get_next q' = Some x"
    using list_get_next_ok [OF q(1)] list_get_next_ok [OF q'(2)] by auto
  ultimately have "scheduler_fifo_get_next b list_config deque_scheduler_config r s = Inr (Some x, s\<lparr>wk := w2, grq := g'\<rparr>)"
    using g' w1(1) by (simp add: scheduler_fifo_get_next_def return_next_def global_request_scheduler_deque_remove_def)
  then show ?thesis using \<open>runq w2 = q'\<close> \<open>state_of w2 x = SANDBOX_RUNNABLE\<close> \<open>sb_http (sandboxes w2 x) = None\<close> q'(2) by simp
qed

subsection \<open>The sample worker\<close>

lemma sample_queue_ok:
  "pq_inv sample_deadline (sample_queue ul p)" "pq_contents (sample_queue ul p) = {#p#}" "lock_ok (sample_queue False p)"
  by (simp_all add: pq_inv_def pq_shape_def pq_order_def heap_order_def pq_memo_def key_def pq_contents_def pq_elems_def
      sample_queue_def lock_ok_def)

lemma sample_node_ok: "edf_node sample_deadline (sample_node st) {#1#} {#2#}"
proof -
  have "edf_rep sample_deadline (runq (wk (sample_node st))) {#1#}"
    unfolding edf_rep_def using sample_queue_ok(1,2) [of False 1] sample_queue_ok(3) by (simp add: sample_node_def idle_worker_def)
  moreover have "pq_inv sample_deadline (grq (sample_node st)) \<and> pq_contents (grq (sample_node st)) = {#2#}"
    using sample_queue_ok(1,2) [of True 2] by (simp add: sample_node_def)
  ultimately show ?thesis by (auto simp: edf_node_def sample_node_def sample_deadline_def idle_worker_def zero_sandbox_def)
qed

lemma sample_allocs: "allocs_ok (allocs (sample_readings (Some 6)))" "\<not> allocs_ok (allocs (sample_readings None))"
  by (simp_all add: sample_readings_def allocs_ok_def)

lemma sample_clock: "\<forall>x. last_state_change (sandboxes (wk (sample_node st)) x) = 0"
  by (simp add: sample_node_def idle_worker_def zero_sandbox_def)

subsection \<open>Properties\<close>

text \<open>
  Claim C2: the EDF policy chooses the earliest deadline of the whole node. When preparing a pulled
  request succeeds, \<open>scheduler_edf_get_next\<close> returns: no request is lost or duplicated between the
  request queue and the run queue, nothing that was on the run queue leaves it, the chosen sandbox is
  on the run queue, and no sandbox in either queue has an earlier deadline. It chooses none only if the
  run queue is empty and every waiting request has the deadline \<open>UINT64_MAX\<close>.
\<close>

theorem scheduler_edf_get_next_earliest:
  assumes "edf_node dl s A B" and "\<not> SANDBOX_STATE_TOTALS b" and "allocs_ok (allocs r)"
    and "\<forall>p\<in>#B. last_state_change (sandboxes (wk s) p) < t_runnable r"
  shows "\<exists>n s' A' B'. scheduler_edf_get_next b (minheap_config fresh dl) (minheap_scheduler_config False dl) r s = Inr (n, s') \<and>
    edf_node dl s' A' B' \<and> A' + B' = A + B \<and> A \<subseteq># A' \<and>
    (case n of None \<Rightarrow> A' = {#} \<and> (\<forall>x\<in>#B. dl x = UINT64_MAX) | Some p \<Rightarrow> p \<in># A' \<and> (\<forall>x\<in>#A + B. dl p \<le> dl x))"
  using edf_get_next_ok [OF assms, of fresh] by (elim exE conjE) (intro exI conjI)

theorem scheduler_edf_get_next_earliest_witness:
  "\<exists>n s' A' B'. scheduler_edf_get_next default_build (minheap_config (\<lambda>_. None) sample_deadline)
      (minheap_scheduler_config False sample_deadline) (sample_readings (Some 6)) (sample_node SANDBOX_INTERRUPTED) = Inr (n, s') \<and>
    edf_node sample_deadline s' A' B' \<and> A' + B' = {#1#} + {#2#} \<and> {#1#} \<subseteq># A' \<and>
    (case n of None \<Rightarrow> A' = {#} \<and> (\<forall>x\<in>#{#2#}. sample_deadline x = UINT64_MAX)
     | Some p \<Rightarrow> p \<in># A' \<and> (\<forall>x\<in>#{#1#} + {#2#}. sample_deadline p \<le> sample_deadline x))"
proof (rule scheduler_edf_get_next_earliest [OF sample_node_ok])
  show "\<forall>p\<in>#{#2#}. last_state_change (sandboxes (wk (sample_node SANDBOX_INTERRUPTED)) p) < t_runnable (sample_readings (Some 6))"
    using sample_clock [of SANDBOX_INTERRUPTED] by (simp add: sample_readings_def)
qed (simp_all add: default_build_def sample_allocs)

text \<open>
  A request whose execution environment cannot be allocated takes the EDF worker down.
  \<open>sandbox_prepare_execution_environment\<close> marks the sandbox as an error and returns \<open>-1\<close>, which
  \<open>scheduler_edf_get_next\<close> ignores; its assertion that the sandbox is still initialised then fails.
\<close>

theorem scheduler_edf_get_next_unprepared:
  assumes "edf_node dl s A B" and "\<not> SANDBOX_STATE_TOTALS b" and "\<not> allocs_ok (allocs r)"
    and "p \<in># B" and "dl p < UINT64_MAX" and "\<forall>x\<in>#A. dl p < dl x"
  shows "scheduler_edf_get_next b (minheap_config fresh dl) (minheap_scheduler_config False dl) r s = Inl Assertion_Failure"
proof -
  obtain n where n: "local_runqueue_minheap_get_next (runq (wk s)) = Inr n"
    "case n of None \<Rightarrow> A = {#} | Some q \<Rightarrow> q \<in># A \<and> (\<forall>x\<in>#A. dl q \<le> dl x)"
    using edf_local_deadline [of dl "runq (wk s)" A] assms(1) by (auto simp: edf_node_def)
  have late: "dl p < deadline_of (wk s) n"
    using n(2) assms(1,5,6) by (auto simp: deadline_of_def edf_node_def split: option.splits)
  then have early: "highest_priority (grq s) < deadline_of (wk s) n" using edf_request_peek [OF assms(1)] assms(4) by auto
  obtain g x where g: "global_request_scheduler_minheap_remove_if_earlier False dl (grq s) (deadline_of (wk s) n) = Inr (0, Some x, g)"
    "x \<in># B" "dl x = highest_priority (grq s)"
    using minheap_remove_law [of dl "grq s" "deadline_of (wk s) n"] early assms(1) by (auto simp: edf_node_def leD)
  then have "absolute_deadline (sandboxes (wk s) x) < deadline_of (wk s) n"
    using early assms(1) by (simp add: edf_node_def)
  then show ?thesis
    using n(1) early g(1) prepare_fails [OF assms(2,3), of "minheap_config fresh dl" "t_prepare r" x "wk s"]
    by (auto simp: scheduler_edf_get_next_def Let_def assertc_def)
qed

text \<open>
  Claim C18: the end of a quantum under EDF. When SIGALRM interrupts a sandbox that runs user code, the
  handler returns with its nesting depth back at zero, the worker runs the sandbox with the earliest
  deadline among the run queue and the request queue, the interrupted sandbox either resumes or is
  preempted with its full machine context saved, and no sandbox has left the two queues.
\<close>

theorem sigalrm_runs_earliest_deadline:
  assumes "edf_node dl s A B" and "\<not> SANDBOX_STATE_TOTALS b" and "allocs_ok (allocs r)"
    and "scheduler rt = SCHEDULER_EDF" and "runtime_preemption_enabled rt" and "handler_depth s = 0"
    and "current (wk s) = Some ip" and "ip \<in># A" and "state_of (wk s) ip = SANDBOX_RUNNING_USER"
    and "sb_variant (sandboxes (wk s) ip) = ARCH_CONTEXT_VARIANT_RUNNING"
    and "\<forall>x\<in>#A. x \<noteq> ip \<longrightarrow> switchable (wk s) x"
    and "\<forall>x\<in>#A + B. last_state_change (sandboxes (wk s) x) < now" and "now < t_runnable r" and "now < t_out r"
    and "t_runnable r < t_in r"
  shows "\<exists>s' p. software_interrupt_handle_signals b rt (global_request_scheduler_peek (minheap_scheduler_config False dl))
      promotions no_updates (scheduler_edf_get_next b (minheap_config fresh dl) (minheap_scheduler_config False dl) r)
      r now SIGALRM code s = Inr (False, s') \<and> quantum_result dl (A + B) ip s' p"
  by (rule handle_sigalrm_edf [OF assms])

theorem sigalrm_runs_earliest_deadline_witness:
  "\<exists>s'. software_interrupt_handle_signals default_build
      \<lparr>scheduler = SCHEDULER_EDF, runtime_preemption_enabled = True, runtime_sigalrm_handler = RUNTIME_SIGALRM_HANDLER_TRIAGED,
       worker_thread_idx = 0, runtime_worker_threads_deadline = [5, 9]\<rparr>
      (global_request_scheduler_peek (minheap_scheduler_config False sample_deadline)) no_updates no_updates
      (scheduler_edf_get_next default_build (minheap_config (\<lambda>_. None) sample_deadline)
        (minheap_scheduler_config False sample_deadline) (sample_readings (Some 6)))
      (sample_readings (Some 6)) 5 SIGALRM SI_KERNEL (sample_node SANDBOX_RUNNING_USER) = Inr (False, s') \<and>
    current (wk s') = Some 2 \<and> state_of (wk s') 1 = SANDBOX_PREEMPTED"
proof -
  let ?rt = "\<lparr>scheduler = SCHEDULER_EDF, runtime_preemption_enabled = True,
    runtime_sigalrm_handler = RUNTIME_SIGALRM_HANDLER_TRIAGED, worker_thread_idx = 0, runtime_worker_threads_deadline = [5, 9]\<rparr>"
  have "\<exists>s' p. software_interrupt_handle_signals default_build ?rt
      (global_request_scheduler_peek (minheap_scheduler_config False sample_deadline)) no_updates no_updates
      (scheduler_edf_get_next default_build (minheap_config (\<lambda>_. None) sample_deadline)
        (minheap_scheduler_config False sample_deadline) (sample_readings (Some 6)))
      (sample_readings (Some 6)) 5 SIGALRM SI_KERNEL (sample_node SANDBOX_RUNNING_USER) = Inr (False, s') \<and>
    quantum_result sample_deadline ({#1#} + {#2#}) 1 s' p"
    by (rule sigalrm_runs_earliest_deadline [OF sample_node_ok])
      (simp_all add: default_build_def sample_allocs sample_clock, simp_all add: sample_node_def sample_readings_def)
  moreover have "p = 2" if "quantum_result sample_deadline ({#1#} + {#2#}) 1 s' p" for s' p
  proof -
    have "p \<in># {#1#} + {#2#}" using that unfolding quantum_result_def by (metis union_iff)
    moreover have "sample_deadline p \<le> 4" using that by (auto simp: quantum_result_def sample_deadline_def)
    ultimately show ?thesis by (auto simp: sample_deadline_def)
  qed
  ultimately show ?thesis by (fastforce simp: quantum_result_def)
qed

text \<open>
  Claim C29: the end of a quantum under FIFO is round robin. The interrupted sandbox moves from the head
  of the run queue to its tail, and the worker runs the sandbox that is now at the head: the
  next one in line, with the interrupted one preempted, or the same one again when it is alone.
\<close>

theorem scheduler_fifo_round_robin:
  assumes "\<not> SANDBOX_STATE_TOTALS b" and "list_rep (runq (wk s)) (p # ps)" and "p \<notin> set ps"
    and "current (wk s) = Some p" and "state_of (wk s) p = SANDBOX_INTERRUPTED"
    and "sb_variant (sandboxes (wk s) p) = ARCH_CONTEXT_VARIANT_RUNNING" and "last_state_change (sandboxes (wk s) p) < t_out r"
    and "\<forall>x\<in>set ps. switchable (wk s) x \<and> last_state_change (sandboxes (wk s) x) < t_in r"
  shows "\<exists>s'. scheduler_preemptive_sched b no_updates (scheduler_fifo_get_next b list_config gcfg r) r s = Inr s' \<and>
    list_rep (runq (wk s')) (ps @ [p]) \<and> current (wk s') = Some (hd (ps @ [p])) \<and>
    state_of (wk s') (hd (ps @ [p])) \<in> {SANDBOX_RUNNING_SYS, SANDBOX_RUNNING_USER} \<and>
    (ps \<noteq> [] \<longrightarrow> state_of (wk s') p = SANDBOX_PREEMPTED)"
proof -
  obtain s1 w where w: "scheduler_preemptive_sched b no_updates (scheduler_fifo_get_next b list_config gcfg r) r s = Inr (s1\<lparr>wk := w\<rparr>)"
    "switched_worker p (hd (ps @ [p])) (wk s1) w" "list_rep (runq w) (ps @ [p])"
    using fifo_preemptive [OF assms(1,2,4-8,3), of gcfg] by blast
  have "ps \<noteq> [] \<Longrightarrow> hd (ps @ [p]) \<noteq> p" using assms(3) by (cases ps) auto
  then show ?thesis using w by (auto simp: switched_worker_def)
qed

theorem scheduler_fifo_round_robin_witness:
  "\<exists>s'. scheduler_preemptive_sched default_build no_updates
      (scheduler_fifo_get_next default_build list_config deque_scheduler_config (sample_readings None)) (sample_readings None)
      (sample_fifo_node [1, 2]) = Inr s' \<and>
    list_rep (runq (wk s')) ([2] @ [1]) \<and> current (wk s') = Some (hd ([2] @ [1])) \<and>
    state_of (wk s') (hd ([2] @ [1])) \<in> {SANDBOX_RUNNING_SYS, SANDBOX_RUNNING_USER} \<and>
    (([2 :: nat] \<noteq> []) \<longrightarrow> state_of (wk s') 1 = SANDBOX_PREEMPTED)"
  by (rule scheduler_fifo_round_robin)
    (simp_all add: default_build_def sample_fifo_node_def sample_readings_def idle_worker_def zero_sandbox_def switchable_def
      sample_ring_def list_rep_def ring_def)

text \<open>
  Claim C31: the worker that the kernel signals forwards SIGALRM to the other workers: to all of them
  when the handler broadcasts, and when it triages (under EDF) to exactly those whose running sandbox
  has a later deadline than the earliest request. Nothing else of its state changes.
\<close>

theorem propagate_sigalrm_exact:
  assumes "runtime_sigalrm_handler rt = RUNTIME_SIGALRM_HANDLER_TRIAGED \<longrightarrow> scheduler rt = SCHEDULER_EDF"
  shows "propagate_sigalrm rt (global_request_scheduler_peek (minheap_scheduler_config False dl)) code s =
    Inr (if code = SI_KERNEL
         then s\<lparr>wk := call_out (map Pthread_Kill_Sigalrm (filter (\<lambda>i. i \<noteq> worker_thread_idx rt \<and>
                (runtime_sigalrm_handler rt = RUNTIME_SIGALRM_HANDLER_TRIAGED \<longrightarrow>
                  highest_priority (grq s) < runtime_worker_threads_deadline rt ! i))
                [0..<length (runtime_worker_threads_deadline rt)])) (wk s)\<rparr>
         else s)"
  using propagate_loop_exact [of rt "global_request_scheduler_peek (minheap_scheduler_config False dl)" "grq s" "highest_priority (grq s)"] assms
  by (simp add: propagate_sigalrm_def)

theorem propagate_sigalrm_exact_witness:
  "\<exists>s'. propagate_sigalrm \<lparr>scheduler = SCHEDULER_EDF, runtime_preemption_enabled = True,
      runtime_sigalrm_handler = RUNTIME_SIGALRM_HANDLER_TRIAGED, worker_thread_idx = 1,
      runtime_worker_threads_deadline = [9, 9, 3, 5]\<rparr>
      (global_request_scheduler_peek (minheap_scheduler_config False sample_deadline)) SI_KERNEL (sample_node SANDBOX_INTERRUPTED) = Inr s' \<and>
    calls (wk s') = [Pthread_Kill_Sigalrm 0, Pthread_Kill_Sigalrm 3]"
  by (subst propagate_sigalrm_exact)
    (simp_all add: sample_node_def sample_queue_def sample_deadline_def idle_worker_def call_out_def upt_rec)

text \<open>
  Claim C36: under FIFO the same failed allocation is not noticed. The sandbox was marked as an error
  and its client has been answered with 500, yet \<open>scheduler_fifo_get_next\<close> puts it on the run queue as
  runnable, without an HTTP session, and returns it as the sandbox to run.
\<close>

theorem scheduler_fifo_runs_failed_sandbox:
  assumes "\<not> SANDBOX_STATE_TOTALS b" and "\<not> allocs_ok (allocs r)"
    and "list_rep (runq (wk s)) []" and "x \<noteq> lhead (runq (wk s))" and "ps_list_singleton (lmem (runq (wk s))) x"
    and "deque_ok (grq s)" and "deque_list (grq s) = Some x # rest"
    and "sb_http (sandboxes (wk s) x) \<noteq> None" and "last_state_change (sandboxes (wk s) x) < t_prepare r"
    and "t_prepare r < t_runnable r"
  shows "\<exists>s'. scheduler_fifo_get_next b list_config deque_scheduler_config r s = Inr (Some x, s') \<and>
    state_of (wk s') x = SANDBOX_RUNNABLE \<and> list_rep (runq (wk s')) [x] \<and> sb_http (sandboxes (wk s') x) = None"
  by (rule fifo_pull_failed [OF assms])

theorem scheduler_fifo_runs_failed_sandbox_witness:
  "\<exists>s'. scheduler_fifo_get_next default_build list_config deque_scheduler_config (sample_readings None)
      (sample_fifo_node []) = Inr (Some 3, s') \<and>
    state_of (wk s') 3 = SANDBOX_RUNNABLE \<and> list_rep (runq (wk s')) [3] \<and> sb_http (sandboxes (wk s') 3) = None"
  by (rule scheduler_fifo_runs_failed_sandbox [of _ _ _ _ "[]"])
    (simp_all add: default_build_def allocs_ok_def sample_fifo_node_def sample_readings_def idle_worker_def zero_sandbox_def
      sample_ring_def list_rep_def ring_def ps_list_singleton_def ps_list_ll_empty_def deque_ok_def deque_list_def DEQUE_MAX_SZ_def)

end
