(* ===== verification/Mtds_Runqueue.thy ===== *)
theory Mtds_Runqueue
  imports Sandbox
begin

text \<open>
  The run queue of a worker under the multi-tenant policy, runtime/src/local_runqueue_mtds.c, where tenants are
  deferrable servers (runtime/include/tenant.h, tenant_functions.h). A tenant that pays has a budget that is
  replenished once in a period. While it has budget left its sandboxes go before those of all other tenants;
  when its budget is used up the worker demotes it, and a timeout promotes it again. The worker keeps the
  sandboxes of a tenant in a queue of their own and these queues in two heaps, one for each class.

  There is one entry of the array \<open>pwt_sandboxes\<close> of a tenant for this worker, so a pointer to it, and one to
  the timeout inside of it, is the tenant. What the operations read of sandboxes and tenants is collected in
  \<open>tenancy\<close>; \<open>clock\<close> is the reading of \<open>__getcycles()\<close>. Budgets are signed in the source.
\<close>

datatype mt_class = MT_DEFAULT | MT_GUARANTEED

record perworker_tenant_sandbox_queue =
  pwt_sandboxes :: "sandbox_ptr priority_queue"
  pwt_timeout :: u64
  pwt_class :: mt_class

record mtds_runqueue =
  mtds_guaranteed :: "nat priority_queue"
  mtds_default :: "nat priority_queue"
  timeout_queue :: "nat priority_queue"
  pwt :: "nat \<Rightarrow> perworker_tenant_sandbox_queue"

record tenancy =
  deadline :: "sandbox_ptr \<Rightarrow> u64"
  tenant_of :: "sandbox_ptr \<Rightarrow> nat"
  period :: "nat \<Rightarrow> u64"
  budget :: "nat \<Rightarrow> u64"
  boot :: u64
  clock :: u64

definition RUNTIME_MAX_TENANT_COUNT :: nat where "RUNTIME_MAX_TENANT_COUNT = 32"
definition RUNTIME_TENANT_QUEUE_SIZE :: nat where "RUNTIME_TENANT_QUEUE_SIZE = 4096"

text \<open>
  The priority of a tenant in the heap of its class: the deadline of the sandbox at its head. The queues of
  sandboxes have no lock, so that looking at the head of one cannot fail.
\<close>

definition head_priority :: "(sandbox_ptr \<Rightarrow> u64) \<Rightarrow> sandbox_ptr priority_queue \<Rightarrow> u64" where
  "head_priority dl q =
     (case priority_queue_top_nolock q of Inr (rc, Some p) \<Rightarrow> dl p | _ \<Rightarrow> UINT64_MAX)"

definition perworker_tenant_get_priority ::
  "(sandbox_ptr \<Rightarrow> u64) \<Rightarrow> (nat \<Rightarrow> perworker_tenant_sandbox_queue) \<Rightarrow> nat \<Rightarrow> u64" where
  "perworker_tenant_get_priority dl P t = head_priority dl (pwt_sandboxes (P t))"

definition tenant_timeout_get_priority :: "(nat \<Rightarrow> perworker_tenant_sandbox_queue) \<Rightarrow> nat \<Rightarrow> u64" where
  "tenant_timeout_get_priority P t = pwt_timeout (P t)"

definition get_next_timeout_of_tenant :: "u64 \<Rightarrow> u64 \<Rightarrow> u64 \<Rightarrow> u64 res" where
  "get_next_timeout_of_tenant runtime_boot_timestamp now rp =
     assertc (rp \<noteq> 0)
       (Inr (runtime_boot_timestamp +
          ((now - runtime_boot_timestamp) div rp + 1) * rp))"

definition class_queue :: "mtds_runqueue \<Rightarrow> mt_class \<Rightarrow> nat priority_queue" where
  "class_queue q c = (if c = MT_GUARANTEED then mtds_guaranteed q else mtds_default q)"

definition set_class_queue :: "mt_class \<Rightarrow> nat priority_queue \<Rightarrow> mtds_runqueue \<Rightarrow> mtds_runqueue" where
  "set_class_queue c d q = (if c = MT_GUARANTEED then q\<lparr>mtds_guaranteed := d\<rparr> else q\<lparr>mtds_default := d\<rparr>)"

definition upd_pwt ::
  "nat \<Rightarrow> (perworker_tenant_sandbox_queue \<Rightarrow> perworker_tenant_sandbox_queue) \<Rightarrow> mtds_runqueue \<Rightarrow> mtds_runqueue" where
  "upd_pwt t f q = q\<lparr>pwt := (pwt q)(t := f (pwt q t))\<rparr>"

definition local_runqueue_mtds_is_empty :: "mtds_runqueue \<Rightarrow> bool res" where
  "local_runqueue_mtds_is_empty q =
     bindr (priority_queue_length_nolock (mtds_guaranteed q)) (\<lambda>n.
       if n = 0 then bindr (priority_queue_length_nolock (mtds_default q)) (\<lambda>m. Inr (m = 0)) else Inr False)"

text \<open>The timeout of a tenant that pays is queued with its first sandbox.\<close>

definition queue_timeout :: "tenancy \<Rightarrow> nat \<Rightarrow> mtds_runqueue \<Rightarrow> mtds_runqueue res" where
  "queue_timeout e t q =
     (if period e t > 0
      then bindr (get_next_timeout_of_tenant (boot e) (clock e) (period e t)) (\<lambda>timeout.
           let q1 = upd_pwt t (\<lambda>x. x\<lparr>pwt_timeout := timeout\<rparr>) q
           in bindr (priority_queue_enqueue_nolock (tenant_timeout_get_priority (pwt q1)) (timeout_queue q1) t)
                (\<lambda>(rc, tq). Inr (q1\<lparr>timeout_queue := tq\<rparr>)))
      else Inr q)"

definition local_runqueue_mtds_add :: "tenancy \<Rightarrow> mtds_runqueue \<Rightarrow> sandbox_ptr \<Rightarrow> mtds_runqueue res" where
  "local_runqueue_mtds_add e q p =
     (let t = tenant_of e p; c = pwt_class (pwt q t); prev_pwt_deadline = priority_queue_peek (pwt_sandboxes (pwt q t))
      in bindr (priority_queue_enqueue_nolock (deadline e) (pwt_sandboxes (pwt q t)) p) (\<lambda>(rc, sb).
         if rc = - ENOSPC then Inl Panic
         else let q1 = upd_pwt t (\<lambda>x. x\<lparr>pwt_sandboxes := sb\<rparr>) q;
                  gp = perworker_tenant_get_priority (deadline e) (pwt q1)
         in bindr (priority_queue_length_nolock sb) (\<lambda>n.
         if n = 1
         then bindr (queue_timeout e t q1) (\<lambda>q2.
              bindr (priority_queue_enqueue_nolock gp (class_queue q2 c) t) (\<lambda>(rc, d). Inr (set_class_queue c d q2)))
         else if deadline e p < prev_pwt_deadline
         then bindr (priority_queue_delete_nolock False gp (class_queue q1 c) t) (\<lambda>(rc, d).
              assertc (rc = 0)
                (bindr (priority_queue_enqueue_nolock gp d t) (\<lambda>(rc, d').
                 if rc = - ENOSPC then Inl Panic else Inr (set_class_queue c d' q1))))
         else Inr q1)))"

definition local_runqueue_mtds_delete :: "tenancy \<Rightarrow> mtds_runqueue \<Rightarrow> sandbox_ptr \<Rightarrow> mtds_runqueue res" where
  "local_runqueue_mtds_delete e q p =
     (let t = tenant_of e p
      in bindr (priority_queue_delete_nolock False (deadline e) (pwt_sandboxes (pwt q t)) p) (\<lambda>(rc, sb).
         if rc = - 1 then Inl Panic
         else let q1 = upd_pwt t (\<lambda>x. x\<lparr>pwt_sandboxes := sb\<rparr>) q;
                  c = pwt_class (pwt q1 t);
                  gp = perworker_tenant_get_priority (deadline e) (pwt q1)
         in bindr (priority_queue_delete_nolock False gp (class_queue q1 c) t) (\<lambda>(rc, d).
         if rc = - 1 then Inl Panic
         else let q2 = set_class_queue c d q1
         in bindr (priority_queue_length_nolock sb) (\<lambda>n.
         if n > 0
         then bindr (priority_queue_enqueue_nolock gp d t) (\<lambda>(rc, d'). Inr (set_class_queue c d' q2))
         else if period e t > 0
         then bindr (priority_queue_delete_nolock False (tenant_timeout_get_priority (pwt q2)) (timeout_queue q2) t)
                (\<lambda>(rc, tq). Inr (upd_pwt t (\<lambda>x. x\<lparr>pwt_class := MT_GUARANTEED\<rparr>) (q2\<lparr>timeout_queue := tq\<rparr>)))
         else Inr q2))))"

text \<open>Promotion and demotion move a tenant from one heap to the other.\<close>

definition local_runqueue_mtds_promote :: "tenancy \<Rightarrow> mtds_runqueue \<Rightarrow> nat \<Rightarrow> mtds_runqueue res" where
  "local_runqueue_mtds_promote e q t =
     (let gp = perworker_tenant_get_priority (deadline e) (pwt q)
      in bindr (priority_queue_delete_nolock False gp (mtds_default q) t) (\<lambda>(rc, d).
         if rc = - 1 then Inl Panic
         else bindr (priority_queue_enqueue_nolock gp (mtds_guaranteed q) t) (\<lambda>(rc, g).
              if rc = - ENOSPC then Inl Panic else Inr (q\<lparr>mtds_default := d, mtds_guaranteed := g\<rparr>))))"

definition local_runqueue_mtds_demote :: "tenancy \<Rightarrow> mtds_runqueue \<Rightarrow> nat \<Rightarrow> mtds_runqueue res" where
  "local_runqueue_mtds_demote e q t =
     (let gp = perworker_tenant_get_priority (deadline e) (pwt q)
      in bindr (priority_queue_delete_nolock False gp (mtds_guaranteed q) t) (\<lambda>(rc, g).
         if rc = - 1 then Inl Panic
         else bindr (priority_queue_enqueue_nolock gp (mtds_default q) t) (\<lambda>(rc, d).
              if rc = - ENOSPC then Inl Panic else Inr (q\<lparr>mtds_guaranteed := g, mtds_default := d\<rparr>))))"

definition exhausted :: "tenancy \<Rightarrow> nat \<Rightarrow> bool" where
  "exhausted e t \<longleftrightarrow> sint (budget e t) \<le> 0"

text \<open>
  The loop of \<open>local_runqueue_mtds_get_next\<close> over the heap of guaranteed tenants. Every round demotes a
  tenant, so that heap shrinks.
\<close>

lemma percolate_down_size: "percolate_down_loop gp q i = Inr q' \<Longrightarrow> pq_size q' = pq_size q"
proof (induction gp q i rule: percolate_down_loop.induct)
  case (1 gp q i)
  show ?case
    using 1(2) [unfolded percolate_down_loop.simps [of gp q i]] 1(1) by (fastforce split: if_splits)
qed

lemma delete_search_size:
  "\<lbrakk>delete_search lt gp q v i = Inr (rc, q'); rc \<noteq> - 1; 1 \<le> i\<rbrakk> \<Longrightarrow> pq_size q' < pq_size q"
proof (induction lt gp q v i rule: delete_search.induct)
  case (1 lt gp q v i)
  have sz: "pq_size q' = pq_size q - 1" if "priority_queue_percolate_down lt gp (replace_with_last q i) i = Inr q'"
    using that by (auto simp: priority_queue_percolate_down_def priority_queue_is_empty_def replace_with_last_def
        priority_queue_update_highest_priority_def dest!: percolate_down_size split: if_splits)
  show ?case
    using 1(2) [unfolded delete_search.simps [of lt gp q v i]] 1(1) 1(3,4) sz by (fastforce split: if_splits)
qed

lemma demote_shrinks: "local_runqueue_mtds_demote e q t = Inr q' \<Longrightarrow> pq_size (mtds_guaranteed q') < pq_size (mtds_guaranteed q)"
  by (auto simp: local_runqueue_mtds_demote_def Let_def priority_queue_delete_nolock_def dest!: delete_search_size split: if_splits)

function demote_loop :: "tenancy \<Rightarrow> mtds_runqueue \<Rightarrow> (nat option \<times> mtds_runqueue) res" where
  "demote_loop e q =
     bindr (priority_queue_top_nolock (mtds_guaranteed q)) (\<lambda>(rc, next_pwt).
       if rc = - ENOENT then Inr (None, q)
       else case next_pwt of
              None \<Rightarrow> Inl Null_Dereference
            | Some t \<Rightarrow>
                if exhausted e t
                then bindr (local_runqueue_mtds_demote e q t) (\<lambda>q1. demote_loop e (upd_pwt t (\<lambda>x. x\<lparr>pwt_class := MT_DEFAULT\<rparr>) q1))
                else Inr (Some t, q))"
  by pat_completeness auto
termination
  by (relation "measure (\<lambda>(e, q). pq_size (mtds_guaranteed q))") (auto simp: upd_pwt_def dest!: demote_shrinks)

definition local_runqueue_mtds_get_next :: "tenancy \<Rightarrow> mtds_runqueue \<Rightarrow> (sandbox_ptr option \<times> mtds_runqueue) res" where
  "local_runqueue_mtds_get_next e q =
     bindr (demote_loop e q) (\<lambda>(guaranteed, q1).
     bindr (case guaranteed of
              Some t \<Rightarrow> Inr (Some t)
            | None \<Rightarrow> bindr (priority_queue_top_nolock (mtds_default q1)) (\<lambda>(rc, x). Inr (if rc = - ENOENT then None else x)))
       (\<lambda>next_pwt. case next_pwt of
          None \<Rightarrow> Inr (None, q1)
        | Some t \<Rightarrow> bindr (priority_queue_top_nolock (pwt_sandboxes (pwt q1 t))) (\<lambda>(rc, next_sandbox).
            assertc (next_sandbox \<noteq> None) (Inr (next_sandbox, q1)))))"

definition mtds_config :: "tenancy \<Rightarrow> mtds_runqueue local_runqueue_config" where
  "mtds_config e = \<lparr>add_fn = Some (local_runqueue_mtds_add e),
     is_empty_fn = Some local_runqueue_mtds_is_empty,
     delete_fn = Some (local_runqueue_mtds_delete e),
     get_next_fn = Some (local_runqueue_mtds_get_next e)\<rparr>"

text \<open>What \<open>tenant_policy_specific_init\<close> makes for each worker.\<close>

definition perworker_tenant_init :: "u64 \<Rightarrow> perworker_tenant_sandbox_queue" where
  "perworker_tenant_init rp =
     \<lparr>pwt_sandboxes = priority_queue_initialize RUNTIME_TENANT_QUEUE_SIZE False, pwt_timeout = 0,
      pwt_class = (if rp = 0 then MT_DEFAULT else MT_GUARANTEED)\<rparr>"

text \<open>The timeout queue is made by the worker thread itself, right after the run queue.\<close>

definition local_runqueue_mtds_initialize ::
  "tenancy \<Rightarrow> (nat \<Rightarrow> perworker_tenant_sandbox_queue) \<Rightarrow> mtds_runqueue \<times> mtds_runqueue local_runqueue_config" where
  "local_runqueue_mtds_initialize e P =
     (\<lparr>mtds_guaranteed = priority_queue_initialize RUNTIME_MAX_TENANT_COUNT False,
       mtds_default = priority_queue_initialize RUNTIME_MAX_TENANT_COUNT False,
       timeout_queue = priority_queue_initialize RUNTIME_MAX_TENANT_COUNT False, pwt = P\<rparr>, mtds_config e)"

text \<open>
  The promotions on a timer signal. \<open>promote_due\<close> is the body of the loop: it promotes the tenant whose
  timeout is due, if it was demoted, and queues its next timeout. The loop reads the clock once in each
  round; the readings are a list, and when it is used up the loop has not returned yet.
\<close>

definition promote_due :: "tenancy \<Rightarrow> u64 \<Rightarrow> mtds_runqueue \<Rightarrow> nat \<Rightarrow> (nat \<times> mtds_runqueue) res" where
  "promote_due e now q t =
     bindr (priority_queue_length_nolock (pwt_sandboxes (pwt q t))) (\<lambda>n.
     assertc (n > 0)
       (bindr
         (if pwt_class (pwt q t) = MT_DEFAULT
          then bindr (local_runqueue_mtds_promote e q t) (\<lambda>q1. Inr (upd_pwt t (\<lambda>x. x\<lparr>pwt_class := MT_GUARANTEED\<rparr>) q1))
          else Inr q)
         (\<lambda>q1. bindr (priority_queue_delete_nolock False (tenant_timeout_get_priority (pwt q1)) (timeout_queue q1) t) (\<lambda>(rc, tq).
          bindr (get_next_timeout_of_tenant (boot e) now (period e t)) (\<lambda>timeout.
          let q2 = upd_pwt t (\<lambda>x. x\<lparr>pwt_timeout := timeout\<rparr>) q1
          in bindr (priority_queue_enqueue_nolock (tenant_timeout_get_priority (pwt q2)) tq t) (\<lambda>(rc, tq').
             bindr (priority_queue_top_nolock tq') (\<lambda>(rc, top_timeout).
             case top_timeout of
               None \<Rightarrow> if rc = - ENOENT then Inr (t, q2\<lparr>timeout_queue := tq'\<rparr>) else Inl Null_Dereference
             | Some t' \<Rightarrow> Inr (t', q2\<lparr>timeout_queue := tq'\<rparr>))))))))"

fun promotions_loop :: "tenancy \<Rightarrow> u64 \<Rightarrow> u64 list \<Rightarrow> mtds_runqueue \<Rightarrow> nat \<Rightarrow> mtds_runqueue res option" where
  "promotions_loop e now readings q t =
     (if now < pwt_timeout (pwt q t) then Some (Inr q)
      else case readings of
             [] \<Rightarrow> None
           | r # rs \<Rightarrow> (case promote_due e r q t of Inl a \<Rightarrow> Some (Inl a) | Inr (t', q') \<Rightarrow> promotions_loop e now rs q' t'))"

definition local_timeout_queue_process_promotions ::
  "tenancy \<Rightarrow> u64 list \<Rightarrow> mtds_runqueue \<Rightarrow> mtds_runqueue res option" where
  "local_timeout_queue_process_promotions e readings q =
     (case priority_queue_top_nolock (timeout_queue q) of
        Inl a \<Rightarrow> Some (Inl a)
      | Inr (rc, None) \<Rightarrow> Some (Inr q)
      | Inr (rc, Some t) \<Rightarrow> promotions_loop e (clock e) readings q t)"

subsection \<open>What the run queue holds\<close>

definition heap_holds :: "'a priority_queue \<Rightarrow> nat \<Rightarrow> 'a set \<Rightarrow> bool" where
  "heap_holds q n X \<longleftrightarrow> pq_shape q \<and> lock_ok q \<and> pq_capacity q = n \<and> pq_contents q = mset_set X \<and> finite X"

definition queue_holds :: "'a priority_queue \<Rightarrow> nat \<Rightarrow> 'a multiset \<Rightarrow> bool" where
  "queue_holds q n A \<longleftrightarrow> pq_shape q \<and> lock_ok q \<and> pq_capacity q = n \<and> pq_contents q = A"

definition paid :: "tenancy \<Rightarrow> nat \<Rightarrow> bool" where
  "paid e t \<longleftrightarrow> period e t > 0"

text \<open>The sandboxes \<open>A\<close> are queued with their tenants, who are among the tenants \<open>T\<close>.\<close>

definition mtds_rep :: "tenancy \<Rightarrow> nat set \<Rightarrow> mtds_runqueue \<Rightarrow> sandbox_ptr multiset \<Rightarrow> bool" where
  "mtds_rep e T q A \<longleftrightarrow> finite T \<and> card T \<le> RUNTIME_MAX_TENANT_COUNT \<and> tenant_of e ` set_mset A \<subseteq> T \<and>
     (\<forall>t. queue_holds (pwt_sandboxes (pwt q t)) RUNTIME_TENANT_QUEUE_SIZE (filter_mset (\<lambda>p. tenant_of e p = t) A)) \<and>
     (\<forall>c. heap_holds (class_queue q c) RUNTIME_MAX_TENANT_COUNT {t \<in> tenant_of e ` set_mset A. pwt_class (pwt q t) = c}) \<and>
     heap_holds (timeout_queue q) RUNTIME_MAX_TENANT_COUNT {t \<in> tenant_of e ` set_mset A. paid e t} \<and>
     (\<forall>t. \<not> paid e t \<longrightarrow> pwt_class (pwt q t) = MT_DEFAULT)"

text \<open>The heaps are in order: those of sandboxes by deadline, those of tenants by the deadline at their head.\<close>

definition mtds_ordered :: "tenancy \<Rightarrow> mtds_runqueue \<Rightarrow> bool" where
  "mtds_ordered e q \<longleftrightarrow> (\<forall>t. pq_order (deadline e) (pwt_sandboxes (pwt q t))) \<and>
     (\<forall>c. pq_order (perworker_tenant_get_priority (deadline e) (pwt q)) (class_queue q c))"

lemma heap_enqueue:
  assumes "heap_holds q n X" "v \<notin> X" "card X < n"
  shows "\<exists>q'. priority_queue_enqueue_nolock gp q v = Inr (0, q') \<and> heap_holds q' n (insert v X) \<and>
    (pq_order gp q \<longrightarrow> pq_order gp q') \<and> (pq_memo gp q \<longrightarrow> pq_memo gp q')"
proof -
  have q: "pq_shape q" "lock_ok q" "pq_capacity q = n" "pq_contents q = mset_set X" "finite X"
    using assms(1) by (auto simp: heap_holds_def)
  have "pq_size q < pq_capacity q" using size_pq_contents [OF q(1)] q assms(3) by simp
  from enqueue_nolock_shape [OF q(1,2) this, of gp v] show ?thesis
    using q assms(2) by (auto simp: heap_holds_def lock_ok_def)
qed

lemma queue_enqueue:
  assumes "queue_holds q n A" "size A < n"
  shows "\<exists>q'. priority_queue_enqueue_nolock gp q v = Inr (0, q') \<and> queue_holds q' n (add_mset v A) \<and>
    (pq_order gp q \<longrightarrow> pq_order gp q')"
proof -
  have q: "pq_shape q" "lock_ok q" "pq_capacity q = n" "pq_contents q = A" using assms(1) by (auto simp: queue_holds_def)
  have "pq_size q < pq_capacity q" using size_pq_contents [OF q(1)] q assms(2) by simp
  from enqueue_nolock_shape [OF q(1,2) this, of gp v] show ?thesis using q by (auto simp: queue_holds_def lock_ok_def)
qed

lemma queue_full:
  assumes "queue_holds q n A" "\<not> size A < n"
  shows "priority_queue_enqueue_nolock gp q v = Inr (- ENOSPC, q)"
  using assms size_pq_contents [of q] by (intro enqueue_nolock_full) (auto simp: queue_holds_def pq_shape_def)

text \<open>
  Deletion keeps the order when the root is deleted. The priority of the deleted element may have changed
  from \<open>gp\<close> to \<open>gp'\<close>.
\<close>

lemma queue_delete:
  assumes "queue_holds q n A" "v \<in># A" "\<And>x. x \<in># A - {#v#} \<Longrightarrow> gp' x = gp x"
  shows "\<exists>q'. priority_queue_delete_nolock False gp' q v = Inr (0, q') \<and> queue_holds q' n (A - {#v#}) \<and>
    (pq_order gp q \<and> pq_items q ! 1 = Some v \<longrightarrow> pq_order gp' q') \<and> (pq_memo gp q \<longrightarrow> pq_memo gp' q')"
proof -
  have q: "pq_shape q" "lock_ok q" "v \<in># pq_contents q" "pq_contents q = A" "pq_capacity q = n"
    using assms by (auto simp: queue_holds_def)
  obtain q' j where q': "priority_queue_delete_nolock False gp' q v = Inr (0, q')" "pq_shape q'"
    "pq_contents q' = pq_contents q - {#v#}" "use_lock q' = use_lock q" "locked q' = locked q" "pq_capacity q' = pq_capacity q"
    "1 \<le> j" "\<forall>j'. 1 \<le> j' \<longrightarrow> j' < j \<longrightarrow> pq_items q ! j' \<noteq> Some v" "pq_order gp q \<and> j = 1 \<longrightarrow> pq_order gp' q'"
    "pq_memo gp q \<longrightarrow> pq_memo gp' q'"
    using delete_nolock_shape [OF q(1-3), of gp' gp] assms(3) q(4) by auto
  have "j = 1" if "pq_items q ! 1 = Some v" using q'(7,8) that by (metis le_eq_less_or_eq order_refl)
  with q' q show ?thesis by (auto simp: queue_holds_def lock_ok_def)
qed

lemma queue_holds_of_heap: "heap_holds q n X \<Longrightarrow> queue_holds q n (mset_set X)"
  by (simp add: heap_holds_def queue_holds_def)

lemma heap_delete:
  assumes "heap_holds q n X" "v \<in> X" "\<And>x. x \<in> X - {v} \<Longrightarrow> gp' x = gp x"
  shows "\<exists>q'. priority_queue_delete_nolock False gp' q v = Inr (0, q') \<and> heap_holds q' n (X - {v}) \<and>
    (pq_order gp q \<and> pq_items q ! 1 = Some v \<longrightarrow> pq_order gp' q') \<and> (pq_memo gp q \<longrightarrow> pq_memo gp' q')"
proof -
  have X: "finite X" using assms(1) by (simp add: heap_holds_def)
  have d: "mset_set X - {#v#} = mset_set (X - {v})" using X assms(2) by (simp add: mset_set_Diff)
  then have "\<And>x. x \<in># mset_set X - {#v#} \<Longrightarrow> gp' x = gp x" using X assms(3) by simp
  from queue_delete [OF queue_holds_of_heap [OF assms(1)], of v gp' gp, OF _ this] show ?thesis
    using assms(2) X unfolding d by (auto simp: heap_holds_def queue_holds_def)
qed

lemma queue_top:
  assumes "queue_holds q n A"
  shows "priority_queue_top_nolock q = Inr (if A = {#} then - ENOENT else 0, if A = {#} then None else pq_items q ! 1)"
    and "A \<noteq> {#} \<Longrightarrow> \<exists>x. pq_items q ! 1 = Some x \<and> x \<in># A"
    and "A \<noteq> {#} \<Longrightarrow> pq_order gp q \<Longrightarrow> pq_items q ! 1 = Some x \<Longrightarrow> y \<in># A \<Longrightarrow> gp x \<le> gp y"
proof -
  have q: "pq_shape q" "lock_ok q" "pq_contents q = A" using assms by (auto simp: queue_holds_def)
  have e: "A = {#} \<longleftrightarrow> pq_size q = 0" using size_pq_contents [OF q(1)] q(3) by force
  then show "priority_queue_top_nolock q = Inr (if A = {#} then - ENOENT else 0, if A = {#} then None else pq_items q ! 1)"
    using q read_slot_ok [OF q(1), of 1]
    by (auto simp: priority_queue_top_nolock_def priority_queue_is_empty_def Suc_le_eq)
  assume A: "A \<noteq> {#}"
  then have n: "1 \<le> pq_size q" using e by simp
  then obtain p where p: "pq_items q ! 1 = Some p" using shape_slot [OF q(1), of 1] by auto
  have "p \<in># pq_contents q" unfolding in_pq_contents_conv [OF q(1)] using p n by (intro exI [of _ 1]) auto
  with p q(3) show "\<exists>x. pq_items q ! 1 = Some x \<and> x \<in># A" by blast
  assume "pq_order gp q" "pq_items q ! 1 = Some x" "y \<in># A"
  then show "gp x \<le> gp y" using root_is_least [OF q(1), of gp y] q(3) by (simp add: key_def)
qed

lemma heap_top:
  assumes "heap_holds q n X"
  shows "priority_queue_top_nolock q = Inr (if X = {} then - ENOENT else 0, if X = {} then None else pq_items q ! 1)"
    and "X \<noteq> {} \<Longrightarrow> \<exists>x. pq_items q ! 1 = Some x \<and> x \<in> X"
    and "X \<noteq> {} \<Longrightarrow> pq_order gp q \<Longrightarrow> pq_items q ! 1 = Some x \<Longrightarrow> y \<in> X \<Longrightarrow> gp x \<le> gp y"
proof -
  have X: "finite X" using assms by (simp add: heap_holds_def)
  note t = queue_top [OF queue_holds_of_heap [OF assms]]
  have e: "mset_set X = {#} \<longleftrightarrow> X = {}" using X by (simp add: mset_set_empty_iff)
  show "priority_queue_top_nolock q = Inr (if X = {} then - ENOENT else 0, if X = {} then None else pq_items q ! 1)"
    using t(1) e by simp
  show "\<exists>x. pq_items q ! 1 = Some x \<and> x \<in> X" if "X \<noteq> {}" using t(2) that e X by simp
  show "gp x \<le> gp y" if "X \<noteq> {}" "pq_order gp q" "pq_items q ! 1 = Some x" "y \<in> X"
    using t(3) [of gp x y] that e X by simp
qed

lemma queue_length: "queue_holds q n A \<Longrightarrow> priority_queue_length_nolock q = Inr (size A)"
  using size_pq_contents [of q] by (auto simp: queue_holds_def priority_queue_length_nolock_def)

lemma heap_length: "heap_holds q n X \<Longrightarrow> priority_queue_length_nolock q = Inr (card X)"
  using queue_length [OF queue_holds_of_heap] by simp

lemma mtds_update_simps [simp]:
  "class_queue (upd_pwt t f q) c = class_queue q c" "timeout_queue (upd_pwt t f q) = timeout_queue q"
  "pwt (upd_pwt t f q) = (pwt q)(t := f (pwt q t))"
  "class_queue (set_class_queue c d q) c' = (if c = c' then d else class_queue q c')"
  "timeout_queue (set_class_queue c d q) = timeout_queue q" "pwt (set_class_queue c d q) = pwt q"
  "class_queue (q\<lparr>timeout_queue := tq\<rparr>) c = class_queue q c"
  by (cases c; cases c'; simp add: upd_pwt_def class_queue_def set_class_queue_def)+

lemma mtds_rep_parts:
  assumes "mtds_rep e T q A"
  shows "finite T" "card T \<le> RUNTIME_MAX_TENANT_COUNT" "tenant_of e ` set_mset A \<subseteq> T"
    "\<And>t. queue_holds (pwt_sandboxes (pwt q t)) RUNTIME_TENANT_QUEUE_SIZE (filter_mset (\<lambda>p. tenant_of e p = t) A)"
    "\<And>c. heap_holds (class_queue q c) RUNTIME_MAX_TENANT_COUNT {t \<in> tenant_of e ` set_mset A. pwt_class (pwt q t) = c}"
    "heap_holds (timeout_queue q) RUNTIME_MAX_TENANT_COUNT {t \<in> tenant_of e ` set_mset A. paid e t}"
    "\<And>t. \<not> paid e t \<Longrightarrow> pwt_class (pwt q t) = MT_DEFAULT"
  using assms by (auto simp: mtds_rep_def)

lemma next_timeout_ok: "paid e t \<Longrightarrow> \<exists>timeout. get_next_timeout_of_tenant b now (period e t) = Inr timeout"
  by (auto simp: get_next_timeout_of_tenant_def paid_def)

lemma active_card:
  assumes "mtds_rep e T q A" "t \<in> T" "t \<notin> tenant_of e ` set_mset A"
  shows "card {t' \<in> tenant_of e ` set_mset A. P t'} < RUNTIME_MAX_TENANT_COUNT"
proof -
  have "{t' \<in> tenant_of e ` set_mset A. P t'} \<subseteq> T - {t}" using mtds_rep_parts(3) [OF assms(1)] assms(3) by auto
  then have "card {t' \<in> tenant_of e ` set_mset A. P t'} \<le> card (T - {t})"
    using mtds_rep_parts(1) [OF assms(1)] by (intro card_mono) auto
  also have "\<dots> < card T" using assms(2) mtds_rep_parts(1) [OF assms(1)] by (intro psubset_card_mono) auto
  finally show ?thesis using mtds_rep_parts(2) [OF assms(1)] by simp
qed

lemma filter_tenant_empty: "filter_mset (\<lambda>p. tenant_of e p = t) A = {#} \<longleftrightarrow> t \<notin> tenant_of e ` set_mset A"
  unfolding set_mset_eq_empty_iff [symmetric] by auto

lemma insert_active:
  "{t' \<in> tenant_of e ` set_mset (add_mset p A). P t'} =
    (if P (tenant_of e p) then insert (tenant_of e p) {t' \<in> tenant_of e ` set_mset A. P t'} else {t' \<in> tenant_of e ` set_mset A. P t'})"
  by auto

lemma queue_timeout_ok:
  assumes "heap_holds (timeout_queue q) n X" "t \<notin> X" "card X < n"
  shows "\<exists>q'. queue_timeout e t q = Inr q' \<and> class_queue q' = class_queue q \<and>
    heap_holds (timeout_queue q') n (if paid e t then insert t X else X) \<and>
    pwt_sandboxes (pwt q' t) = pwt_sandboxes (pwt q t) \<and> pwt_class (pwt q' t) = pwt_class (pwt q t) \<and>
    (\<forall>t'. t' \<noteq> t \<longrightarrow> pwt q' t' = pwt q t')"
proof (cases "paid e t")
  case True
  then obtain tm where tm: "get_next_timeout_of_tenant (boot e) (clock e) (period e t) = Inr tm" using next_timeout_ok by blast
  let ?q = "upd_pwt t (\<lambda>x. x\<lparr>pwt_timeout := tm\<rparr>) q"
  obtain tq where "priority_queue_enqueue_nolock (tenant_timeout_get_priority (pwt ?q)) (timeout_queue q) t = Inr (0, tq)"
    "heap_holds tq n (insert t X)"
    using heap_enqueue [OF assms, of "tenant_timeout_get_priority (pwt ?q)"] by blast
  then show ?thesis
    using True tm by (intro exI [of _ "?q\<lparr>timeout_queue := tq\<rparr>"]) (auto simp: queue_timeout_def paid_def Let_def fun_eq_iff)
qed (use assms in \<open>auto simp: queue_timeout_def paid_def\<close>)

lemma mtds_add_first:
  assumes rep: "mtds_rep e T q A" and t: "tenant_of e p \<in> T" "tenant_of e p \<notin> tenant_of e ` set_mset A"
  shows "\<exists>q'. local_runqueue_mtds_add e q p = Inr q' \<and> mtds_rep e T q' (add_mset p A)"
proof -
  define tn where "tn = tenant_of e p"
  define c where "c = pwt_class (pwt q tn)"
  note r = mtds_rep_parts [OF rep] and room = active_card [OF rep t]
  have f: "filter_mset (\<lambda>x. tenant_of e x = tn) A = {#}" using t(2) unfolding filter_tenant_empty tn_def .
  obtain sb where sb: "priority_queue_enqueue_nolock (deadline e) (pwt_sandboxes (pwt q tn)) p = Inr (0, sb)"
    "queue_holds sb RUNTIME_TENANT_QUEUE_SIZE {#p#}"
    using queue_enqueue [OF r(4) [of tn, unfolded f], of "deadline e" p] by (auto simp: RUNTIME_TENANT_QUEUE_SIZE_def)
  define q1 where "q1 = upd_pwt tn (\<lambda>x. x\<lparr>pwt_sandboxes := sb\<rparr>) q"
  define gp where "gp = perworker_tenant_get_priority (deadline e) (pwt q1)"
  have q1: "timeout_queue q1 = timeout_queue q" "class_queue q1 = class_queue q" "pwt_sandboxes (pwt q1 tn) = sb"
    "pwt_class (pwt q1 tn) = c" "\<And>t'. t' \<noteq> tn \<Longrightarrow> pwt q1 t' = pwt q t'"
    by (simp_all add: q1_def c_def fun_eq_iff)
  have tn: "tn \<notin> {t \<in> tenant_of e ` set_mset A. P t}" for P using t(2) by (simp add: tn_def)
  obtain q2 where q2: "queue_timeout e tn q1 = Inr q2" "class_queue q2 = class_queue q"
    "heap_holds (timeout_queue q2) RUNTIME_MAX_TENANT_COUNT {t \<in> tenant_of e ` set_mset (add_mset p A). paid e t}"
    "pwt_sandboxes (pwt q2 tn) = sb" "pwt_class (pwt q2 tn) = c" "\<And>t'. t' \<noteq> tn \<Longrightarrow> pwt q2 t' = pwt q t'"
  proof -
    from queue_timeout_ok [OF r(6) [folded q1(1)] tn room, of e] obtain q2 where "queue_timeout e tn q1 = Inr q2"
      "class_queue q2 = class_queue q1" "pwt_sandboxes (pwt q2 tn) = pwt_sandboxes (pwt q1 tn)"
      "heap_holds (timeout_queue q2) RUNTIME_MAX_TENANT_COUNT
        (if paid e tn then insert tn {t \<in> tenant_of e ` set_mset A. paid e t} else {t \<in> tenant_of e ` set_mset A. paid e t})"
      "pwt_class (pwt q2 tn) = pwt_class (pwt q1 tn)" "\<forall>t'. t' \<noteq> tn \<longrightarrow> pwt q2 t' = pwt q1 t'" by blast
    then show thesis using that [of q2] q1(2-5) unfolding insert_active tn_def [symmetric] by simp
  qed
  obtain d where d: "priority_queue_enqueue_nolock gp (class_queue q c) tn = Inr (0, d)"
    "heap_holds d RUNTIME_MAX_TENANT_COUNT (insert tn {t \<in> tenant_of e ` set_mset A. pwt_class (pwt q t) = c})"
    using heap_enqueue [OF r(5) [of c] tn room, of gp] by blast
  have "local_runqueue_mtds_add e q p = Inr (set_class_queue c d q2)"
    using sb queue_length [OF sb(2)] q2(1,2) d(1)
    by (auto simp: local_runqueue_mtds_add_def Let_def tn_def c_def q1_def gp_def ENOSPC_def)
  moreover have "mtds_rep e T (set_class_queue c d q2) (add_mset p A)"
    unfolding mtds_rep_def
  proof (intro conjI allI impI)
    show "finite T" "card T \<le> RUNTIME_MAX_TENANT_COUNT" by (rule r)+
    show "tenant_of e ` set_mset (add_mset p A) \<subseteq> T" using r(3) t(1) by simp
    show "heap_holds (timeout_queue (set_class_queue c d q2)) RUNTIME_MAX_TENANT_COUNT
        {t \<in> tenant_of e ` set_mset (add_mset p A). paid e t}" using q2(3) by simp
    fix t'
    show "queue_holds (pwt_sandboxes (pwt (set_class_queue c d q2) t')) RUNTIME_TENANT_QUEUE_SIZE
        (filter_mset (\<lambda>x. tenant_of e x = t') (add_mset p A))"
      using sb(2) q2(4) q2(6) [of t'] r(4) [of t'] by (cases "t' = tn") (simp_all add: tn_def [symmetric] f)
    show "pwt_class (pwt (set_class_queue c d q2) t') = MT_DEFAULT" if "\<not> paid e t'"
      using that r(7) q2(5) q2(6) [of t'] by (cases "t' = tn") (auto simp: c_def)
  next
    fix c'
    have s: "{t \<in> tenant_of e ` set_mset A. pwt_class (pwt q2 t) = c'} = {t \<in> tenant_of e ` set_mset A. pwt_class (pwt q t) = c'}"
      using t(2) q2(6) by (intro Collect_cong) (metis tn_def)
    show "heap_holds (class_queue (set_class_queue c d q2) c') RUNTIME_MAX_TENANT_COUNT
        {t \<in> tenant_of e ` set_mset (add_mset p A). pwt_class (pwt (set_class_queue c d q2) t) = c'}"
      unfolding mtds_update_simps insert_active s using d(2) r(5) [of c'] q2(2,5) by (auto simp: tn_def [symmetric])
  qed
  ultimately show ?thesis by blast
qed

lemma heap_reinsert:
  assumes "heap_holds q n X" "v \<in> X" "card X \<le> n"
  shows "\<exists>d d'. priority_queue_delete_nolock False gp q v = Inr (0, d) \<and> heap_holds d n (X - {v}) \<and>
    priority_queue_enqueue_nolock gp d v = Inr (0, d') \<and> heap_holds d' n X"
proof -
  obtain d where d: "priority_queue_delete_nolock False gp q v = Inr (0, d)" "heap_holds d n (X - {v})"
    using heap_delete [OF assms(1,2), of gp gp] by blast
  have X: "finite X" "insert v (X - {v}) = X" using assms(1,2) by (auto simp: heap_holds_def)
  have "card (X - {v}) < n" using assms(2,3) X(1) card_Diff1_less [of X v] by linarith
  from heap_enqueue [OF d(2) _ this, of v gp] show ?thesis using d X(2) by auto
qed

lemma class_card: "mtds_rep e T q A \<Longrightarrow> card {t \<in> tenant_of e ` set_mset A. P t} \<le> RUNTIME_MAX_TENANT_COUNT"
proof -
  assume rep: "mtds_rep e T q A"
  have "{t \<in> tenant_of e ` set_mset A. P t} \<subseteq> T" using mtds_rep_parts(3) [OF rep] by auto
  then show ?thesis using card_mono [OF mtds_rep_parts(1) [OF rep]] mtds_rep_parts(2) [OF rep] by (meson order_trans)
qed

lemma mtds_add_more:
  assumes rep: "mtds_rep e T q A" and t: "tenant_of e p \<in> tenant_of e ` set_mset A"
    and room: "size (filter_mset (\<lambda>x. tenant_of e x = tenant_of e p) A) < RUNTIME_TENANT_QUEUE_SIZE"
  shows "\<exists>q'. local_runqueue_mtds_add e q p = Inr q' \<and> mtds_rep e T q' (add_mset p A)"
proof -
  define tn where "tn = tenant_of e p"
  define c where "c = pwt_class (pwt q tn)"
  let ?F = "filter_mset (\<lambda>x. tenant_of e x = tn) A"
  note r = mtds_rep_parts [OF rep]
  have F: "size ?F \<noteq> 0" using t filter_tenant_empty [of e tn A] by (simp add: tn_def)
  obtain sb where sb: "priority_queue_enqueue_nolock (deadline e) (pwt_sandboxes (pwt q tn)) p = Inr (0, sb)"
    "queue_holds sb RUNTIME_TENANT_QUEUE_SIZE (add_mset p ?F)"
    using queue_enqueue [OF r(4) [of tn], of "deadline e" p] room by (auto simp: tn_def)
  define q1 where "q1 = upd_pwt tn (\<lambda>x. x\<lparr>pwt_sandboxes := sb\<rparr>) q"
  define gp where "gp = perworker_tenant_get_priority (deadline e) (pwt q1)"
  let ?X = "{t \<in> tenant_of e ` set_mset A. pwt_class (pwt q t) = c}"
  obtain d d' where d: "priority_queue_delete_nolock False gp (class_queue q c) tn = Inr (0, d)"
    "priority_queue_enqueue_nolock gp d tn = Inr (0, d')" "heap_holds d' RUNTIME_MAX_TENANT_COUNT ?X"
    using heap_reinsert [OF r(5) [of c], of tn gp] t class_card [OF rep] by (auto simp: tn_def c_def)
  define q' where "q' = (if deadline e p < priority_queue_peek (pwt_sandboxes (pwt q tn)) then set_class_queue c d' q1 else q1)"
  have "local_runqueue_mtds_add e q p = Inr q'"
    using sb queue_length [OF sb(2)] d(1,2) F
    by (auto simp: local_runqueue_mtds_add_def Let_def tn_def c_def q1_def q'_def gp_def ENOSPC_def)
  moreover have "mtds_rep e T q' (add_mset p A)"
  proof -
    have B: "tenant_of e ` set_mset (add_mset p A) = tenant_of e ` set_mset A" using t by (simp add: insert_absorb)
    have cl: "pwt_class (pwt q' t') = pwt_class (pwt q t')" for t' by (simp add: q'_def q1_def)
    have "queue_holds (pwt_sandboxes (pwt q' t')) RUNTIME_TENANT_QUEUE_SIZE (filter_mset (\<lambda>x. tenant_of e x = t') (add_mset p A))" for t'
      using sb(2) r(4) [of t'] by (auto simp: q'_def q1_def tn_def)
    moreover have "heap_holds (class_queue q' c') RUNTIME_MAX_TENANT_COUNT {t \<in> tenant_of e ` set_mset A. pwt_class (pwt q t) = c'}" for c'
      using r(5) [of c'] d(3) by (cases "c' = c") (simp_all add: q'_def q1_def)
    moreover have "timeout_queue q' = timeout_queue q" by (simp add: q'_def q1_def)
    ultimately show ?thesis using r unfolding mtds_rep_def B cl by simp
  qed
  ultimately show ?thesis by blast
qed

lemma mtds_add_full:
  assumes rep: "mtds_rep e T q A"
    and room: "\<not> size (filter_mset (\<lambda>x. tenant_of e x = tenant_of e p) A) < RUNTIME_TENANT_QUEUE_SIZE"
  shows "local_runqueue_mtds_add e q p = Inl Panic"
  using queue_full [OF mtds_rep_parts(4) [OF rep] room] by (simp add: local_runqueue_mtds_add_def)

text \<open>A tenant stays active as long as it has another sandbox.\<close>

lemma remove_active:
  assumes "p \<in># A"
  shows "tenant_of e ` set_mset (A - {#p#}) =
    (if filter_mset (\<lambda>x. tenant_of e x = tenant_of e p) A - {#p#} = {#}
     then tenant_of e ` set_mset A - {tenant_of e p} else tenant_of e ` set_mset A)"
proof -
  obtain B where A: "A = add_mset p B" using assms by (meson multi_member_split)
  show ?thesis
    unfolding A using filter_tenant_empty [of e "tenant_of e p" B] by (auto simp del: set_mset_eq_empty_iff)
qed

lemma mtds_rep_removed:
  fixes e A p defines "t \<equiv> tenant_of e p" and "B \<equiv> tenant_of e ` set_mset A"
    and "F \<equiv> filter_mset (\<lambda>x. tenant_of e x = tenant_of e p) A - {#p#}"
  assumes rep: "mtds_rep e T q A" and p: "p \<in># A" and c: "c = pwt_class (pwt q t)"
    and sb: "queue_holds sb RUNTIME_TENANT_QUEUE_SIZE F"
      "\<And>t'. pwt_sandboxes (pwt q' t') = (if t' = t then sb else pwt_sandboxes (pwt q t'))"
    and d: "heap_holds d RUNTIME_MAX_TENANT_COUNT ({t' \<in> B. pwt_class (pwt q t') = c} - (if F = {#} then {t} else {}))"
      "\<And>c'. class_queue q' c' = (if c = c' then d else class_queue q c')"
    and tq: "heap_holds (timeout_queue q') RUNTIME_MAX_TENANT_COUNT ({t' \<in> B. paid e t'} - (if F = {#} then {t} else {}))"
    and cl: "\<And>t'. pwt_class (pwt q' t') = (if t' = t \<and> F = {#} \<and> paid e t then MT_GUARANTEED else pwt_class (pwt q t'))"
  shows "mtds_rep e T q' (A - {#p#})"
proof -
  note r = mtds_rep_parts [OF rep, folded B_def]
  let ?B' = "tenant_of e ` set_mset (A - {#p#})"
  have B': "?B' = B - (if F = {#} then {t} else {})"
    using remove_active [OF p, of e] unfolding B_def F_def t_def by simp
  have "queue_holds (pwt_sandboxes (pwt q' t')) RUNTIME_TENANT_QUEUE_SIZE (filter_mset (\<lambda>x. tenant_of e x = t') (A - {#p#}))" for t'
    using sb r(4) [of t'] by (cases "t' = t") (auto simp: t_def F_def)
  moreover have "heap_holds (class_queue q' c') RUNTIME_MAX_TENANT_COUNT {t' \<in> ?B'. pwt_class (pwt q' t') = c'}" for c'
  proof -
    have "{t' \<in> ?B'. pwt_class (pwt q' t') = c'} = {t' \<in> B. pwt_class (pwt q t') = c'} - (if F = {#} then {t} else {})"
      unfolding B' cl by auto
    then show ?thesis using d r(5) [of c'] c by (cases "c = c'") (auto split: if_splits)
  qed
  moreover have "{t' \<in> ?B'. paid e t'} = {t' \<in> B. paid e t'} - (if F = {#} then {t} else {})" unfolding B' by auto
  moreover have "?B' \<subseteq> T" using r(3) B' by auto
  ultimately show ?thesis using r(1,2,7) tq unfolding mtds_rep_def cl by auto
qed

lemma mtds_delete_ok:
  assumes rep: "mtds_rep e T q A" and p: "p \<in># A"
  shows "\<exists>q'. local_runqueue_mtds_delete e q p = Inr q' \<and> mtds_rep e T q' (A - {#p#}) \<and>
    size (filter_mset (\<lambda>x. tenant_of e x = tenant_of e p) (A - {#p#})) < RUNTIME_TENANT_QUEUE_SIZE"
proof -
  define t where "t = tenant_of e p"
  define c where "c = pwt_class (pwt q t)"
  let ?F = "filter_mset (\<lambda>x. tenant_of e x = t) A" and ?B = "tenant_of e ` set_mset A"
  note r = mtds_rep_parts [OF rep]
  have F: "p \<in># ?F" and tB: "t \<in> ?B" using p by (auto simp: t_def)
  obtain sb where sb: "priority_queue_delete_nolock False (deadline e) (pwt_sandboxes (pwt q t)) p = Inr (0, sb)"
    "queue_holds sb RUNTIME_TENANT_QUEUE_SIZE (?F - {#p#})"
    using queue_delete [OF r(4) [of t] F, of "deadline e" "deadline e"] by auto
  define q1 where "q1 = upd_pwt t (\<lambda>x. x\<lparr>pwt_sandboxes := sb\<rparr>) q"
  define gp where "gp = perworker_tenant_get_priority (deadline e) (pwt q1)"
  let ?X = "{t \<in> ?B. pwt_class (pwt q t) = c}"
  obtain d d' where d: "priority_queue_delete_nolock False gp (class_queue q c) t = Inr (0, d)"
    "priority_queue_enqueue_nolock gp d t = Inr (0, d')" "heap_holds d RUNTIME_MAX_TENANT_COUNT (?X - {t})"
    "heap_holds d' RUNTIME_MAX_TENANT_COUNT ?X"
    using heap_reinsert [OF r(5) [of c], of t gp] tB class_card [OF rep] by (auto simp: c_def)
  define q2 where "q2 = set_class_queue c d q1"
  obtain tq where tq: "paid e t \<Longrightarrow> priority_queue_delete_nolock False (tenant_timeout_get_priority (pwt q2)) (timeout_queue q) t = Inr (0, tq)"
    "paid e t \<Longrightarrow> heap_holds tq RUNTIME_MAX_TENANT_COUNT ({t \<in> ?B. paid e t} - {t})"
    using heap_delete [OF r(6), of t "tenant_timeout_get_priority (pwt q2)" "tenant_timeout_get_priority (pwt q2)"] tB by auto
  define q' where "q' = (if ?F - {#p#} \<noteq> {#} then set_class_queue c d' q2
    else if paid e t then upd_pwt t (\<lambda>x. x\<lparr>pwt_class := MT_GUARANTEED\<rparr>) (q2\<lparr>timeout_queue := tq\<rparr>) else q2)"
  have n: "0 < size (?F - {#p#}) \<longleftrightarrow> ?F - {#p#} \<noteq> {#}" by (metis size_eq_0_iff_empty gr0I less_irrefl)
  have "local_runqueue_mtds_delete e q p = Inr q'"
    using sb queue_length [OF sb(2)] d(1,2) tq(1) n
    by (auto simp: local_runqueue_mtds_delete_def Let_def t_def c_def q1_def q2_def q'_def gp_def paid_def)
  moreover have "mtds_rep e T q' (A - {#p#})"
  proof (rule mtds_rep_removed [where c = c and sb = sb and d = "if ?F - {#p#} = {#} then d else d'", OF rep p, folded t_def])
    show "heap_holds (timeout_queue q') RUNTIME_MAX_TENANT_COUNT
        ({t' \<in> ?B. paid e t'} - (if ?F - {#p#} = {#} then {t} else {}))"
      using tq(2) r(6) by (cases "paid e t") (auto simp: q'_def q2_def q1_def)
  qed (use sb(2) d(3,4) in \<open>auto simp: c_def q'_def q2_def q1_def\<close>)
  moreover have "size (?F - {#p#}) < RUNTIME_TENANT_QUEUE_SIZE"
    using r(4) [of t] size_pq_contents [of "pwt_sandboxes (pwt q t)"] size_Diff1_less [OF F]
    by (auto simp: queue_holds_def pq_shape_def)
  ultimately show ?thesis by (auto simp: t_def)
qed

subsection \<open>Promotion and demotion\<close>

lemma heap_move:
  assumes "heap_holds a n X" "heap_holds b n Y" "v \<in> X" "v \<notin> Y" "card Y < n"
  shows "\<exists>a' b'. priority_queue_delete_nolock False gp a v = Inr (0, a') \<and> priority_queue_enqueue_nolock gp b v = Inr (0, b') \<and>
    heap_holds a' n (X - {v}) \<and> heap_holds b' n (insert v Y) \<and>
    (pq_order gp a \<and> pq_items a ! 1 = Some v \<longrightarrow> pq_order gp a') \<and> (pq_order gp b \<longrightarrow> pq_order gp b')"
  using heap_delete [OF assms(1,3), of gp gp] heap_enqueue [OF assms(2,4,5), of gp] by blast

lemma class_queue_eq: "class_queue q MT_GUARANTEED = mtds_guaranteed q" "class_queue q MT_DEFAULT = mtds_default q"
  by (simp_all add: class_queue_def)

lemma class_cases: "c = MT_GUARANTEED \<or> c = MT_DEFAULT"
  by (cases c) auto

lemma all_classes: "(\<forall>c. P c) \<longleftrightarrow> P MT_GUARANTEED \<and> P MT_DEFAULT"
  using class_cases by metis

lemma head_priority_pwt [simp]:
  "perworker_tenant_get_priority dl (P(t := x\<lparr>pwt_class := c\<rparr>)) = perworker_tenant_get_priority dl (P(t := x))"
  "perworker_tenant_get_priority dl (P(t := x\<lparr>pwt_timeout := tm\<rparr>)) = perworker_tenant_get_priority dl (P(t := x))"
  by (auto simp: perworker_tenant_get_priority_def fun_eq_iff)

text \<open>A tenant of class \<open>c\<close> has changed to the other class and its heap.\<close>

lemma mtds_moved:
  assumes rep: "mtds_rep e T q A" and t: "t \<in> tenant_of e ` set_mset A" "pwt_class (pwt q t) = c" "c \<noteq> c'"
    and pay: "c' = MT_GUARANTEED \<Longrightarrow> paid e t"
  shows "\<exists>a b. priority_queue_delete_nolock False (perworker_tenant_get_priority (deadline e) (pwt q)) (class_queue q c) t = Inr (0, a) \<and>
    priority_queue_enqueue_nolock (perworker_tenant_get_priority (deadline e) (pwt q)) (class_queue q c') t = Inr (0, b) \<and>
    (let q' = upd_pwt t (\<lambda>x. x\<lparr>pwt_class := c'\<rparr>) (set_class_queue c a (set_class_queue c' b q))
     in mtds_rep e T q' A \<and> (mtds_ordered e q \<and> pq_items (class_queue q c) ! 1 = Some t \<longrightarrow> mtds_ordered e q'))"
proof -
  let ?gp = "perworker_tenant_get_priority (deadline e) (pwt q)" and ?B = "tenant_of e ` set_mset A"
  note r = mtds_rep_parts [OF rep]
  have sub: "{t \<in> ?B. pwt_class (pwt q t) = c'} \<subset> ?B" using t by auto
  have "card {t \<in> ?B. pwt_class (pwt q t) = c'} < card ?B" by (rule psubset_card_mono [OF _ sub]) simp
  then have card: "card {t \<in> ?B. pwt_class (pwt q t) = c'} < RUNTIME_MAX_TENANT_COUNT"
    using class_card [OF rep, of "\<lambda>_. True"] by simp
  obtain a b where ab: "priority_queue_delete_nolock False ?gp (class_queue q c) t = Inr (0, a)"
    "priority_queue_enqueue_nolock ?gp (class_queue q c') t = Inr (0, b)"
    "heap_holds a RUNTIME_MAX_TENANT_COUNT ({t \<in> ?B. pwt_class (pwt q t) = c} - {t})"
    "heap_holds b RUNTIME_MAX_TENANT_COUNT (insert t {t \<in> ?B. pwt_class (pwt q t) = c'})"
    "pq_order ?gp (class_queue q c) \<and> pq_items (class_queue q c) ! 1 = Some t \<longrightarrow> pq_order ?gp a"
    "pq_order ?gp (class_queue q c') \<longrightarrow> pq_order ?gp b"
    using heap_move [OF r(5) [of c] r(5) [of c'] _ _ card, of t ?gp] t by auto
  define q' where "q' = upd_pwt t (\<lambda>x. x\<lparr>pwt_class := c'\<rparr>) (set_class_queue c a (set_class_queue c' b q))"
  have cq: "class_queue q' d = (if d = c then a else b)" for d
    using t(3) class_cases [of c] class_cases [of c'] class_cases [of d] by (auto simp: q'_def)
  have sets: "{s \<in> ?B. pwt_class (pwt q' s) = d} =
      (if d = c then {s \<in> ?B. pwt_class (pwt q s) = c} - {t} else insert t {s \<in> ?B. pwt_class (pwt q s) = c'})" for d
    using t class_cases [of c] class_cases [of c'] class_cases [of d] by (auto simp: q'_def)
  have "mtds_rep e T q' A"
    using r ab(3,4) pay class_cases [of c'] unfolding mtds_rep_def sets cq by (auto simp: q'_def)
  moreover have "mtds_ordered e q'" if "mtds_ordered e q" "pq_items (class_queue q c) ! 1 = Some t"
    using that ab(5,6) unfolding mtds_ordered_def cq by (simp add: q'_def)
  ultimately show ?thesis using ab(1,2) by (auto simp: q'_def Let_def)
qed

lemma mtds_demote_ok:
  assumes "mtds_rep e T q A" "t \<in> tenant_of e ` set_mset A" "pwt_class (pwt q t) = MT_GUARANTEED"
  shows "\<exists>q'. local_runqueue_mtds_demote e q t = Inr q' \<and> pwt q' = pwt q \<and>
    mtds_rep e T (upd_pwt t (\<lambda>x. x\<lparr>pwt_class := MT_DEFAULT\<rparr>) q') A \<and>
    (mtds_ordered e q \<and> pq_items (mtds_guaranteed q) ! 1 = Some t \<longrightarrow>
      mtds_ordered e (upd_pwt t (\<lambda>x. x\<lparr>pwt_class := MT_DEFAULT\<rparr>) q'))"
proof -
  from mtds_moved [OF assms, of MT_DEFAULT] obtain g d where
    gd: "priority_queue_delete_nolock False (perworker_tenant_get_priority (deadline e) (pwt q)) (mtds_guaranteed q) t = Inr (0, g)"
      "priority_queue_enqueue_nolock (perworker_tenant_get_priority (deadline e) (pwt q)) (mtds_default q) t = Inr (0, d)"
    and q: "let q' = upd_pwt t (\<lambda>x. x\<lparr>pwt_class := MT_DEFAULT\<rparr>) (set_class_queue MT_GUARANTEED g (set_class_queue MT_DEFAULT d q))
      in mtds_rep e T q' A \<and> (mtds_ordered e q \<and> pq_items (mtds_guaranteed q) ! 1 = Some t \<longrightarrow> mtds_ordered e q')"
    unfolding class_queue_eq by blast
  have "local_runqueue_mtds_demote e q t = Inr (q\<lparr>mtds_guaranteed := g, mtds_default := d\<rparr>)"
    using gd by (simp add: local_runqueue_mtds_demote_def Let_def ENOSPC_def)
  moreover have "set_class_queue MT_GUARANTEED g (set_class_queue MT_DEFAULT d q) = q\<lparr>mtds_guaranteed := g, mtds_default := d\<rparr>"
    by (simp add: set_class_queue_def)
  ultimately show ?thesis using q by (intro exI [of _ "q\<lparr>mtds_guaranteed := g, mtds_default := d\<rparr>"]) (simp add: Let_def)
qed

lemma mtds_promote_ok:
  assumes "mtds_rep e T q A" "t \<in> tenant_of e ` set_mset A" "pwt_class (pwt q t) = MT_DEFAULT" "paid e t"
  shows "\<exists>q'. local_runqueue_mtds_promote e q t = Inr q' \<and> pwt q' = pwt q \<and> timeout_queue q' = timeout_queue q \<and>
    mtds_rep e T (upd_pwt t (\<lambda>x. x\<lparr>pwt_class := MT_GUARANTEED\<rparr>) q') A"
proof -
  from mtds_moved [OF assms(1-3), of MT_GUARANTEED] assms(4) obtain d g where
    dg: "priority_queue_delete_nolock False (perworker_tenant_get_priority (deadline e) (pwt q)) (mtds_default q) t = Inr (0, d)"
      "priority_queue_enqueue_nolock (perworker_tenant_get_priority (deadline e) (pwt q)) (mtds_guaranteed q) t = Inr (0, g)"
    and q: "mtds_rep e T (upd_pwt t (\<lambda>x. x\<lparr>pwt_class := MT_GUARANTEED\<rparr>)
      (set_class_queue MT_DEFAULT d (set_class_queue MT_GUARANTEED g q))) A"
    unfolding class_queue_eq Let_def by blast
  have "local_runqueue_mtds_promote e q t = Inr (q\<lparr>mtds_default := d, mtds_guaranteed := g\<rparr>)"
    using dg by (simp add: local_runqueue_mtds_promote_def Let_def ENOSPC_def)
  moreover have "set_class_queue MT_DEFAULT d (set_class_queue MT_GUARANTEED g q) = q\<lparr>mtds_default := d, mtds_guaranteed := g\<rparr>"
    by (simp add: set_class_queue_def)
  ultimately show ?thesis using q by (intro exI [of _ "q\<lparr>mtds_default := d, mtds_guaranteed := g\<rparr>"]) simp
qed

subsection \<open>The choice of the next sandbox\<close>

declare demote_loop.simps [simp del]

text \<open>What the demotions do: they only change the class of guaranteed tenants without budget.\<close>

definition demoted :: "tenancy \<Rightarrow> mtds_runqueue \<Rightarrow> mtds_runqueue \<Rightarrow> bool" where
  "demoted e q q' \<longleftrightarrow> (\<forall>t. pwt_sandboxes (pwt q' t) = pwt_sandboxes (pwt q t) \<and>
     (pwt_class (pwt q' t) = pwt_class (pwt q t) \<or> pwt_class (pwt q t) = MT_GUARANTEED \<and> pwt_class (pwt q' t) = MT_DEFAULT \<and> exhausted e t))"

lemma demote_loop_ok:
  assumes "mtds_rep e T q A"
  shows "\<exists>n q'. demote_loop e q = Inr (n, q') \<and> mtds_rep e T q' A \<and> (mtds_ordered e q \<longrightarrow> mtds_ordered e q') \<and> demoted e q q' \<and>
    (case n of None \<Rightarrow> \<forall>t\<in>tenant_of e ` set_mset A. pwt_class (pwt q' t) = MT_DEFAULT
     | Some t \<Rightarrow> t \<in> tenant_of e ` set_mset A \<and> pwt_class (pwt q' t) = MT_GUARANTEED \<and> \<not> exhausted e t \<and>
         pq_items (mtds_guaranteed q') ! 1 = Some t)"
  using assms
proof (induction "card {t \<in> tenant_of e ` set_mset A. pwt_class (pwt q t) = MT_GUARANTEED}" arbitrary: q rule: less_induct)
  case less
  let ?B = "tenant_of e ` set_mset A"
  let ?G = "\<lambda>q. {t \<in> ?B. pwt_class (pwt q t) = MT_GUARANTEED}"
  note top = heap_top [OF mtds_rep_parts(5) [OF less.prems, of MT_GUARANTEED], unfolded class_queue_eq]
  show ?case
  proof (cases "?G q = {}")
    case True
    then have "demote_loop e q = Inr (None, q)" using top(1) by (subst demote_loop.simps) simp
    moreover have "\<forall>t\<in>?B. pwt_class (pwt q t) = MT_DEFAULT" using True class_cases by auto
    ultimately show ?thesis using less.prems by (auto simp: demoted_def)
  next
    case False
    then obtain t where t: "pq_items (mtds_guaranteed q) ! 1 = Some t" "t \<in> ?B" "pwt_class (pwt q t) = MT_GUARANTEED"
      using top(2) by auto
    have tp: "priority_queue_top_nolock (mtds_guaranteed q) = Inr (0, Some t)" using top(1) t by auto
    show ?thesis
    proof (cases "exhausted e t")
      case ex: True
      obtain q1 where q1: "local_runqueue_mtds_demote e q t = Inr q1" "pwt q1 = pwt q"
        "mtds_rep e T (upd_pwt t (\<lambda>x. x\<lparr>pwt_class := MT_DEFAULT\<rparr>) q1) A"
        "mtds_ordered e q \<longrightarrow> mtds_ordered e (upd_pwt t (\<lambda>x. x\<lparr>pwt_class := MT_DEFAULT\<rparr>) q1)"
        using mtds_demote_ok [OF less.prems t(2,3)] t(1) by auto
      let ?q2 = "upd_pwt t (\<lambda>x. x\<lparr>pwt_class := MT_DEFAULT\<rparr>) q1"
      have "?G ?q2 \<subset> ?G q" using t q1(2) by auto
      then have "card (?G ?q2) < card (?G q)" by (rule psubset_card_mono [rotated]) simp
      from less.hyps [OF this q1(3)] obtain n q' where n: "demote_loop e ?q2 = Inr (n, q')" "mtds_rep e T q' A"
        "mtds_ordered e ?q2 \<longrightarrow> mtds_ordered e q'" "demoted e ?q2 q'"
        "case n of None \<Rightarrow> \<forall>t\<in>?B. pwt_class (pwt q' t) = MT_DEFAULT
         | Some t \<Rightarrow> t \<in> ?B \<and> pwt_class (pwt q' t) = MT_GUARANTEED \<and> \<not> exhausted e t \<and> pq_items (mtds_guaranteed q') ! 1 = Some t"
        by blast
      have "demote_loop e q = Inr (n, q')" using tp ex q1(1) n(1) by (subst demote_loop.simps) (simp add: ENOENT_def)
      moreover have "demoted e q q'" using n(4) q1(2) ex t(3) unfolding demoted_def by (auto split: if_splits)
      ultimately show ?thesis using n q1(4) by blast
    next
      case ok: False
      then have "demote_loop e q = Inr (Some t, q)" using tp by (subst demote_loop.simps) (simp add: ENOENT_def)
      then show ?thesis using less.prems t ok by (auto simp: demoted_def)
    qed
  qed
qed

lemma pwt_head:
  assumes "mtds_rep e T q A" "t \<in> tenant_of e ` set_mset A"
  shows "\<exists>p. priority_queue_top_nolock (pwt_sandboxes (pwt q t)) = Inr (0, Some p) \<and> p \<in># A \<and> tenant_of e p = t \<and>
    perworker_tenant_get_priority (deadline e) (pwt q) t = deadline e p \<and>
    (mtds_ordered e q \<longrightarrow> (\<forall>x\<in>#A. tenant_of e x = t \<longrightarrow> deadline e p \<le> deadline e x))"
proof -
  let ?q = "pwt_sandboxes (pwt q t)" and ?F = "filter_mset (\<lambda>x. tenant_of e x = t) A"
  note top = queue_top [OF mtds_rep_parts(4) [OF assms(1), of t]]
  have F: "?F \<noteq> {#}" using assms(2) filter_tenant_empty [of e t A] by blast
  then obtain p where p: "pq_items ?q ! 1 = Some p" "p \<in># ?F" using top(2) by blast
  have "priority_queue_top_nolock ?q = Inr (0, Some p)" using top(1) p by auto
  moreover have "deadline e p \<le> deadline e x" if "mtds_ordered e q" "x \<in># A" "tenant_of e x = t" for x
    using top(3) [OF F, of "deadline e" p x] that p(1) by (simp add: mtds_ordered_def)
  ultimately show ?thesis using p(2) by (auto simp: perworker_tenant_get_priority_def head_priority_def)
qed

text \<open>The sandboxes of guaranteed tenants that have budget left.\<close>

definition backed :: "tenancy \<Rightarrow> mtds_runqueue \<Rightarrow> sandbox_ptr \<Rightarrow> bool" where
  "backed e q p \<longleftrightarrow> pwt_class (pwt q (tenant_of e p)) = MT_GUARANTEED \<and> \<not> exhausted e (tenant_of e p)"

lemma class_head_least:
  assumes rep: "mtds_rep e T q A" and ord: "mtds_ordered e q" and t: "pq_items (class_queue q c) ! 1 = Some t"
    and p: "priority_queue_top_nolock (pwt_sandboxes (pwt q t)) = Inr (0, Some p)"
    and x: "x \<in># A" "pwt_class (pwt q (tenant_of e x)) = c" and tB: "t \<in> tenant_of e ` set_mset A"
  shows "deadline e p \<le> deadline e x"
proof -
  let ?gp = "perworker_tenant_get_priority (deadline e) (pwt q)"
  have xB: "tenant_of e x \<in> tenant_of e ` set_mset A" using x(1) by simp
  have "?gp t \<le> ?gp (tenant_of e x)"
    using heap_top(3) [OF mtds_rep_parts(5) [OF rep, of c] _ _ t, of ?gp "tenant_of e x"] ord x xB
    by (auto simp: mtds_ordered_def)
  also have "\<dots> \<le> deadline e x" using pwt_head [OF rep xB] ord x(1) by auto
  finally show ?thesis using pwt_head [OF rep tB] p by auto
qed

lemma mtds_get_next_ok:
  assumes rep: "mtds_rep e T q A"
  shows "\<exists>n q'. local_runqueue_mtds_get_next e q = Inr (n, q') \<and> mtds_rep e T q' A \<and> (mtds_ordered e q \<longrightarrow> mtds_ordered e q') \<and>
    demoted e q q' \<and>
    (case n of None \<Rightarrow> A = {#} | Some p \<Rightarrow> p \<in># A \<and> (backed e q p \<or> (\<forall>x\<in>#A. \<not> backed e q x)) \<and>
       (mtds_ordered e q \<longrightarrow> (\<forall>x\<in>#A. (backed e q x \<or> \<not> backed e q p) \<longrightarrow> deadline e p \<le> deadline e x)))"
proof -
  let ?B = "tenant_of e ` set_mset A"
  obtain g q1 where g: "demote_loop e q = Inr (g, q1)" "mtds_rep e T q1 A" "mtds_ordered e q \<longrightarrow> mtds_ordered e q1" "demoted e q q1"
    "case g of None \<Rightarrow> \<forall>t\<in>?B. pwt_class (pwt q1 t) = MT_DEFAULT
     | Some t \<Rightarrow> t \<in> ?B \<and> pwt_class (pwt q1 t) = MT_GUARANTEED \<and> \<not> exhausted e t \<and> pq_items (mtds_guaranteed q1) ! 1 = Some t"
    using demote_loop_ok [OF rep] by blast
  have bk: "backed e q x \<longleftrightarrow> pwt_class (pwt q1 (tenant_of e x)) = MT_GUARANTEED \<and> \<not> exhausted e (tenant_of e x)" for x
    using g(4) unfolding backed_def demoted_def by (metis mt_class.distinct(1))
  show ?thesis
  proof (cases g)
    case (Some t)
    then have t: "t \<in> ?B" "pwt_class (pwt q1 t) = MT_GUARANTEED" "\<not> exhausted e t" "pq_items (class_queue q1 MT_GUARANTEED) ! 1 = Some t"
      using g(5) by (auto simp: class_queue_eq)
    obtain p where p: "priority_queue_top_nolock (pwt_sandboxes (pwt q1 t)) = Inr (0, Some p)" "p \<in># A" "tenant_of e p = t"
      using pwt_head [OF g(2) t(1)] by blast
    have "local_runqueue_mtds_get_next e q = Inr (Some p, q1)" using g(1) Some p(1) by (simp add: local_runqueue_mtds_get_next_def)
    moreover have "backed e q p" using t p(3) by (simp add: bk)
    moreover have "deadline e p \<le> deadline e x" if "mtds_ordered e q" "x \<in># A" "backed e q x" for x
      using class_head_least [OF g(2) _ t(4) p(1) that(2) _ t(1)] g(3) that by (simp add: bk)
    ultimately show ?thesis using g p(2) by auto
  next
    case None
    then have d: "\<forall>t\<in>?B. pwt_class (pwt q1 t) = MT_DEFAULT" using g(5) by simp
    then have nb: "\<not> backed e q x" if "x \<in># A" for x using that by (auto simp: bk)
    have D: "{t \<in> ?B. pwt_class (pwt q1 t) = MT_DEFAULT} = ?B" using d by auto
    note top = heap_top [OF mtds_rep_parts(5) [OF g(2), of MT_DEFAULT, unfolded D], unfolded class_queue_eq]
    show ?thesis
    proof (cases "A = {#}")
      case True
      then have "local_runqueue_mtds_get_next e q = Inr (None, q1)" using g(1) None top(1) by (simp add: local_runqueue_mtds_get_next_def)
      then show ?thesis using g True by auto
    next
      case False
      then obtain t where t: "pq_items (mtds_default q1) ! 1 = Some t" "t \<in> ?B" using top(2) by auto
      obtain p where p: "priority_queue_top_nolock (pwt_sandboxes (pwt q1 t)) = Inr (0, Some p)" "p \<in># A" "tenant_of e p = t"
        using pwt_head [OF g(2) t(2)] by blast
      have "local_runqueue_mtds_get_next e q = Inr (Some p, q1)"
        using g(1) None top(1) False t(1) p(1) by (simp add: local_runqueue_mtds_get_next_def ENOENT_def)
      moreover have "deadline e p \<le> deadline e x" if "mtds_ordered e q" "x \<in># A" for x
        using class_head_least [OF g(2) _ _ p(1) that(2) _ t(2), of MT_DEFAULT] g(3) that d t(1) by (simp add: class_queue_eq)
      ultimately show ?thesis using g p(2) nb by auto
    qed
  qed
qed

subsection \<open>Promotions\<close>

lemma next_timeout_future:
  assumes "b \<le> r" "rp > 0" "unat r + unat rp < 2 ^ 64"
  shows "\<exists>timeout. get_next_timeout_of_tenant b r rp = Inr timeout \<and> r < timeout \<and> unat timeout \<le> unat r + unat rp"
proof -
  let ?k = "(unat r - unat b) div unat rp"
  have b: "unat b \<le> unat r" using assms(1) by (simp add: word_le_nat_alt)
  have rp: "0 < unat rp" using assms(2) by (simp add: word_less_nat_alt)
  have k: "?k * unat rp \<le> unat r - unat b" "unat r - unat b < ?k * unat rp + unat rp"
    using rp dividend_less_div_times [of "unat rp" "unat r - unat b"] by (simp_all add: add.commute)
  have "(r - b) div rp = word_of_nat ?k"
    using assms(1) unat_div [of "r - b" rp] unat_sub [of b r] by (metis of_nat_unat ucast_id)
  then have "((r - b) div rp + 1) * rp = word_of_nat ((?k + 1) * unat rp)" by (simp add: algebra_simps)
  then have eq: "b + ((r - b) div rp + 1) * rp = word_of_nat (unat b + (?k + 1) * unat rp)" by (metis of_nat_add of_nat_unat ucast_id)
  have le: "unat b + (?k + 1) * unat rp \<le> unat r + unat rp" using k(1) b unfolding add_mult_distrib mult_1 by linarith
  have small: "unat (word_of_nat n :: u64) = n" if "n < 2 ^ 64" for n using that by (simp add: unat_of_nat take_bit_nat_eq_self)
  have un: "unat (word_of_nat (unat b + (?k + 1) * unat rp) :: u64) = unat b + (?k + 1) * unat rp"
    by (rule small) (use le assms(3) in linarith)
  have "unat r < unat b + (?k + 1) * unat rp" using k(2) unfolding add_mult_distrib mult_1 by linarith
  then show ?thesis using eq un le assms(2) by (auto simp: get_next_timeout_of_tenant_def word_less_nat_alt)
qed

text \<open>What the promotions do: they only change due tenants, who become guaranteed and get a timeout in the future.\<close>

definition due :: "tenancy \<Rightarrow> mtds_runqueue \<Rightarrow> nat \<Rightarrow> bool" where
  "due e q t \<longleftrightarrow> pwt_timeout (pwt q t) \<le> clock e"

definition promoted :: "tenancy \<Rightarrow> mtds_runqueue \<Rightarrow> mtds_runqueue \<Rightarrow> bool" where
  "promoted e q q' \<longleftrightarrow> (\<forall>t. pwt_sandboxes (pwt q' t) = pwt_sandboxes (pwt q t) \<and>
     (pwt q' t = pwt q t \<or> due e q t \<and> \<not> due e q' t \<and> pwt_class (pwt q' t) = MT_GUARANTEED))"

definition timeouts_ordered :: "mtds_runqueue \<Rightarrow> bool" where
  "timeouts_ordered q \<longleftrightarrow> pq_order (tenant_timeout_get_priority (pwt q)) (timeout_queue q)"

lemma promoted_trans: "\<lbrakk>promoted e q q1; promoted e q1 q2\<rbrakk> \<Longrightarrow> promoted e q q2"
  unfolding promoted_def due_def by metis

definition readings_ok :: "tenancy \<Rightarrow> nat set \<Rightarrow> u64 list \<Rightarrow> bool" where
  "readings_ok e T rs \<longleftrightarrow> boot e \<le> clock e \<and> (\<forall>r\<in>set rs. clock e \<le> r \<and> (\<forall>t\<in>T. unat r + unat (period e t) < 2 ^ 64))"

lemma mtds_rep_timeout:
  assumes "mtds_rep e T q A" "heap_holds tq RUNTIME_MAX_TENANT_COUNT {t \<in> tenant_of e ` set_mset A. paid e t}"
  shows "mtds_rep e T ((upd_pwt t (\<lambda>x. x\<lparr>pwt_timeout := v\<rparr>) q)\<lparr>timeout_queue := tq\<rparr>) A"
proof -
  have "pwt_class (pwt (upd_pwt t (\<lambda>x. x\<lparr>pwt_timeout := v\<rparr>) q) t') = pwt_class (pwt q t')"
    "pwt_sandboxes (pwt (upd_pwt t (\<lambda>x. x\<lparr>pwt_timeout := v\<rparr>) q) t') = pwt_sandboxes (pwt q t')" for t' by auto
  then show ?thesis using assms unfolding mtds_rep_def all_classes by (auto simp: class_queue_eq upd_pwt_def)
qed

lemma pq_order_agree:
  assumes "pq_shape q" "\<And>x. x \<in># pq_contents q \<Longrightarrow> gp' x = gp x"
  shows "pq_order gp' q = pq_order gp q"
proof -
  have "key gp' (pq_items q) i = key gp (pq_items q) i" if i: "1 \<le> i" "i \<le> pq_size q" for i
  proof -
    obtain x where "pq_items q ! i = Some x" using shape_slot [OF assms(1), of i] i by auto
    moreover from this have "x \<in># pq_contents q" using in_pq_contents_conv [OF assms(1)] i by blast
    ultimately show ?thesis using assms(2) by (simp add: key_def)
  qed
  then show ?thesis unfolding pq_order_def by (intro heap_order_cong) blast
qed

lemma promote_class_ok:
  assumes "mtds_rep e T q A" "t \<in> tenant_of e ` set_mset A" "paid e t"
  shows "\<exists>q1. (if pwt_class (pwt q t) = MT_DEFAULT
        then bindr (local_runqueue_mtds_promote e q t) (\<lambda>q1. Inr (upd_pwt t (\<lambda>x. x\<lparr>pwt_class := MT_GUARANTEED\<rparr>) q1)) else Inr q) = Inr q1 \<and>
     mtds_rep e T q1 A \<and> timeout_queue q1 = timeout_queue q \<and> pwt q1 = (pwt q)(t := (pwt q t)\<lparr>pwt_class := MT_GUARANTEED\<rparr>)"
proof (cases "pwt_class (pwt q t) = MT_DEFAULT")
  case True
  obtain q1 where "local_runqueue_mtds_promote e q t = Inr q1" "pwt q1 = pwt q" "timeout_queue q1 = timeout_queue q"
    "mtds_rep e T (upd_pwt t (\<lambda>x. x\<lparr>pwt_class := MT_GUARANTEED\<rparr>) q1) A"
    using mtds_promote_ok [OF assms(1,2) True assms(3)] by blast
  then show ?thesis using True by (auto simp: upd_pwt_def)
next
  case False
  then have c: "pwt_class (pwt q t) = MT_GUARANTEED" using class_cases by blast
  then have "(pwt q)(t := (pwt q t)\<lparr>pwt_class := MT_GUARANTEED\<rparr>) = pwt q" by (intro ext) simp
  then show ?thesis using assms(1) c by simp
qed

lemma promote_due_ok:
  assumes rep: "mtds_rep e T q A" and t: "pq_items (timeout_queue q) ! 1 = Some t" "t \<in> tenant_of e ` set_mset A" "paid e t" "due e q t"
    and r: "boot e \<le> clock e" "clock e \<le> r" "unat r + unat (period e t) < 2 ^ 64"
  shows "\<exists>t' q'. promote_due e r q t = Inr (t', q') \<and> mtds_rep e T q' A \<and> promoted e q q' \<and> (timeouts_ordered q \<longrightarrow> timeouts_ordered q') \<and>
    pq_items (timeout_queue q') ! 1 = Some t' \<and> t' \<in> tenant_of e ` set_mset A \<and> paid e t' \<and> \<not> due e q' t"
proof -
  let ?B = "tenant_of e ` set_mset A" and ?N = RUNTIME_MAX_TENANT_COUNT
  let ?P = "{t \<in> ?B. paid e t}"
  obtain q1 where q1: "(if pwt_class (pwt q t) = MT_DEFAULT
      then bindr (local_runqueue_mtds_promote e q t) (\<lambda>q1. Inr (upd_pwt t (\<lambda>x. x\<lparr>pwt_class := MT_GUARANTEED\<rparr>) q1)) else Inr q) = Inr q1"
    "mtds_rep e T q1 A" "timeout_queue q1 = timeout_queue q" "pwt q1 = (pwt q)(t := (pwt q t)\<lparr>pwt_class := MT_GUARANTEED\<rparr>)"
    using promote_class_ok [OF rep t(2,3)] by blast
  have g1: "tenant_timeout_get_priority (pwt q1) = tenant_timeout_get_priority (pwt q)" by (rule ext) (simp add: tenant_timeout_get_priority_def q1(4))
  have tP: "t \<in> ?P" using t by simp
  have cP: "card ?P \<le> ?N" by (rule class_card [OF rep])
  obtain tq where tq: "priority_queue_delete_nolock False (tenant_timeout_get_priority (pwt q1)) (timeout_queue q1) t = Inr (0, tq)"
    "heap_holds tq ?N (?P - {t})" "timeouts_ordered q \<longrightarrow> pq_order (tenant_timeout_get_priority (pwt q)) tq"
    using heap_delete [OF mtds_rep_parts(6) [OF q1(2)] tP, of "tenant_timeout_get_priority (pwt q1)" "tenant_timeout_get_priority (pwt q)"] t(1) q1(3) g1
    by (auto simp: timeouts_ordered_def)
  obtain v where v: "get_next_timeout_of_tenant (boot e) r (period e t) = Inr v" "r < v"
    using next_timeout_future [OF order_trans [OF r(1,2)] _ r(3)] t(3) by (auto simp: paid_def)
  let ?q2 = "upd_pwt t (\<lambda>x. x\<lparr>pwt_timeout := v\<rparr>) q1"
  let ?gp = "tenant_timeout_get_priority (pwt ?q2)"
  have "card (?P - {t}) < ?N" using cP card_Diff1_less [OF _ tP] by simp
  then obtain tq' where tq': "priority_queue_enqueue_nolock ?gp tq t = Inr (0, tq')" "heap_holds tq' ?N (insert t (?P - {t}))"
    "pq_order ?gp tq \<longrightarrow> pq_order ?gp tq'"
    using heap_enqueue [OF tq(2), of t ?gp] by auto
  have P': "insert t (?P - {t}) = ?P" using tP by blast
  have ord: "pq_order ?gp tq" if "timeouts_ordered q"
    using tq(3) that pq_order_agree [of tq ?gp "tenant_timeout_get_priority (pwt q)"] tq(2) q1(4)
    by (auto simp: heap_holds_def tenant_timeout_get_priority_def)
  note top = heap_top [OF tq'(2) [unfolded P']]
  obtain t' where t': "pq_items tq' ! 1 = Some t'" "t' \<in> ?P" using top(2) tP by blast
  have top': "priority_queue_top_nolock tq' = Inr (0, Some t')" using top(1) t' by auto
  have len: "priority_queue_length_nolock (pwt_sandboxes (pwt q t)) = Inr (size (filter_mset (\<lambda>x. tenant_of e x = t) A))"
    using queue_length [OF mtds_rep_parts(4) [OF rep]] .
  have ne: "0 < size (filter_mset (\<lambda>x. tenant_of e x = t) A)" using t(2) filter_tenant_empty [of e t A] nonempty_has_size by blast
  let ?q3 = "?q2\<lparr>timeout_queue := tq'\<rparr>"
  have "promote_due e r q t = Inr (t', ?q3)" unfolding promote_due_def len q1(1) using ne tq(1) v(1) tq'(1) top' by simp
  moreover have "mtds_rep e T ?q3 A" using mtds_rep_timeout [OF q1(2) tq'(2) [unfolded P']] .
  moreover have "clock e < v" using r(2) v(2) by simp
  then have "promoted e q ?q3" "\<not> due e ?q3 t" using t(4) q1(4) by (auto simp: promoted_def due_def)
  moreover have "timeouts_ordered ?q3" if "timeouts_ordered q" using tq'(3) ord that by (simp add: timeouts_ordered_def)
  ultimately show ?thesis using t' by auto
qed

lemma promotions_loop_ok:
  assumes "mtds_rep e T q A" "pq_items (timeout_queue q) ! 1 = Some t" "t \<in> tenant_of e ` set_mset A" "paid e t" "readings_ok e T rs"
    "card {s \<in> tenant_of e ` set_mset A. due e q s} \<le> length rs"
  shows "\<exists>q'. promotions_loop e (clock e) rs q t = Some (Inr q') \<and> mtds_rep e T q' A \<and> promoted e q q' \<and>
    (timeouts_ordered q \<longrightarrow> (\<forall>s\<in>tenant_of e ` set_mset A. paid e s \<longrightarrow> \<not> due e q' s))"
  using assms
proof (induction rs arbitrary: q t)
  case Nil
  let ?B = "tenant_of e ` set_mset A"
  have nd: "\<not> due e q s" if "s \<in> ?B" for s using Nil.prems(6) that by auto
  then have "promotions_loop e (clock e) [] q t = Some (Inr q)" using Nil.prems(3) by (simp add: due_def not_le)
  then show ?case using Nil.prems(1) nd by (auto simp: promoted_def)
next
  case (Cons r rs)
  let ?B = "tenant_of e ` set_mset A"
  show ?case
  proof (cases "due e q t")
    case True
    have r: "boot e \<le> clock e" "clock e \<le> r" "unat r + unat (period e t) < 2 ^ 64" "readings_ok e T rs"
      using Cons.prems(3,5) mtds_rep_parts(3) [OF Cons.prems(1)] unfolding readings_ok_def by (simp_all, blast)
    obtain t' q1 where q1: "promote_due e r q t = Inr (t', q1)" "mtds_rep e T q1 A" "promoted e q q1"
      "timeouts_ordered q \<longrightarrow> timeouts_ordered q1" "pq_items (timeout_queue q1) ! 1 = Some t'" "t' \<in> ?B" "paid e t'" "\<not> due e q1 t"
      using promote_due_ok [OF Cons.prems(1-4) True r(1-3)] by blast
    have "{s \<in> ?B. due e q1 s} \<subset> {s \<in> ?B. due e q s}"
      using q1(3,8) True Cons.prems(3) unfolding promoted_def due_def by (auto, metis)
    then have "card {s \<in> ?B. due e q1 s} < card {s \<in> ?B. due e q s}" by (rule psubset_card_mono [rotated]) simp
    then have "card {s \<in> ?B. due e q1 s} \<le> length rs" using Cons.prems(6) by simp
    from Cons.IH [OF q1(2,5,6,7) r(4) this] obtain q' where q': "promotions_loop e (clock e) rs q1 t' = Some (Inr q')"
      "mtds_rep e T q' A" "promoted e q1 q'" "timeouts_ordered q1 \<longrightarrow> (\<forall>s\<in>?B. paid e s \<longrightarrow> \<not> due e q' s)" by blast
    have "promotions_loop e (clock e) (r # rs) q t = Some (Inr q')" using q'(1) q1(1) True by (simp add: due_def not_less)
    then show ?thesis using q'(2,4) q1(4) promoted_trans [OF q1(3) q'(3)] by blast
  next
    case False
    then have "promotions_loop e (clock e) (r # rs) q t = Some (Inr q)" by (simp add: due_def not_le)
    moreover have "\<not> due e q s" if "timeouts_ordered q" "s \<in> ?B" "paid e s" for s
      using heap_top(3) [OF mtds_rep_parts(6) [OF Cons.prems(1)] _ _ Cons.prems(2), of "tenant_timeout_get_priority (pwt q)" s] that False
      by (fastforce simp: timeouts_ordered_def tenant_timeout_get_priority_def due_def not_le)
    ultimately show ?thesis using Cons.prems(1) by (auto simp: promoted_def)
  qed
qed

lemma process_promotions_ok:
  assumes rep: "mtds_rep e T q A" and rs: "readings_ok e T rs" "RUNTIME_MAX_TENANT_COUNT \<le> length rs"
  shows "\<exists>q'. local_timeout_queue_process_promotions e rs q = Some (Inr q') \<and> mtds_rep e T q' A \<and> promoted e q q' \<and>
    (timeouts_ordered q \<longrightarrow> (\<forall>s\<in>tenant_of e ` set_mset A. paid e s \<longrightarrow> \<not> due e q' s))"
proof (cases "{t \<in> tenant_of e ` set_mset A. paid e t} = {}")
  case True
  have "local_timeout_queue_process_promotions e rs q = Some (Inr q)"
    using heap_top(1) [OF mtds_rep_parts(6) [OF rep]] True by (simp add: local_timeout_queue_process_promotions_def)
  then show ?thesis using rep True by (auto simp: promoted_def)
next
  case False
  note top = heap_top [OF mtds_rep_parts(6) [OF rep]]
  obtain t where t: "pq_items (timeout_queue q) ! 1 = Some t" "t \<in> tenant_of e ` set_mset A" "paid e t" using top(2) False by auto
  have "card {s \<in> tenant_of e ` set_mset A. due e q s} \<le> length rs" using class_card [OF rep, of "due e q"] rs(2) by simp
  from promotions_loop_ok [OF rep t rs(1) this] obtain q' where "promotions_loop e (clock e) rs q t = Some (Inr q')"
    "mtds_rep e T q' A" "promoted e q q'" "timeouts_ordered q \<longrightarrow> (\<forall>s\<in>tenant_of e ` set_mset A. paid e s \<longrightarrow> \<not> due e q' s)" by blast
  moreover have "priority_queue_top_nolock (timeout_queue q) = Inr (0, Some t)" using top(1) t by auto
  ultimately show ?thesis by (simp add: local_timeout_queue_process_promotions_def)
qed

subsection \<open>The run queue of a worker\<close>

lemma mtds_config_simps [simp]:
  "local_runqueue_add (mtds_config e) = local_runqueue_mtds_add e"
  "local_runqueue_delete (mtds_config e) = local_runqueue_mtds_delete e"
  "local_runqueue_is_empty (mtds_config e) = local_runqueue_mtds_is_empty"
  "local_runqueue_get_next (mtds_config e) = local_runqueue_mtds_get_next e"
  by (simp_all add: mtds_config_def local_runqueue_add_def local_runqueue_delete_def local_runqueue_is_empty_def
      local_runqueue_get_next_def fun_eq_iff)

lemma mtds_is_empty_ok:
  assumes "mtds_rep e T q A"
  shows "local_runqueue_mtds_is_empty q = Inr (A = {#})"
proof -
  let ?B = "tenant_of e ` set_mset A"
  have len: "priority_queue_length_nolock (class_queue q c) = Inr (card {t \<in> ?B. pwt_class (pwt q t) = c})" for c
    by (rule heap_length [OF mtds_rep_parts(5) [OF assms]])
  have z: "card {t \<in> ?B. pwt_class (pwt q t) = c} = 0 \<longleftrightarrow> (\<forall>x\<in>#A. pwt_class (pwt q (tenant_of e x)) \<noteq> c)" for c by auto
  have "A = {#} \<longleftrightarrow> (\<forall>x. x \<notin># A)" by auto
  then have "A = {#} \<longleftrightarrow> (\<forall>x\<in>#A. pwt_class (pwt q (tenant_of e x)) \<noteq> MT_GUARANTEED) \<and> (\<forall>x\<in>#A. pwt_class (pwt q (tenant_of e x)) \<noteq> MT_DEFAULT)"
    using class_cases by blast
  then show ?thesis
    unfolding local_runqueue_mtds_is_empty_def len [of MT_GUARANTEED, unfolded class_queue_eq] len [of MT_DEFAULT, unfolded class_queue_eq]
      bindr.simps z by presburger
qed

text \<open>There is room for a sandbox in the queue of its tenant.\<close>

definition mtds_room :: "tenancy \<Rightarrow> mtds_runqueue \<Rightarrow> sandbox_ptr \<Rightarrow> bool" where
  "mtds_room e q p \<longleftrightarrow> pq_size (pwt_sandboxes (pwt q (tenant_of e p))) < RUNTIME_TENANT_QUEUE_SIZE"

lemma mtds_room_iff:
  assumes "mtds_rep e T q A"
  shows "mtds_room e q p \<longleftrightarrow> size (filter_mset (\<lambda>x. tenant_of e x = tenant_of e p) A) < RUNTIME_TENANT_QUEUE_SIZE"
  using mtds_rep_parts(4) [OF assms, of "tenant_of e p"] size_pq_contents [of "pwt_sandboxes (pwt q (tenant_of e p))"]
  by (simp add: queue_holds_def mtds_room_def)

lemma mtds_add_ok:
  assumes rep: "mtds_rep e T q A" and t: "tenant_of e p \<in> T"
  shows "if mtds_room e q p then \<exists>q'. local_runqueue_mtds_add e q p = Inr q' \<and> mtds_rep e T q' (add_mset p A)
    else local_runqueue_mtds_add e q p = Inl Panic"
  using mtds_add_first [OF rep t] mtds_add_more [OF rep, of p] mtds_add_full [OF rep, of p] mtds_room_iff [OF rep, of p]
  by (cases "tenant_of e p \<in> tenant_of e ` set_mset A") auto

interpretation mtds_rq: runqueue "mtds_rep e T" "\<lambda>p. tenant_of e p \<in> T" "mtds_room e" "mtds_config e" for e T
proof
  fix q A p q'
  assume rep: "mtds_rep e T q A"
  show "\<exists>q'. local_runqueue_add (mtds_config e) q p = Inr q'" if "tenant_of e p \<in> T" "mtds_room e q p"
    using mtds_add_ok [OF rep that(1)] that(2) by auto
  show "mtds_rep e T q' (add_mset p A)" if "tenant_of e p \<in> T" "local_runqueue_add (mtds_config e) q p = Inr q'"
    using mtds_add_ok [OF rep that(1)] that(2) by (auto split: if_splits)
  show "\<exists>q'. local_runqueue_delete (mtds_config e) q p = Inr q' \<and> mtds_rep e T q' (A - {#p#}) \<and> (p \<notin># A - {#p#} \<longrightarrow> mtds_room e q' p)"
    if "p \<in># A" using mtds_delete_ok [OF rep that] mtds_room_iff by auto
  show "local_runqueue_is_empty (mtds_config e) q = Inr (A = {#})" using mtds_is_empty_ok [OF rep] by simp
  show "\<exists>n q'. local_runqueue_get_next (mtds_config e) q = Inr (n, q') \<and> mtds_rep e T q' A \<and> (case n of None \<Rightarrow> A = {#} | Some p \<Rightarrow> p \<in># A)"
    using mtds_get_next_ok [OF rep] by (fastforce split: option.splits)
qed

text \<open>
  What a worker does to its run queue: the transitions of its sandboxes, the look-ups of the scheduler and the
  promotions of its timer signals, each at its own time and with the budgets of that moment, which other
  workers change too.
\<close>

definition at_time :: "tenancy \<Rightarrow> u64 \<Rightarrow> (nat \<Rightarrow> u64) \<Rightarrow> tenancy" where
  "at_time e now bg = e\<lparr>clock := now, budget := bg\<rparr>"

lemma at_time_fields [simp]:
  "deadline (at_time e now bg) = deadline e" "tenant_of (at_time e now bg) = tenant_of e" "period (at_time e now bg) = period e"
  "boot (at_time e now bg) = boot e" "clock (at_time e now bg) = now" "budget (at_time e now bg) = bg"
  by (simp_all add: at_time_def)

lemma at_time_rep [simp]: "mtds_rep (at_time e now bg) T = mtds_rep e T"
  by (intro ext) (simp add: mtds_rep_def paid_def)

inductive mtds_worker_step :: "build_flags \<Rightarrow> tenancy \<Rightarrow> nat set \<Rightarrow> mtds_runqueue worker \<Rightarrow> mtds_runqueue worker \<Rightarrow> bool"
  for b e T where
  mtds_sandbox: "sandbox_step b (mtds_config (at_time e now bg)) w w' \<Longrightarrow> mtds_worker_step b e T w w'"
| mtds_lookup: "local_runqueue_get_next (mtds_config (at_time e now bg)) (runq w) = Inr (n, q') \<Longrightarrow>
    mtds_worker_step b e T w (w\<lparr>runq := q'\<rparr>)"
| mtds_timer: "\<lbrakk>local_timeout_queue_process_promotions (at_time e now bg) rs (runq w) = Some (Inr q');
      readings_ok (at_time e now bg) T rs; RUNTIME_MAX_TENANT_COUNT \<le> length rs\<rbrakk> \<Longrightarrow>
    mtds_worker_step b e T w (w\<lparr>runq := q'\<rparr>)"

lemma queue_matches_replace:
  assumes "queue_matches rep valid w" "\<And>A. rep (runq w) A \<Longrightarrow> rep q' A"
  shows "queue_matches rep valid (w\<lparr>runq := q'\<rparr>)"
  using assms unfolding queue_matches_def by fastforce

lemma mtds_worker_step_matches:
  assumes "mtds_worker_step b e T w w'" and inv: "queue_matches (mtds_rep e T) (\<lambda>p. tenant_of e p \<in> T) w"
  shows "queue_matches (mtds_rep e T) (\<lambda>p. tenant_of e p \<in> T) w'"
  using assms(1)
proof cases
  case (mtds_sandbox now bg)
  then show ?thesis using mtds_rq.steps_matches [of b "at_time e now bg" w w' T] inv by auto
next
  case (mtds_lookup now bg n q')
  have "mtds_rep e T q' A" if "mtds_rep e T (runq w) A" for A
    using mtds_get_next_ok [of "at_time e now bg" T "runq w" A] that mtds_lookup(2) by auto
  then show ?thesis unfolding mtds_lookup(1) by (rule queue_matches_replace [OF inv])
next
  case (mtds_timer now bg rs q')
  have "mtds_rep e T q' A" if "mtds_rep e T (runq w) A" for A
    using process_promotions_ok [of "at_time e now bg" T "runq w" A rs] that mtds_timer by auto
  then show ?thesis unfolding mtds_timer(1) by (rule queue_matches_replace [OF inv])
qed

text \<open>
  Claim C12: under the multi-tenant policy, whatever sequence of transitions, look-ups and promotions a worker makes, its
  run queue contains exactly the sandboxes that are runnable, preempted, running or interrupted, once each and
  with their tenant, every tenant with sandboxes is in the heap of its class, and every such tenant that pays
  has a timeout.
\<close>

theorem mtds_runqueue_membership:
  assumes "(mtds_worker_step b e T)\<^sup>*\<^sup>* w w'" and "queue_matches (mtds_rep e T) (\<lambda>p. tenant_of e p \<in> T) w"
  shows "queue_matches (mtds_rep e T) (\<lambda>p. tenant_of e p \<in> T) w'"
  using assms by (induction rule: rtranclp_induct) (auto intro: mtds_worker_step_matches)

text \<open>A worker with the queues of freshly initialised tenants.\<close>

definition fresh_mtds :: "tenancy \<Rightarrow> mtds_runqueue" where
  "fresh_mtds e = fst (local_runqueue_mtds_initialize e (\<lambda>t. perworker_tenant_init (period e t)))"

lemma init_holds:
  "queue_holds (priority_queue_initialize n False :: 'a priority_queue) n {#}"
  "heap_holds (priority_queue_initialize n False :: 'a priority_queue) n {}"
  using initialize_inv(1) [of "\<lambda>x :: 'a. 0" n False]
  by (auto simp: queue_holds_def heap_holds_def pq_inv_def initialize_inv(2)) (simp_all add: lock_ok_def priority_queue_initialize_def)

lemma init_order: "pq_order gp (priority_queue_initialize n False)"
  using initialize_inv(1) [of gp n False] by (simp add: pq_inv_def)

lemma fresh_mtds_rep: "\<lbrakk>finite T; card T \<le> RUNTIME_MAX_TENANT_COUNT\<rbrakk> \<Longrightarrow> mtds_rep e T (fresh_mtds e) {#}"
  by (auto simp: mtds_rep_def fresh_mtds_def local_runqueue_mtds_initialize_def perworker_tenant_init_def init_holds class_queue_def paid_def
      word_neq_0_conv)

lemma fresh_mtds_ordered: "mtds_ordered e (fresh_mtds e)" "timeouts_ordered (fresh_mtds e)"
  by (auto simp: mtds_ordered_def timeouts_ordered_def fresh_mtds_def local_runqueue_mtds_initialize_def perworker_tenant_init_def
      init_order class_queue_def)

definition two_tenants :: tenancy where
  "two_tenants = \<lparr>deadline = of_nat, tenant_of = (\<lambda>p. p mod 2), period = (\<lambda>t. if t = 1 then 100 else 0), budget = (\<lambda>t. 50), boot = 0, clock = 10\<rparr>"

theorem mtds_runqueue_membership_witness:
  "queue_matches (mtds_rep two_tenants {0, 1}) (\<lambda>p. tenant_of two_tenants p \<in> {0, 1}) (idle_worker (fresh_mtds two_tenants))"
proof (rule mtds_runqueue_membership [OF rtranclp.rtrancl_refl])
  have "mtds_rep two_tenants {0, 1} (fresh_mtds two_tenants) {#}"
    by (rule fresh_mtds_rep) (simp_all add: RUNTIME_MAX_TENANT_COUNT_def)
  then show "queue_matches (mtds_rep two_tenants {0, 1}) (\<lambda>p. tenant_of two_tenants p \<in> {0, 1}) (idle_worker (fresh_mtds two_tenants))"
    by (auto simp: queue_matches_def idle_worker_def zero_sandbox_def queued_state_def two_tenants_def intro!: exI [of _ "{#}"])
qed


lemma two_tenants_queued:
  "\<exists>q. mtds_rep two_tenants {0, 1} q {#1, 2#}"
proof -
  have "mtds_rep two_tenants {0, 1} (fresh_mtds two_tenants) {#}" by (rule fresh_mtds_rep) (simp_all add: RUNTIME_MAX_TENANT_COUNT_def)
  then obtain q where q: "mtds_rep two_tenants {0, 1} q {#2#}"
    using mtds_add_first [of two_tenants "{0, 1}" _ "{#}" 2] by (auto simp: two_tenants_def)
  then show ?thesis using mtds_add_first [OF q, of 1] by (auto simp: two_tenants_def)
qed




end
