(* ===== verification/Mtds_Scheduler.thy ===== *)
theory Mtds_Scheduler
  imports Scheduler Mtds_Runqueue
begin

text \<open>
  The request queue of the multi-tenant policy, runtime/src/global_request_scheduler_mtds.c, with the set-up of a
  tenant in runtime/include/tenant_functions.h and the choice of the next sandbox in
  runtime/include/scheduler.h. The requests of a tenant wait in a queue of their own, \<open>tgrq_requests\<close>, and these
  queues in two heaps, one for each class, under one lock; no operation is interleaved with another while it
  is held. A pointer to a \<open>tgrq\<close>, and one to the timeout inside of it, is the tenant.
\<close>

record tenant_global_request_queue =
  sandbox_requests :: "sandbox_ptr priority_queue"
  tgrq_timeout :: u64
  tgrq_class :: mt_class

record mtds_requests =
  global_guaranteed :: "nat priority_queue"
  global_default :: "nat priority_queue"
  global_timeouts :: "nat priority_queue"
  tgrq :: "nat \<Rightarrow> tenant_global_request_queue"

definition tenant_request_queue_get_priority ::
  "(sandbox_ptr \<Rightarrow> u64) \<Rightarrow> (nat \<Rightarrow> tenant_global_request_queue) \<Rightarrow> nat \<Rightarrow> u64" where
  "tenant_request_queue_get_priority dl G t = head_priority dl (sandbox_requests (G t))"

definition request_class_queue :: "mtds_requests \<Rightarrow> mt_class \<Rightarrow> nat priority_queue" where
  "request_class_queue g c = (if c = MT_GUARANTEED then global_guaranteed g else global_default g)"

definition set_request_class_queue :: "mt_class \<Rightarrow> nat priority_queue \<Rightarrow> mtds_requests \<Rightarrow> mtds_requests" where
  "set_request_class_queue c d g = (if c = MT_GUARANTEED then g\<lparr>global_guaranteed := d\<rparr> else g\<lparr>global_default := d\<rparr>)"

definition upd_tgrq ::
  "nat \<Rightarrow> (tenant_global_request_queue \<Rightarrow> tenant_global_request_queue) \<Rightarrow> mtds_requests \<Rightarrow> mtds_requests" where
  "upd_tgrq t f g = g\<lparr>tgrq := (tgrq g)(t := f (tgrq g t))\<rparr>"

definition global_request_scheduler_mtds_demote_nolock :: "bool \<Rightarrow> tenancy \<Rightarrow> mtds_requests \<Rightarrow> nat \<Rightarrow> mtds_requests res" where
  "global_request_scheduler_mtds_demote_nolock lt e g t =
     (if tgrq_class (tgrq g t) = MT_DEFAULT then Inr g
      else let gp = tenant_request_queue_get_priority (deadline e) (tgrq g)
      in bindr (priority_queue_delete_nolock lt gp (global_guaranteed g) t) (\<lambda>(rc, a).
         if rc = - 1 then Inl Panic
         else bindr (priority_queue_enqueue_nolock gp (global_default g) t) (\<lambda>(rc, d).
              if rc = - ENOSPC then Inl Panic else Inr (g\<lparr>global_guaranteed := a, global_default := d\<rparr>))))"

definition global_request_scheduler_mtds_add ::
  "bool \<Rightarrow> tenancy \<Rightarrow> mtds_requests \<Rightarrow> sandbox_ptr \<Rightarrow> (sandbox_ptr option \<times> mtds_requests) res" where
  "global_request_scheduler_mtds_add lt e g p =
     (if \<not> lt then Inl Panic
      else let t = tenant_of e p; c = tgrq_class (tgrq g t); last_mrq_deadline = priority_queue_peek (sandbox_requests (tgrq g t))
      in bindr (priority_queue_enqueue_nolock (deadline e) (sandbox_requests (tgrq g t)) p) (\<lambda>(rc, r).
         if rc = - ENOSPC then Inl Panic
         else let g1 = upd_tgrq t (\<lambda>x. x\<lparr>sandbox_requests := r\<rparr>) g;
                  gp = tenant_request_queue_get_priority (deadline e) (tgrq g1)
         in if priority_queue_peek r < last_mrq_deadline
            then bindr (priority_queue_delete_nolock lt gp (request_class_queue g1 c) t) (\<lambda>(rc, d).
                 bindr (priority_queue_enqueue_nolock gp d t) (\<lambda>(rc, d').
                 if rc = - ENOSPC then Inl Panic else Inr (Some p, set_request_class_queue c d' g1)))
            else Inr (Some p, g1)))"

text \<open>These two are only there for the interface.\<close>

definition global_request_scheduler_mtds_remove :: "mtds_requests \<Rightarrow> (int \<times> sandbox_ptr option \<times> mtds_requests) res" where
  "global_request_scheduler_mtds_remove g = Inr (- 1, None, g)"

definition global_request_scheduler_mtds_remove_if_earlier ::
  "mtds_requests \<Rightarrow> u64 \<Rightarrow> (int \<times> sandbox_ptr option \<times> mtds_requests) res" where
  "global_request_scheduler_mtds_remove_if_earlier g target_deadline = Inr (- 1, None, g)"

text \<open>The end of \<open>global_request_scheduler_mtds_remove_with_mt_class\<close>: a request is taken out of the queue of its tenant.\<close>

definition remove_request ::
  "bool \<Rightarrow> tenancy \<Rightarrow> mtds_requests \<Rightarrow> mt_class \<Rightarrow> nat option \<Rightarrow> (int \<times> sandbox_ptr option \<times> mtds_requests) res" where
  "remove_request lt e g c top_tgrq =
     (case top_tgrq of
        None \<Rightarrow> Inl Assertion_Failure
      | Some t \<Rightarrow>
          bindr (priority_queue_dequeue_nolock lt (deadline e) (sandbox_requests (tgrq g t))) (\<lambda>(rc, removed, r).
          assertc (rc = 0)
            (let g1 = upd_tgrq t (\<lambda>x. x\<lparr>sandbox_requests := r\<rparr>) g;
                 gp = tenant_request_queue_get_priority (deadline e) (tgrq g1)
             in bindr (priority_queue_delete_nolock lt gp (request_class_queue g1 c) t) (\<lambda>(rc', d).
                if rc' = - 1 then Inl Panic
                else bindr (priority_queue_length_nolock r) (\<lambda>n.
                if n > 0
                then bindr (priority_queue_enqueue_nolock gp d t) (\<lambda>(rc'', d'). Inr (rc, removed, set_request_class_queue c d' g1))
                else Inr (rc, removed, set_request_class_queue c d g1))))))"

definition global_request_scheduler_mtds_remove_with_mt_class ::
  "bool \<Rightarrow> tenancy \<Rightarrow> mtds_requests \<Rightarrow> u64 \<Rightarrow> mt_class \<Rightarrow> (int \<times> sandbox_ptr option \<times> mtds_requests) res" where
  "global_request_scheduler_mtds_remove_with_mt_class lt e g target_deadline target_mt_class =
     (let global_guaranteed_deadline = priority_queue_peek (global_guaranteed g);
          global_default_deadline = priority_queue_peek (global_default g)
      in if (case target_mt_class of
               MT_GUARANTEED \<Rightarrow> target_deadline \<le> global_guaranteed_deadline
             | MT_DEFAULT \<Rightarrow> global_guaranteed_deadline = UINT64_MAX \<and> target_deadline \<le> global_default_deadline)
         then Inr (- ENOENT, None, g)
         else bindr (priority_queue_top_nolock (global_guaranteed g)) (\<lambda>(rc, top_tgrq).
         if rc = - ENOENT
         then if target_mt_class = MT_GUARANTEED then Inr (rc, None, g)
              else bindr (priority_queue_top_nolock (global_default g)) (\<lambda>(rc', top_tgrq').
                   if rc' = - ENOENT then Inr (rc', None, g) else remove_request lt e g MT_DEFAULT top_tgrq')
         else case top_tgrq of
                None \<Rightarrow> Inl Null_Dereference
              | Some t \<Rightarrow>
                  if tgrq_class (tgrq g t) = MT_GUARANTEED \<and> exhausted e t
                  then bindr (global_request_scheduler_mtds_demote_nolock lt e g t) (\<lambda>g1.
                       Inr (- ENOENT, None, upd_tgrq t (\<lambda>x. x\<lparr>tgrq_class := MT_DEFAULT\<rparr>) g1))
                  else remove_request lt e g MT_GUARANTEED top_tgrq))"

definition global_request_scheduler_mtds_guaranteed_peek :: "mtds_requests \<Rightarrow> u64" where
  "global_request_scheduler_mtds_guaranteed_peek g = priority_queue_peek (global_guaranteed g)"

definition global_request_scheduler_mtds_default_peek :: "mtds_requests \<Rightarrow> u64" where
  "global_request_scheduler_mtds_default_peek g = priority_queue_peek (global_default g)"

definition global_request_scheduler_mtds_peek :: "mtds_requests \<Rightarrow> u64" where
  "global_request_scheduler_mtds_peek g =
     (let val = priority_queue_peek (global_guaranteed g)
      in if val = UINT64_MAX then priority_queue_peek (global_default g) else val)"

definition mtds_scheduler_config :: "bool \<Rightarrow> tenancy \<Rightarrow> mtds_requests global_request_scheduler_config" where
  "mtds_scheduler_config lt e = \<lparr>grs_add_fn = Some (global_request_scheduler_mtds_add lt e),
     grs_remove_fn = Some global_request_scheduler_mtds_remove,
     grs_remove_if_earlier_fn = Some global_request_scheduler_mtds_remove_if_earlier,
     grs_peek_fn = Some (\<lambda>g. Inr (global_request_scheduler_mtds_peek g))\<rparr>"

definition global_request_scheduler_mtds_initialize ::
  "bool \<Rightarrow> tenancy \<Rightarrow> (nat \<Rightarrow> tenant_global_request_queue) \<Rightarrow> mtds_requests \<times> mtds_requests global_request_scheduler_config" where
  "global_request_scheduler_mtds_initialize lt e G =
     (\<lparr>global_guaranteed = priority_queue_initialize RUNTIME_MAX_TENANT_COUNT False,
       global_default = priority_queue_initialize RUNTIME_MAX_TENANT_COUNT False,
       global_timeouts = priority_queue_initialize RUNTIME_MAX_TENANT_COUNT False, tgrq = G\<rparr>, mtds_scheduler_config lt e)"

definition tgrq_timeout_get_priority :: "(nat \<Rightarrow> tenant_global_request_queue) \<Rightarrow> nat \<Rightarrow> u64" where
  "tgrq_timeout_get_priority G t = tgrq_timeout (G t)"

definition global_timeout_queue_add :: "tenancy \<Rightarrow> mtds_requests \<Rightarrow> nat \<Rightarrow> mtds_requests res" where
  "global_timeout_queue_add e g t =
     bindr (get_next_timeout_of_tenant (boot e) (clock e) (period e t)) (\<lambda>timeout.
     let g1 = upd_tgrq t (\<lambda>x. x\<lparr>tgrq_timeout := timeout\<rparr>) g
     in bindr (priority_queue_enqueue_nolock (tgrq_timeout_get_priority (tgrq g1)) (global_timeouts g1) t)
          (\<lambda>(rc, q). Inr (g1\<lparr>global_timeouts := q\<rparr>)))"

definition global_request_scheduler_mtds_promote_lock :: "bool \<Rightarrow> tenancy \<Rightarrow> mtds_requests \<Rightarrow> nat \<Rightarrow> mtds_requests res" where
  "global_request_scheduler_mtds_promote_lock lt e g t =
     (if tgrq_class (tgrq g t) = MT_GUARANTEED then Inr g
      else bindr (priority_queue_length_nolock (sandbox_requests (tgrq g t))) (\<lambda>n.
      if n = 0 then Inr g
      else let gp = tenant_request_queue_get_priority (deadline e) (tgrq g)
      in bindr (priority_queue_delete_nolock lt gp (global_default g) t) (\<lambda>(rc, d).
         if rc = - 1 then Inl Panic
         else bindr (priority_queue_enqueue_nolock gp (global_guaranteed g) t) (\<lambda>(rc, a).
              if rc = - ENOSPC then Inl Panic else Inr (g\<lparr>global_default := d, global_guaranteed := a\<rparr>)))))"

text \<open>
  The promotions. \<open>global_promote_due\<close> is the body of the loop, which gives the tenant with the next timeout, the
  request queue and the budgets. The compare-and-exchange loop ends with the budget at its maximum. The loop
  reads the clock twice in each round, for the next timeout and for its condition.
\<close>

definition global_promote_due ::
  "bool \<Rightarrow> tenancy \<Rightarrow> (nat \<Rightarrow> u64) \<Rightarrow> u64 \<Rightarrow> mtds_requests \<Rightarrow> (nat \<Rightarrow> u64) \<Rightarrow> nat \<Rightarrow> (nat \<times> mtds_requests \<times> (nat \<Rightarrow> u64)) res" where
  "global_promote_due lt e max_budget now g remaining t =
     bindr
       (if tgrq_class (tgrq g t) = MT_DEFAULT
        then bindr (priority_queue_length_nolock (sandbox_requests (tgrq g t))) (\<lambda>n.
             bindr (if n > 0 then global_request_scheduler_mtds_promote_lock lt e g t else Inr g) (\<lambda>g1.
             Inr (upd_tgrq t (\<lambda>x. x\<lparr>tgrq_class := MT_GUARANTEED\<rparr>) g1)))
        else Inr g)
       (\<lambda>g1. bindr (priority_queue_delete_nolock lt (tgrq_timeout_get_priority (tgrq g1)) (global_timeouts g1) t) (\<lambda>(rc, q).
        bindr (get_next_timeout_of_tenant (boot e) now (period e t)) (\<lambda>timeout.
        let g2 = upd_tgrq t (\<lambda>x. x\<lparr>tgrq_timeout := timeout\<rparr>) g1
        in bindr (priority_queue_enqueue_nolock (tgrq_timeout_get_priority (tgrq g2)) q t) (\<lambda>(rc, q').
           bindr (priority_queue_top_nolock q') (\<lambda>(rc, top_timeout).
           case top_timeout of
             None \<Rightarrow> if rc = - ENOENT then Inr (t, g2\<lparr>global_timeouts := q'\<rparr>, remaining(t := max_budget t)) else Inl Null_Dereference
           | Some t' \<Rightarrow> Inr (t', g2\<lparr>global_timeouts := q'\<rparr>, remaining(t := max_budget t)))))))"

fun global_promotions_loop ::
  "bool \<Rightarrow> tenancy \<Rightarrow> (nat \<Rightarrow> u64) \<Rightarrow> u64 \<Rightarrow> u64 list \<Rightarrow> mtds_requests \<Rightarrow> (nat \<Rightarrow> u64) \<Rightarrow> nat \<Rightarrow>
    (mtds_requests \<times> (nat \<Rightarrow> u64)) res option" where
  "global_promotions_loop lt e mb now readings g remaining t =
     (if now < tgrq_timeout (tgrq g t) then Some (Inr (g, remaining))
      else case readings of
             r # r' # rs \<Rightarrow>
               (case global_promote_due lt e mb r g remaining t of
                  Inl a \<Rightarrow> Some (Inl a)
                | Inr (t', g', remaining') \<Rightarrow> global_promotions_loop lt e mb r' rs g' remaining' t')
           | _ \<Rightarrow> None)"

definition global_timeout_queue_process_promotions ::
  "bool \<Rightarrow> tenancy \<Rightarrow> (nat \<Rightarrow> u64) \<Rightarrow> u64 list \<Rightarrow> mtds_requests \<Rightarrow> (nat \<Rightarrow> u64) \<Rightarrow>
    (mtds_requests \<times> (nat \<Rightarrow> u64)) res option" where
  "global_timeout_queue_process_promotions lt e mb readings g remaining =
     (case priority_queue_top_nolock (global_timeouts g) of
        Inl a \<Rightarrow> Some (Inl a)
      | Inr (rc, None) \<Rightarrow> Some (Inr (g, remaining))
      | Inr (rc, Some t) \<Rightarrow> global_promotions_loop lt e mb (clock e) readings g remaining t)"

subsection \<open>The set-up of a tenant\<close>

text \<open>
  What the policy keeps of a tenant. The entries of the array for the workers are equal at first. The results of
  the two allocations are \<open>queues_allocated\<close>, for that array, and \<open>tgrq_allocated\<close>, which the code does not test.
\<close>

record tenant_policy =
  tp_replenishment_period :: u64
  tp_max_budget :: u64
  tp_remaining_budget :: u64
  tp_pwt :: "perworker_tenant_sandbox_queue list"
  tp_tgrq :: "tenant_global_request_queue option"

definition tgrq_init :: "u64 \<Rightarrow> tenant_global_request_queue" where
  "tgrq_init rp =
     \<lparr>sandbox_requests = priority_queue_initialize RUNTIME_TENANT_QUEUE_SIZE False, tgrq_timeout = 0,
      tgrq_class = (if rp = 0 then MT_DEFAULT else MT_GUARANTEED)\<rparr>"

definition tenant_policy_specific_init ::
  "scheduler_policy \<Rightarrow> u32 \<Rightarrow> nat \<Rightarrow> bool \<Rightarrow> bool \<Rightarrow> u32 \<Rightarrow> u32 \<Rightarrow> tenant_policy \<Rightarrow> (int \<times> tenant_policy) res" where
  "tenant_policy_specific_init policy runtime_processor_speed_MHz runtime_worker_threads_count queues_allocated tgrq_allocated
     replenishment_period_us max_budget_us tn =
     (case policy of
        SCHEDULER_FIFO \<Rightarrow> Inr (0, tn)
      | SCHEDULER_EDF \<Rightarrow> Inr (0, tn)
      | SCHEDULER_MTDS \<Rightarrow>
          let rp = ucast replenishment_period_us * ucast runtime_processor_speed_MHz;
              mb = ucast max_budget_us * ucast runtime_processor_speed_MHz;
              tn1 = tn\<lparr>tp_replenishment_period := rp, tp_max_budget := mb, tp_remaining_budget := mb\<rparr>
          in if \<not> queues_allocated then Inr (- 1, tn1\<lparr>tp_pwt := []\<rparr>)
             else if \<not> tgrq_allocated then Inl Null_Dereference
             else Inr (0, tn1\<lparr>tp_pwt := replicate runtime_worker_threads_count (perworker_tenant_init rp),
                     tp_tgrq := Some (tgrq_init rp)\<rparr>)
      | SCHEDULER_MTDBF \<Rightarrow> Inr (0, tn))"

subsection \<open>The choice of the next sandbox\<close>

text \<open>The budgets that the decisions read are those of the tenants at this moment.\<close>

definition tenancy_now :: "tenancy \<Rightarrow> (mtds_runqueue, mtds_requests) node \<Rightarrow> tenancy" where
  "tenancy_now e s = e\<lparr>budget := remaining_budget (wk s)\<rparr>"

definition scheduler_mtds_get_next ::
  "build_flags \<Rightarrow> tenancy \<Rightarrow> readings \<Rightarrow> (mtds_runqueue, mtds_requests) node \<Rightarrow>
    (sandbox_ptr option \<times> (mtds_runqueue, mtds_requests) node) res" where
  "scheduler_mtds_get_next b e0 r s =
     (let e = tenancy_now e0 s; cfg = mtds_config e
      in bindr (local_runqueue_get_next cfg (runq (wk s))) (\<lambda>(local, q).
         let s = s\<lparr>wk := (wk s)\<lparr>runq := q\<rparr>\<rparr>;
             local_deadline = deadline_of (wk s) local;
             local_mt_class = (case local of None \<Rightarrow> MT_DEFAULT | Some p \<Rightarrow> pwt_class (pwt q (tenant_of e p)));
             global_guaranteed_deadline = global_request_scheduler_mtds_guaranteed_peek (grq s);
             global_default_deadline = global_request_scheduler_mtds_default_peek (grq s)
         in if (case local_mt_class of
                  MT_GUARANTEED \<Rightarrow> local_deadline \<le> global_guaranteed_deadline
                | MT_DEFAULT \<Rightarrow> global_guaranteed_deadline = UINT64_MAX \<and> local_deadline \<le> global_default_deadline)
            then return_next cfg s
            else bindr (global_request_scheduler_mtds_remove_with_mt_class False e (grq s) local_deadline local_mt_class)
              (\<lambda>(rc, global, g).
               if rc = 0
               then case global of
                      None \<Rightarrow> Inl Assertion_Failure
                    | Some p \<Rightarrow>
                        bindr (sandbox_prepare_execution_environment b cfg (t_prepare r) (allocs r) p (wk s)) (\<lambda>(rc', w1).
                        assertc (state_of w1 p = SANDBOX_INITIALIZED)
                          (bindr (sandbox_set_as_runnable b cfg (t_runnable r) p SANDBOX_INITIALIZED w1) (\<lambda>w2.
                           return_next cfg (s\<lparr>wk := w2, grq := g\<rparr>))))
               else return_next cfg (s\<lparr>grq := g\<rparr>))))"

subsection \<open>What the request queue holds\<close>

text \<open>
  The requests \<open>A\<close> wait with their tenants, who are among the tenants \<open>T\<close>. The queues of requests and the heap of
  guaranteed tenants are in order, and the memoised priorities are right.
\<close>

definition requests_rep :: "tenancy \<Rightarrow> nat set \<Rightarrow> mtds_requests \<Rightarrow> sandbox_ptr multiset \<Rightarrow> bool" where
  "requests_rep e T g A \<longleftrightarrow> finite T \<and> card T \<le> RUNTIME_MAX_TENANT_COUNT \<and> tenant_of e ` set_mset A \<subseteq> T \<and>
     (\<forall>p\<in>#A. deadline e p \<noteq> UINT64_MAX) \<and>
     (\<forall>t. queue_holds (sandbox_requests (tgrq g t)) RUNTIME_TENANT_QUEUE_SIZE (filter_mset (\<lambda>p. tenant_of e p = t) A) \<and>
        pq_inv (deadline e) (sandbox_requests (tgrq g t))) \<and>
     (\<forall>c. heap_holds (request_class_queue g c) RUNTIME_MAX_TENANT_COUNT {t \<in> tenant_of e ` set_mset A. tgrq_class (tgrq g t) = c} \<and>
        pq_memo (tenant_request_queue_get_priority (deadline e) (tgrq g)) (request_class_queue g c)) \<and>
     pq_order (tenant_request_queue_get_priority (deadline e) (tgrq g)) (global_guaranteed g)"

lemma requests_rep_parts:
  assumes "requests_rep e T g A"
  shows "finite T" "card T \<le> RUNTIME_MAX_TENANT_COUNT" "tenant_of e ` set_mset A \<subseteq> T" "\<And>p. p \<in># A \<Longrightarrow> deadline e p \<noteq> UINT64_MAX"
    "\<And>t. queue_holds (sandbox_requests (tgrq g t)) RUNTIME_TENANT_QUEUE_SIZE (filter_mset (\<lambda>p. tenant_of e p = t) A)"
    "\<And>t. pq_inv (deadline e) (sandbox_requests (tgrq g t))"
    "\<And>c. heap_holds (request_class_queue g c) RUNTIME_MAX_TENANT_COUNT {t \<in> tenant_of e ` set_mset A. tgrq_class (tgrq g t) = c}"
    "\<And>c. pq_memo (tenant_request_queue_get_priority (deadline e) (tgrq g)) (request_class_queue g c)"
    "pq_order (tenant_request_queue_get_priority (deadline e) (tgrq g)) (request_class_queue g MT_GUARANTEED)"
  using assms by (auto simp: requests_rep_def request_class_queue_def)

lemma requests_repI:
  assumes "finite T" "card T \<le> RUNTIME_MAX_TENANT_COUNT" "tenant_of e ` set_mset A \<subseteq> T" "\<And>p. p \<in># A \<Longrightarrow> deadline e p \<noteq> UINT64_MAX"
    "\<And>t. queue_holds (sandbox_requests (tgrq g t)) RUNTIME_TENANT_QUEUE_SIZE (filter_mset (\<lambda>p. tenant_of e p = t) A)"
    "\<And>t. pq_inv (deadline e) (sandbox_requests (tgrq g t))"
    "\<And>c. heap_holds (request_class_queue g c) RUNTIME_MAX_TENANT_COUNT {t \<in> tenant_of e ` set_mset A. tgrq_class (tgrq g t) = c}"
    "\<And>c. pq_memo (tenant_request_queue_get_priority (deadline e) (tgrq g)) (request_class_queue g c)"
    "pq_order (tenant_request_queue_get_priority (deadline e) (tgrq g)) (request_class_queue g MT_GUARANTEED)"
  shows "requests_rep e T g A"
  using assms by (auto simp: requests_rep_def request_class_queue_def)

lemma request_update_simps [simp]:
  "request_class_queue (upd_tgrq t f g) = request_class_queue g" "tgrq (upd_tgrq t f g) = (tgrq g)(t := f (tgrq g t))"
  "request_class_queue (set_request_class_queue c d g) c' = (if c' = c then d else request_class_queue g c')"
  "tgrq (set_request_class_queue c d g) = tgrq g" "global_timeouts (upd_tgrq t f g) = global_timeouts g"
  "global_timeouts (set_request_class_queue c d g) = global_timeouts g"
  by (cases c; cases c'; auto simp: request_class_queue_def set_request_class_queue_def upd_tgrq_def fun_eq_iff)+

text \<open>The priority of a tenant is the memoised one of its queue.\<close>

lemma head_priority_memo: "\<lbrakk>pq_inv dl q; lock_ok q\<rbrakk> \<Longrightarrow> head_priority dl q = highest_priority q"
  using top_nolock_ok [of dl q]
  by (cases "pq_size q = 0") (auto simp: head_priority_def priority_queue_top_nolock_def priority_queue_is_empty_def pq_inv_def pq_memo_def)

lemma tenant_priority:
  assumes "requests_rep e T g A"
  shows "tenant_request_queue_get_priority (deadline e) (tgrq g) t = highest_priority (sandbox_requests (tgrq g t))"
  using head_priority_memo [OF requests_rep_parts(6) [OF assms, of t]] requests_rep_parts(5) [OF assms, of t]
  by (simp add: tenant_request_queue_get_priority_def queue_holds_def)

lemma request_head:
  assumes "requests_rep e T g A"
  shows "highest_priority (sandbox_requests (tgrq g t)) =
    (if t \<in> tenant_of e ` set_mset A then Min (deadline e ` {x \<in> set_mset A. tenant_of e x = t}) else UINT64_MAX)"
  using peek_is_Min [OF requests_rep_parts(6) [OF assms, of t]] requests_rep_parts(5) [OF assms, of t] filter_tenant_empty [of e t A]
  by (auto simp: queue_holds_def)

lemma pq_memo_agree:
  assumes "pq_shape q" "\<And>x. x \<in># pq_contents q \<Longrightarrow> gp' x = gp x"
  shows "pq_memo gp' q = pq_memo gp q"
proof (cases "pq_size q = 0")
  case False
  then obtain x where x: "pq_items q ! 1 = Some x" using shape_slot [OF assms(1), of 1] by auto
  then have "x \<in># pq_contents q" using in_pq_contents_conv [OF assms(1)] False by (metis One_nat_def Suc_leI neq0_conv order_refl)
  then show ?thesis using x assms(2) by (simp add: pq_memo_def key_def)
qed (simp add: pq_memo_def)

lemma class_heap_agree:
  assumes "heap_holds q n X" "\<And>x. x \<in> X \<Longrightarrow> gp' x = gp x"
  shows "pq_order gp' q = pq_order gp q" "pq_memo gp' q = pq_memo gp q"
proof -
  have q: "pq_shape q" "pq_contents q = mset_set X" "finite X" using assms(1) by (auto simp: heap_holds_def)
  then show "pq_order gp' q = pq_order gp q" "pq_memo gp' q = pq_memo gp q"
    using assms(2) by (auto intro!: pq_order_agree pq_memo_agree)
qed

subsection \<open>Adding a request\<close>

lemma delete_by_listener:
  assumes "heap_holds q n X" "v \<in> X"
  shows "priority_queue_delete_nolock True gp q v = Inl Assertion_Failure"
proof -
  have q: "pq_shape q" "lock_ok q" "v \<in># pq_contents q" using assms by (auto simp: heap_holds_def)
  obtain j where j: "1 \<le> j" "j \<le> pq_size q" "pq_items q ! j = Some v" "\<And>j'. \<lbrakk>1 \<le> j'; j' < j\<rbrakk> \<Longrightarrow> pq_items q ! j' \<noteq> Some v"
    using first_slot [OF q(1,3)] by blast
  have "lock_ok (replace_with_last q j)" using q(2) by (simp add: replace_with_last_def lock_ok_def)
  then show ?thesis
    using q(2) delete_search_found [OF q(1) order_refl j, of True gp] by (simp add: priority_queue_delete_nolock_def priority_queue_percolate_down_def)
qed

lemma enqueue_request:
  assumes "queue_holds q n A" "pq_inv dl q" "size A < n"
  shows "\<exists>q'. priority_queue_enqueue_nolock dl q p = Inr (0, q') \<and> queue_holds q' n (add_mset p A) \<and> pq_inv dl q'"
proof -
  have q: "pq_shape q" "lock_ok q" "pq_capacity q = n" "pq_contents q = A" "pq_memo dl q" "pq_order dl q"
    using assms by (auto simp: queue_holds_def pq_inv_def)
  have "pq_size q < pq_capacity q" using size_pq_contents [OF q(1)] q assms(3) by simp
  from enqueue_nolock_shape [OF q(1,2) this, of dl p] show ?thesis using q by (auto simp: queue_holds_def pq_inv_def lock_ok_def)
qed

lemma peek_after_enqueue:
  assumes "queue_holds q n A" "pq_inv dl q" "queue_holds q' n (add_mset p A)" "pq_inv dl q'"
  shows "highest_priority q' = (if dl p < highest_priority q then dl p else highest_priority q)"
proof -
  have m: "highest_priority q = (if A = {#} then UINT64_MAX else Min (dl ` set_mset A))"
    "highest_priority q' = Min (dl ` set_mset (add_mset p A))"
    using peek_is_Min [OF assms(2)] peek_is_Min [OF assms(4)] assms(1,3) by (auto simp: queue_holds_def)
  show ?thesis
  proof (cases "A = {#}")
    case True
    then show ?thesis using m le_UINT64_MAX [of "dl p"] by (auto simp: not_less)
  next
    case False
    then have "Min (insert (dl p) (dl ` set_mset A)) = min (dl p) (Min (dl ` set_mset A))" by (intro Min_insert) auto
    then have "highest_priority q' = min (dl p) (highest_priority q)" unfolding m using False by simp
    then show ?thesis by (auto simp: min_def not_le)
  qed
qed

text \<open>A request of an active tenant that is not earlier than its others leaves the heaps alone.\<close>

lemma requests_rep_queued:
  assumes rep: "requests_rep e T g A" and p: "tenant_of e p = t" "t \<in> tenant_of e ` set_mset A" "deadline e p \<noteq> UINT64_MAX"
    and r: "queue_holds r RUNTIME_TENANT_QUEUE_SIZE (add_mset p (filter_mset (\<lambda>x. tenant_of e x = t) A))" "pq_inv (deadline e) r"
    and same: "highest_priority r = highest_priority (sandbox_requests (tgrq g t))"
  shows "requests_rep e T (upd_tgrq t (\<lambda>x. x\<lparr>sandbox_requests := r\<rparr>) g) (add_mset p A)"
proof -
  let ?g = "upd_tgrq t (\<lambda>x. x\<lparr>sandbox_requests := r\<rparr>) g"
  note parts = requests_rep_parts [OF rep]
  have gp: "tenant_request_queue_get_priority (deadline e) (tgrq ?g) = tenant_request_queue_get_priority (deadline e) (tgrq g)"
    using tenant_priority [OF rep] same head_priority_memo [OF r(2)] r(1)
    by (auto simp: fun_eq_iff tenant_request_queue_get_priority_def queue_holds_def)
  have B: "tenant_of e ` set_mset (add_mset p A) = tenant_of e ` set_mset A" using p(1,2) by auto
  have cl: "tgrq_class (tgrq ?g s) = tgrq_class (tgrq g s)" for s by simp
  have "pq_memo (tenant_request_queue_get_priority (deadline e) (tgrq ?g)) (request_class_queue ?g c)"
    "pq_order (tenant_request_queue_get_priority (deadline e) (tgrq ?g)) (request_class_queue ?g MT_GUARANTEED)" for c
    unfolding gp using parts(8,9) by simp_all
  moreover have "heap_holds (request_class_queue ?g c) RUNTIME_MAX_TENANT_COUNT
      {s \<in> tenant_of e ` set_mset (add_mset p A). tgrq_class (tgrq ?g s) = c}" for c
    unfolding B cl using parts(7) by simp
  ultimately show ?thesis
  proof (intro requests_repI, goal_cases)
    case (5 s)
    then show ?case using parts(5) [of s] r(1) p(1) by auto
  qed (use parts r p in \<open>auto\<close>)
qed

text \<open>The first request of a tenant puts it into the heap of its class.\<close>

lemma requests_rep_first:
  assumes rep: "requests_rep e T g A" and p: "tenant_of e p = t" "t \<in> T" "t \<notin> tenant_of e ` set_mset A" "deadline e p \<noteq> UINT64_MAX"
    and r: "queue_holds r RUNTIME_TENANT_QUEUE_SIZE (add_mset p (filter_mset (\<lambda>x. tenant_of e x = t) A))" "pq_inv (deadline e) r"
    and g1: "g1 = upd_tgrq t (\<lambda>x. x\<lparr>sandbox_requests := r\<rparr>) g" and c: "c = tgrq_class (tgrq g t)"
  shows "\<exists>d. priority_queue_enqueue_nolock (tenant_request_queue_get_priority (deadline e) (tgrq g1)) (request_class_queue g1 c) t = Inr (0, d) \<and>
    requests_rep e T (set_request_class_queue c d g1) (add_mset p A)"
proof -
  let ?gp = "tenant_request_queue_get_priority (deadline e) (tgrq g1)" and ?B = "tenant_of e ` set_mset A"
  let ?X = "\<lambda>c. {t \<in> ?B. tgrq_class (tgrq g t) = c}"
  note parts = requests_rep_parts [OF rep]
  have gp: "?gp s = tenant_request_queue_get_priority (deadline e) (tgrq g) s" if "s \<noteq> t" for s
    using that by (simp add: g1 tenant_request_queue_get_priority_def)
  have ag: "pq_memo ?gp (request_class_queue g c')" "pq_order ?gp (request_class_queue g MT_GUARANTEED)" for c'
    using class_heap_agree [OF parts(7), where gp' = ?gp and gp = "tenant_request_queue_get_priority (deadline e) (tgrq g)"] gp p(3) parts(8,9) by (metis mem_Collect_eq)+
  have sub: "?X c \<subseteq> T - {t}" using parts(3) p(3) by auto
  have "card (?X c) \<le> card (T - {t})" using sub parts(1) by (intro card_mono) auto
  also have "\<dots> < card T" using p(2) parts(1) by (intro card_Diff1_less)
  finally have room: "card (?X c) < RUNTIME_MAX_TENANT_COUNT" using parts(2) by simp
  obtain d where d: "priority_queue_enqueue_nolock ?gp (request_class_queue g c) t = Inr (0, d)"
    "heap_holds d RUNTIME_MAX_TENANT_COUNT (insert t (?X c))" "pq_memo ?gp d"
    "pq_order ?gp (request_class_queue g c) \<longrightarrow> pq_order ?gp d"
    using heap_enqueue [OF parts(7) [of c] _ room, of t ?gp] ag(1) [of c] p(3) by auto
  let ?g = "set_request_class_queue c d g1"
  have B: "tenant_of e ` set_mset (add_mset p A) = insert t ?B" using p(1) by auto
  have X: "{s \<in> insert t ?B. tgrq_class (tgrq ?g s) = c'} = (if c' = c then insert t (?X c) else ?X c')" for c'
    using c p(3) by (auto simp: g1)
  have "requests_rep e T ?g (add_mset p A)"
  proof (rule requests_repI, goal_cases)
    case (3)
    then show ?case using parts(3) p B by auto
  next
    case (5 s)
    then show ?case using parts(5) [of s] r(1) p(1) by (auto simp: g1)
  next
    case (7 c')
    then show ?case unfolding B X using parts(7) [of c'] d(2) by (auto simp: g1)
  next
    case (8 c')
    then show ?case using d(3) ag(1) by (auto simp: g1)
  next
    case 9
    then show ?case using d(4) ag(2) by (auto simp: g1)
  qed (use parts r p in \<open>auto simp: g1\<close>)
  then show ?thesis using d(1) by (auto simp: g1)
qed

definition earlier_than_others :: "tenancy \<Rightarrow> sandbox_ptr multiset \<Rightarrow> sandbox_ptr \<Rightarrow> bool" where
  "earlier_than_others e A p \<longleftrightarrow> tenant_of e p \<in> tenant_of e ` set_mset A \<and>
     (\<forall>x\<in>#A. tenant_of e x = tenant_of e p \<longrightarrow> deadline e p < deadline e x)"

lemma earlier_iff:
  assumes "requests_rep e T g A" "tenant_of e p \<in> tenant_of e ` set_mset A"
  shows "deadline e p < highest_priority (sandbox_requests (tgrq g (tenant_of e p))) \<longleftrightarrow> earlier_than_others e A p"
proof -
  let ?D = "{x \<in> set_mset A. tenant_of e x = tenant_of e p}"
  have "finite (deadline e ` ?D)" "deadline e ` ?D \<noteq> {}" using assms(2) by auto
  then have "deadline e p < Min (deadline e ` ?D) \<longleftrightarrow> (\<forall>d\<in>deadline e ` ?D. deadline e p < d)" by (rule Min_gr_iff)
  then show ?thesis using request_head [OF assms(1), of "tenant_of e p"] assms(2) by (auto simp: earlier_than_others_def)
qed

lemma requests_add_ok:
  assumes rep: "requests_rep e T g A" and p: "tenant_of e p \<in> T" "deadline e p \<noteq> UINT64_MAX"
    and room: "size (filter_mset (\<lambda>x. tenant_of e x = tenant_of e p) A) < RUNTIME_TENANT_QUEUE_SIZE"
  shows "if earlier_than_others e A p then global_request_scheduler_mtds_add True e g p = Inl Assertion_Failure
    else \<exists>g'. global_request_scheduler_mtds_add True e g p = Inr (Some p, g') \<and> requests_rep e T g' (add_mset p A) \<and>
      global_timeouts g' = global_timeouts g"
proof -
  let ?t = "tenant_of e p" and ?B = "tenant_of e ` set_mset A"
  let ?q = "sandbox_requests (tgrq g ?t)" and ?c = "tgrq_class (tgrq g ?t)"
  note parts = requests_rep_parts [OF rep]
  obtain r where r: "priority_queue_enqueue_nolock (deadline e) ?q p = Inr (0, r)"
    "queue_holds r RUNTIME_TENANT_QUEUE_SIZE (add_mset p (filter_mset (\<lambda>x. tenant_of e x = ?t) A))" "pq_inv (deadline e) r"
    using enqueue_request [OF parts(5,6) room] by blast
  note peek = peek_after_enqueue [OF parts(5,6) [of ?t] r(2,3)]
  define g1 where "g1 = upd_tgrq ?t (\<lambda>x. x\<lparr>sandbox_requests := r\<rparr>) g"
  let ?gp = "tenant_request_queue_get_priority (deadline e) (tgrq g1)"
  have add: "global_request_scheduler_mtds_add True e g p =
      (if deadline e p < highest_priority ?q
       then bindr (priority_queue_delete_nolock True ?gp (request_class_queue g ?c) ?t) (\<lambda>(rc, d).
            bindr (priority_queue_enqueue_nolock ?gp d ?t) (\<lambda>(rc, d'). if rc = - ENOSPC then Inl Panic else Inr (Some p, set_request_class_queue ?c d' g1)))
       else Inr (Some p, g1))"
    unfolding global_request_scheduler_mtds_add_def Let_def r(1) bindr.simps prod.case priority_queue_peek_def g1_def [symmetric]
    using peek by (auto simp: ENOSPC_def g1_def)
  consider (new) "?t \<notin> ?B" | (early) "?t \<in> ?B" "deadline e p < highest_priority ?q" | (late) "?t \<in> ?B" "\<not> deadline e p < highest_priority ?q" by blast
  then show ?thesis
  proof cases
    case new
    then have hp: "deadline e p < highest_priority ?q"
      using request_head [OF rep, of ?t] p(2) le_UINT64_MAX [of "deadline e p"] by (simp add: order_less_le)
    have "priority_queue_delete_nolock True ?gp (request_class_queue g ?c) ?t = Inr (- 1, request_class_queue g ?c)"
      using parts(7) [of ?c] new by (intro delete_nolock_missing) (auto simp: heap_holds_def)
    moreover obtain d where "priority_queue_enqueue_nolock ?gp (request_class_queue g1 ?c) ?t = Inr (0, d)"
      "requests_rep e T (set_request_class_queue ?c d g1) (add_mset p A)"
      using requests_rep_first [OF rep refl p(1) new p(2) r(2,3) g1_def refl] by blast
    ultimately have "global_request_scheduler_mtds_add True e g p = Inr (Some p, set_request_class_queue ?c d g1) \<and>
        requests_rep e T (set_request_class_queue ?c d g1) (add_mset p A)" unfolding add using hp by (simp add: g1_def ENOSPC_def)
    then show ?thesis using new by (auto simp: earlier_than_others_def g1_def)
  next
    case early
    have "priority_queue_delete_nolock True ?gp (request_class_queue g ?c) ?t = Inl Assertion_Failure"
      using early(1) by (intro delete_by_listener [OF parts(7) [of ?c]]) simp
    moreover have "earlier_than_others e A p"
      using early earlier_iff [OF rep] by blast
    ultimately show ?thesis unfolding add using early(2) by simp
  next
    case late
    then have "\<not> earlier_than_others e A p" using earlier_iff [OF rep] by blast
    moreover have "requests_rep e T g1 (add_mset p A)"
      unfolding g1_def using requests_rep_queued [OF rep refl late(1) p(2) r(2,3)] peek late(2) by simp
    ultimately show ?thesis unfolding add using late(2) by (auto simp: g1_def)
  qed
qed

subsection \<open>Taking a request\<close>

text \<open>What is taken out is the request with the earliest deadline of the tenant.\<close>

lemma dequeue_request:
  assumes rep: "requests_rep e T g A" and t: "t \<in> tenant_of e ` set_mset A"
  shows "\<exists>p r. priority_queue_dequeue_nolock False (deadline e) (sandbox_requests (tgrq g t)) = Inr (0, Some p, r) \<and> p \<in># A \<and> tenant_of e p = t \<and>
    deadline e p = highest_priority (sandbox_requests (tgrq g t)) \<and> (\<forall>x\<in>#A. tenant_of e x = t \<longrightarrow> deadline e p \<le> deadline e x) \<and>
    queue_holds r RUNTIME_TENANT_QUEUE_SIZE (filter_mset (\<lambda>x. tenant_of e x = t) (A - {#p#})) \<and> pq_inv (deadline e) r"
proof -
  let ?q = "sandbox_requests (tgrq g t)"
  note parts = requests_rep_parts [OF rep]
  have hp: "highest_priority ?q = Min (deadline e ` {x \<in> set_mset A. tenant_of e x = t})" using request_head [OF rep, of t] t by simp
  obtain x0 where x0: "x0 \<in># A" "tenant_of e x0 = t" using t by auto
  have "highest_priority ?q \<le> deadline e x0" unfolding hp using x0 by (intro Min_le) auto
  moreover have "deadline e x0 \<noteq> UINT64_MAX" using parts(4) x0(1) .
  ultimately have "highest_priority ?q < UINT64_MAX" using le_UINT64_MAX [of "deadline e x0"] by (auto simp: order_less_le)
  moreover have "lock_ok ?q" "pq_contents ?q = filter_mset (\<lambda>x. tenant_of e x = t) A" "pq_capacity ?q = RUNTIME_TENANT_QUEUE_SIZE"
    using parts(5) [of t] by (auto simp: queue_holds_def)
  ultimately obtain p r where p: "priority_queue_dequeue_nolock False (deadline e) ?q = Inr (0, Some p, r)" "pq_inv (deadline e) r"
    "p \<in># filter_mset (\<lambda>x. tenant_of e x = t) A" "deadline e p = highest_priority ?q"
    "pq_contents r = filter_mset (\<lambda>x. tenant_of e x = t) A - {#p#}" "pq_capacity r = RUNTIME_TENANT_QUEUE_SIZE" "lock_ok r"
    using dequeue_nolock_ok [OF parts(6) [of t], of UINT64_MAX] by (auto simp: priority_queue_dequeue_nolock_def lock_ok_def)
  have "deadline e p \<le> deadline e x" if "x \<in># A" "tenant_of e x = t" for x
    unfolding p(4) hp using that by (intro Min_le) auto
  moreover have "queue_holds r RUNTIME_TENANT_QUEUE_SIZE (filter_mset (\<lambda>x. tenant_of e x = t) (A - {#p#}))"
    using p by (auto simp: queue_holds_def pq_inv_def)
  ultimately show ?thesis using p by auto
qed

text \<open>The tenant leaves the heap and comes back if it has more requests, under its new priority.\<close>

lemma class_heap_refresh:
  assumes h: "heap_holds q n X" "card X \<le> n" "t \<in> X" "pq_items q ! 1 = Some t" and m: "pq_memo gp q"
    and ag: "\<And>s. s \<noteq> t \<Longrightarrow> gp' s = gp s"
  shows "\<exists>d. priority_queue_delete_nolock False gp' q t = Inr (0, d) \<and> heap_holds d n (X - {t}) \<and> pq_memo gp' d \<and> (pq_order gp q \<longrightarrow> pq_order gp' d) \<and>
    (\<exists>d'. priority_queue_enqueue_nolock gp' d t = Inr (0, d') \<and> heap_holds d' n X \<and> pq_memo gp' d' \<and> (pq_order gp q \<longrightarrow> pq_order gp' d'))"
proof -
  obtain d where d: "priority_queue_delete_nolock False gp' q t = Inr (0, d)" "heap_holds d n (X - {t})"
    "pq_order gp q \<longrightarrow> pq_order gp' d" "pq_memo gp' d"
    using heap_delete [OF h(1,3), of gp' gp] ag h(4) m by auto
  have "finite X" using h(1) by (simp add: heap_holds_def)
  then have "card (X - {t}) < n" using h(2,3) card_Diff1_less [of X t] by simp
  then obtain d' where "priority_queue_enqueue_nolock gp' d t = Inr (0, d')" "heap_holds d' n (insert t (X - {t}))"
    "pq_order gp' d \<longrightarrow> pq_order gp' d'" "pq_memo gp' d'"
    using heap_enqueue [OF d(2), of t gp'] d(4) by auto
  then show ?thesis using d h(3) by (auto simp: insert_absorb)
qed

lemma request_class_card:
  "requests_rep e T g A \<Longrightarrow> card {t \<in> tenant_of e ` set_mset A. P t} \<le> RUNTIME_MAX_TENANT_COUNT"
  using card_mono [of T "{t \<in> tenant_of e ` set_mset A. P t}"] requests_rep_parts(1-3) [of e T g A] by fastforce

lemma remove_request_ok:
  assumes rep: "requests_rep e T g A" and t: "t \<in> tenant_of e ` set_mset A" "tgrq_class (tgrq g t) = c"
    and root: "pq_items (request_class_queue g c) ! 1 = Some t"
  shows "\<exists>p g'. remove_request False e g c (Some t) = Inr (0, Some p, g') \<and> p \<in># A \<and> tenant_of e p = t \<and>
    deadline e p = highest_priority (sandbox_requests (tgrq g t)) \<and> (\<forall>x\<in>#A. tenant_of e x = t \<longrightarrow> deadline e p \<le> deadline e x) \<and>
    requests_rep e T g' (A - {#p#}) \<and> global_timeouts g' = global_timeouts g"
proof -
  let ?B = "tenant_of e ` set_mset A" and ?N = RUNTIME_MAX_TENANT_COUNT
  let ?X = "\<lambda>c. {t \<in> ?B. tgrq_class (tgrq g t) = c}"
  note parts = requests_rep_parts [OF rep]
  obtain p r where p: "priority_queue_dequeue_nolock False (deadline e) (sandbox_requests (tgrq g t)) = Inr (0, Some p, r)" "p \<in># A"
    "tenant_of e p = t" "deadline e p = highest_priority (sandbox_requests (tgrq g t))" "\<forall>x\<in>#A. tenant_of e x = t \<longrightarrow> deadline e p \<le> deadline e x"
    and r: "queue_holds r RUNTIME_TENANT_QUEUE_SIZE (filter_mset (\<lambda>x. tenant_of e x = t) (A - {#p#}))" "pq_inv (deadline e) r"
    using dequeue_request [OF rep t(1)] by blast
  define g1 where "g1 = upd_tgrq t (\<lambda>x. x\<lparr>sandbox_requests := r\<rparr>) g"
  let ?old = "tenant_request_queue_get_priority (deadline e) (tgrq g)" and ?gp = "tenant_request_queue_get_priority (deadline e) (tgrq g1)"
  have gp: "?gp s = ?old s" if "s \<noteq> t" for s using that by (simp add: g1_def tenant_request_queue_get_priority_def)
  obtain d d' where d: "priority_queue_delete_nolock False ?gp (request_class_queue g c) t = Inr (0, d)" "heap_holds d ?N (?X c - {t})"
    "pq_memo ?gp d" "pq_order ?old (request_class_queue g c) \<longrightarrow> pq_order ?gp d"
    and d': "priority_queue_enqueue_nolock ?gp d t = Inr (0, d')" "heap_holds d' ?N (?X c)"
    "pq_memo ?gp d'" "pq_order ?old (request_class_queue g c) \<longrightarrow> pq_order ?gp d'"
    using class_heap_refresh [OF parts(7) [of c] request_class_card [OF rep] _ root parts(8) gp] t by blast
  define more where "more = (t \<in> tenant_of e ` set_mset (A - {#p#}))"
  let ?d = "if more then d' else d"
  have len: "priority_queue_length_nolock r = Inr (size (filter_mset (\<lambda>x. tenant_of e x = t) (A - {#p#})))" by (rule queue_length [OF r(1)])
  have len_more: "0 < size (filter_mset (\<lambda>x. tenant_of e x = t) (A - {#p#})) \<longleftrightarrow> more"
    using filter_tenant_empty [of e t "A - {#p#}"] by (metis more_def nonempty_has_size)
  have eq: "remove_request False e g c (Some t) = Inr (0, Some p, set_request_class_queue c ?d g1)"
    unfolding remove_request_def Let_def option.case p(1) bindr.simps prod.case g1_def [symmetric]
    using d(1) d'(1) len len_more by (simp add: g1_def)
  let ?g = "set_request_class_queue c ?d g1"
  have B: "tenant_of e ` set_mset (A - {#p#}) = (if more then ?B else ?B - {t})"
  proof -
    have "A = add_mset p (A - {#p#})" using p(2) by simp
    then have "?B = insert t (tenant_of e ` set_mset (A - {#p#}))" using p(3) by (metis image_insert set_mset_add_mset_insert)
    then show ?thesis by (auto simp: more_def)
  qed
  have X: "{s \<in> tenant_of e ` set_mset (A - {#p#}). tgrq_class (tgrq ?g s) = c'} = (if c' = c \<and> \<not> more then ?X c - {t} else ?X c')" for c'
    unfolding B using t by (cases more) (auto simp: g1_def)
  have ag: "pq_memo ?gp (request_class_queue g c')" "pq_order ?gp (request_class_queue g c') = pq_order ?old (request_class_queue g c')" if "c' \<noteq> c" for c'
  proof -
    have "?gp s = ?old s" if "s \<in> ?X c'" for s using that \<open>c' \<noteq> c\<close> t(2) by (intro gp) auto
    from class_heap_agree [OF parts(7) [of c'] this] show "pq_memo ?gp (request_class_queue g c')"
      "pq_order ?gp (request_class_queue g c') = pq_order ?old (request_class_queue g c')" using parts(8) [of c'] by simp_all
  qed
  have "requests_rep e T ?g (A - {#p#})"
  proof (rule requests_repI, goal_cases)
    case 3
    show ?case unfolding B using parts(3) by auto
  next
    case (4 x)
    then show ?case using parts(4) in_diffD by fast
  next
    case (5 s)
    then show ?case using parts(5) [of s] r(1) p(3) by (cases "s = t") (auto simp: g1_def filter_diff_mset)
  next
    case (7 c')
    then show ?case unfolding X using parts(7) [of c'] d(2) d'(2) by (auto simp: g1_def)
  next
    case (8 c')
    then show ?case using d(3) d'(3) ag(1) by (auto simp: g1_def)
  next
    case 9
    then show ?case using d(4) d'(4) ag(2) parts(9) by (auto simp: g1_def)
  qed (use parts r in \<open>simp_all add: g1_def\<close>)
  then show ?thesis using eq p by (auto simp: g1_def)
qed

lemma request_priority_class [simp]:
  "tenant_request_queue_get_priority dl (G(t := (G t)\<lparr>tgrq_class := c\<rparr>)) = tenant_request_queue_get_priority dl G"
  by (auto simp: tenant_request_queue_get_priority_def fun_eq_iff)

lemma request_class_queue_eq:
  "request_class_queue g MT_GUARANTEED = global_guaranteed g" "request_class_queue g MT_DEFAULT = global_default g"
  by (simp_all add: request_class_queue_def)

lemma global_demote_ok:
  assumes rep: "requests_rep e T g A" and t: "t \<in> tenant_of e ` set_mset A" "tgrq_class (tgrq g t) = MT_GUARANTEED"
    and root: "pq_items (global_guaranteed g) ! 1 = Some t"
  shows "\<exists>g'. global_request_scheduler_mtds_demote_nolock False e g t = Inr g' \<and> tgrq g' = tgrq g \<and> global_timeouts g' = global_timeouts g \<and>
    requests_rep e T (upd_tgrq t (\<lambda>x. x\<lparr>tgrq_class := MT_DEFAULT\<rparr>) g') A"
proof -
  let ?B = "tenant_of e ` set_mset A" and ?N = RUNTIME_MAX_TENANT_COUNT and ?gp = "tenant_request_queue_get_priority (deadline e) (tgrq g)"
  let ?X = "\<lambda>c. {t \<in> ?B. tgrq_class (tgrq g t) = c}"
  note parts = requests_rep_parts [OF rep]
  obtain a where a: "priority_queue_delete_nolock False ?gp (global_guaranteed g) t = Inr (0, a)" "heap_holds a ?N (?X MT_GUARANTEED - {t})"
    "pq_order ?gp a" "pq_memo ?gp a"
    using heap_delete [OF parts(7) [of MT_GUARANTEED], of t ?gp ?gp] t root parts(8) [of MT_GUARANTEED] parts(9) by (auto simp: request_class_queue_eq)
  have "t \<in> ?B - ?X MT_DEFAULT" using t by simp
  then have "?X MT_DEFAULT \<subset> ?B" by blast
  then have "card (?X MT_DEFAULT) < card ?B" by (rule psubset_card_mono [rotated]) simp
  then have "card (?X MT_DEFAULT) < ?N" using request_class_card [OF rep, of "\<lambda>_. True"] by simp
  then obtain d where d: "priority_queue_enqueue_nolock ?gp (global_default g) t = Inr (0, d)" "heap_holds d ?N (insert t (?X MT_DEFAULT))" "pq_memo ?gp d"
    using heap_enqueue [OF parts(7) [of MT_DEFAULT], of t ?gp] t parts(8) [of MT_DEFAULT] by (auto simp: request_class_queue_eq)
  let ?g = "upd_tgrq t (\<lambda>x. x\<lparr>tgrq_class := MT_DEFAULT\<rparr>) (g\<lparr>global_guaranteed := a, global_default := d\<rparr>)"
  have q: "request_class_queue ?g c = (if c = MT_GUARANTEED then a else d)" for c by (simp add: request_class_queue_def)
  have X: "{s \<in> ?B. tgrq_class (tgrq ?g s) = c} = (if c = MT_GUARANTEED then ?X MT_GUARANTEED - {t} else insert t (?X MT_DEFAULT))" for c
    using t class_cases [of c] by auto
  have "requests_rep e T ?g A"
  proof (rule requests_repI, goal_cases)
    case (7 c)
    then show ?case unfolding X q using a(2) d(2) by auto
  next
    case (8 c)
    then show ?case unfolding q using a(4) d(3) by simp
  next
    case 9
    then show ?case unfolding q using a(3) by simp
  qed (use parts in simp_all)
  moreover have "global_request_scheduler_mtds_demote_nolock False e g t = Inr (g\<lparr>global_guaranteed := a, global_default := d\<rparr>)"
    using a(1) d(1) t(2) by (simp add: global_request_scheduler_mtds_demote_nolock_def Let_def ENOSPC_def)
  ultimately show ?thesis by auto
qed

lemma heap_size: "heap_holds q n X \<Longrightarrow> pq_size q = 0 \<longleftrightarrow> X = {}"
  using size_pq_contents [of q] by (auto simp: heap_holds_def)

text \<open>The memoised priority of the heap of a class.\<close>

lemma class_peek:
  assumes "requests_rep e T g A"
  shows "{t \<in> tenant_of e ` set_mset A. tgrq_class (tgrq g t) = c} = {} \<longleftrightarrow> priority_queue_peek (request_class_queue g c) = UINT64_MAX"
    and "pq_items (request_class_queue g c) ! 1 = Some t \<Longrightarrow> {t \<in> tenant_of e ` set_mset A. tgrq_class (tgrq g t) = c} \<noteq> {} \<Longrightarrow>
      priority_queue_peek (request_class_queue g c) = highest_priority (sandbox_requests (tgrq g t))"
proof -
  let ?X = "{t \<in> tenant_of e ` set_mset A. tgrq_class (tgrq g t) = c}" and ?q = "request_class_queue g c"
  note parts = requests_rep_parts [OF assms]
  note sz = heap_size [OF parts(7) [of c]]
  show peek: "priority_queue_peek ?q = highest_priority (sandbox_requests (tgrq g t))" if "pq_items ?q ! 1 = Some t" "?X \<noteq> {}" for t
  proof -
    have "pq_size ?q \<noteq> 0" using sz that(2) by blast
    then show ?thesis using parts(8) [of c] that(1) tenant_priority [OF assms] by (simp add: pq_memo_def key_def priority_queue_peek_def)
  qed
  show "?X = {} \<longleftrightarrow> priority_queue_peek ?q = UINT64_MAX"
  proof (cases "?X = {}")
    case True
    then show ?thesis using parts(8) [of c] sz by (simp add: pq_memo_def priority_queue_peek_def)
  next
    case False
    then obtain t where t: "pq_items ?q ! 1 = Some t" "t \<in> ?X" using heap_top(2) [OF parts(7) [of c]] by blast
    obtain p where "p \<in># A" "deadline e p = highest_priority (sandbox_requests (tgrq g t))" using dequeue_request [OF assms, of t] t(2) by blast
    then show ?thesis using peek [OF t(1) False] parts(4) False by metis
  qed
qed

text \<open>Requests of guaranteed tenants.\<close>

definition guaranteed_request :: "tenancy \<Rightarrow> mtds_requests \<Rightarrow> sandbox_ptr \<Rightarrow> bool" where
  "guaranteed_request e g p \<longleftrightarrow> tgrq_class (tgrq g (tenant_of e p)) = MT_GUARANTEED"

lemma guaranteed_empty:
  "{t \<in> tenant_of e ` set_mset A. tgrq_class (tgrq g t) = MT_GUARANTEED} = {} \<longleftrightarrow> (\<forall>x\<in>#A. \<not> guaranteed_request e g x)"
  by (auto simp: guaranteed_request_def)

text \<open>The request of the tenant at the head of an ordered heap is the earliest of the class.\<close>

lemma class_earliest:
  assumes rep: "requests_rep e T g A" and root: "pq_items (request_class_queue g c) ! 1 = Some t"
    and ord: "pq_order (tenant_request_queue_get_priority (deadline e) (tgrq g)) (request_class_queue g c)"
    and x: "x \<in># A" "tgrq_class (tgrq g (tenant_of e x)) = c"
  shows "highest_priority (sandbox_requests (tgrq g t)) \<le> deadline e x"
proof -
  let ?s = "tenant_of e x"
  have s: "?s \<in> {t \<in> tenant_of e ` set_mset A. tgrq_class (tgrq g t) = c}" using x by simp
  have "highest_priority (sandbox_requests (tgrq g t)) \<le> highest_priority (sandbox_requests (tgrq g ?s))"
    using heap_top(3) [OF requests_rep_parts(7) [OF rep, of c] _ ord root s] s unfolding tenant_priority [OF rep] by blast
  also have "\<dots> = Min (deadline e ` {y \<in> set_mset A. tenant_of e y = ?s})" using request_head [OF rep, of ?s] x(1) by simp
  also have "\<dots> \<le> deadline e x" using x(1) by (intro Min_le) auto
  finally show ?thesis .
qed

text \<open>What taking a request answers: one that was taken, or none.\<close>

definition taken :: "tenancy \<Rightarrow> mtds_requests \<Rightarrow> sandbox_ptr multiset \<Rightarrow> u64 \<Rightarrow> mt_class \<Rightarrow> sandbox_ptr \<Rightarrow> bool" where
  "taken e g A target c p \<longleftrightarrow> p \<in># A \<and>
     (if guaranteed_request e g p
      then \<not> exhausted e (tenant_of e p) \<and> (\<forall>x\<in>#A. guaranteed_request e g x \<longrightarrow> deadline e p \<le> deadline e x) \<and> (c = MT_GUARANTEED \<longrightarrow> deadline e p < target)
      else c = MT_DEFAULT \<and> (\<forall>x\<in>#A. \<not> guaranteed_request e g x) \<and> deadline e p < target \<and>
        (pq_order (tenant_request_queue_get_priority (deadline e) (tgrq g)) (global_default g) \<longrightarrow> (\<forall>x\<in>#A. deadline e p \<le> deadline e x)))"

definition not_taken :: "tenancy \<Rightarrow> mtds_requests \<Rightarrow> sandbox_ptr multiset \<Rightarrow> u64 \<Rightarrow> mt_class \<Rightarrow> mtds_requests \<Rightarrow> bool" where
  "not_taken e g A target c g' \<longleftrightarrow>
     g' = g \<and> (\<forall>x\<in>#A. guaranteed_request e g x \<longrightarrow> c = MT_GUARANTEED \<and> target \<le> deadline e x) \<and>
       (c = MT_DEFAULT \<and> pq_order (tenant_request_queue_get_priority (deadline e) (tgrq g)) (global_default g) \<longrightarrow>
         (\<forall>x\<in>#A. target \<le> deadline e x)) \<or>
     (\<exists>t. exhausted e t \<and> tgrq_class (tgrq g t) = MT_GUARANTEED \<and> tgrq g' = (tgrq g)(t := (tgrq g t)\<lparr>tgrq_class := MT_DEFAULT\<rparr>))"

lemma remove_default_ok:
  assumes rep: "requests_rep e T g A" and none: "\<forall>x\<in>#A. \<not> guaranteed_request e g x" and peek: "priority_queue_peek (global_default g) < target"
  shows "\<exists>t p g'. priority_queue_top_nolock (global_default g) = Inr (0, Some t) \<and> remove_request False e g MT_DEFAULT (Some t) = Inr (0, Some p, g') \<and>
    requests_rep e T g' (A - {#p#}) \<and> global_timeouts g' = global_timeouts g \<and> taken e g A target MT_DEFAULT p"
proof -
  let ?X = "{t \<in> tenant_of e ` set_mset A. tgrq_class (tgrq g t) = MT_DEFAULT}"
  note h = requests_rep_parts(7) [OF rep, of MT_DEFAULT]
  have ne: "?X \<noteq> {}" using class_peek(1) [OF rep, of MT_DEFAULT] peek less_imp_not_UINT64_MAX by (metis request_class_queue_eq(2))
  then obtain t where t: "pq_items (request_class_queue g MT_DEFAULT) ! 1 = Some t" "t \<in> ?X" using heap_top(2) [OF h] by blast
  have top: "priority_queue_top_nolock (global_default g) = Inr (0, Some t)" using heap_top(1) [OF h] t ne unfolding request_class_queue_eq by auto
  obtain p g' where p: "remove_request False e g MT_DEFAULT (Some t) = Inr (0, Some p, g')" "p \<in># A" "tenant_of e p = t"
    "deadline e p = highest_priority (sandbox_requests (tgrq g t))" "requests_rep e T g' (A - {#p#})" "global_timeouts g' = global_timeouts g"
    using remove_request_ok [OF rep _ _ t(1)] t(2) by auto
  have "deadline e p < target" using class_peek(2) [OF rep t(1) ne] peek p(4) by (simp add: request_class_queue_eq)
  moreover have "deadline e p \<le> deadline e x" if "x \<in># A" "pq_order (tenant_request_queue_get_priority (deadline e) (tgrq g)) (global_default g)" for x
  proof -
    have "tgrq_class (tgrq g (tenant_of e x)) = MT_DEFAULT" using none that(1) class_cases by (auto simp: guaranteed_request_def)
    then show ?thesis using class_earliest [OF rep t(1)] that p(4) by (simp add: request_class_queue_eq)
  qed
  ultimately show ?thesis using top p none by (auto simp: taken_def)
qed

lemma remove_guaranteed_ok:
  assumes rep: "requests_rep e T g A" and some: "x0 \<in># A" "guaranteed_request e g x0" and peek: "c = MT_GUARANTEED \<longrightarrow> priority_queue_peek (global_guaranteed g) < target"
  shows "\<exists>t. priority_queue_top_nolock (global_guaranteed g) = Inr (0, Some t) \<and> tgrq_class (tgrq g t) = MT_GUARANTEED \<and>
    (if exhausted e t
     then \<exists>g'. global_request_scheduler_mtds_demote_nolock False e g t = Inr g' \<and> tgrq g' = tgrq g \<and> global_timeouts g' = global_timeouts g \<and>
       requests_rep e T (upd_tgrq t (\<lambda>x. x\<lparr>tgrq_class := MT_DEFAULT\<rparr>) g') A
     else \<exists>p g'. remove_request False e g MT_GUARANTEED (Some t) = Inr (0, Some p, g') \<and> requests_rep e T g' (A - {#p#}) \<and>
       global_timeouts g' = global_timeouts g \<and> taken e g A target c p)"
proof -
  let ?X = "{t \<in> tenant_of e ` set_mset A. tgrq_class (tgrq g t) = MT_GUARANTEED}"
  note h = requests_rep_parts(7) [OF rep, of MT_GUARANTEED]
  have ne: "?X \<noteq> {}" using some guaranteed_empty [of e A g] by blast
  then obtain t where t: "pq_items (request_class_queue g MT_GUARANTEED) ! 1 = Some t" "t \<in> ?X" using heap_top(2) [OF h] by blast
  have top: "priority_queue_top_nolock (global_guaranteed g) = Inr (0, Some t)" using heap_top(1) [OF h] t ne unfolding request_class_queue_eq by auto
  show ?thesis
  proof (cases "exhausted e t")
    case True
    then show ?thesis using top t global_demote_ok [OF rep, of t] by (auto simp: request_class_queue_eq)
  next
    case False
    obtain p g' where p: "remove_request False e g MT_GUARANTEED (Some t) = Inr (0, Some p, g')" "p \<in># A" "tenant_of e p = t"
      "deadline e p = highest_priority (sandbox_requests (tgrq g t))" "requests_rep e T g' (A - {#p#})" "global_timeouts g' = global_timeouts g"
      using remove_request_ok [OF rep _ _ t(1)] t(2) by auto
    have "deadline e p < target" if "c = MT_GUARANTEED"
      using class_peek(2) [OF rep t(1) ne] peek that p(4) by (simp add: request_class_queue_eq)
    moreover have "deadline e p \<le> deadline e x" if "x \<in># A" "guaranteed_request e g x" for x
      using class_earliest [OF rep t(1) requests_rep_parts(9) [OF rep] that(1)] that(2) p(4) by (simp add: guaranteed_request_def)
    ultimately show ?thesis using False top t(2) p by (auto simp: taken_def guaranteed_request_def)
  qed
qed

text \<open>No request of a class whose heap is in order is earlier than its memoised priority.\<close>

lemma peek_bounds:
  assumes rep: "requests_rep e T g A" and x: "x \<in># A" "tgrq_class (tgrq g (tenant_of e x)) = c"
    and ord: "pq_order (tenant_request_queue_get_priority (deadline e) (tgrq g)) (request_class_queue g c)"
  shows "priority_queue_peek (request_class_queue g c) \<le> deadline e x"
proof -
  have ne: "{t \<in> tenant_of e ` set_mset A. tgrq_class (tgrq g t) = c} \<noteq> {}" using x by auto
  then obtain t where t: "pq_items (request_class_queue g c) ! 1 = Some t" using heap_top(2) [OF requests_rep_parts(7) [OF rep, of c]] by blast
  show ?thesis using class_earliest [OF rep t ord x] class_peek(2) [OF rep t ne] by simp
qed

lemma not_taken_early:
  assumes rep: "requests_rep e T g A"
    and early: "case c of MT_GUARANTEED \<Rightarrow> target \<le> priority_queue_peek (global_guaranteed g)
      | MT_DEFAULT \<Rightarrow> priority_queue_peek (global_guaranteed g) = UINT64_MAX \<and> target \<le> priority_queue_peek (global_default g)"
  shows "not_taken e g A target c g"
proof (cases c)
  case MT_DEFAULT
  then have noG: "\<forall>x\<in>#A. \<not> guaranteed_request e g x"
    using class_peek(1) [OF rep, of MT_GUARANTEED] guaranteed_empty [of e A g] early by (simp add: request_class_queue_eq)
  then have "\<forall>x\<in>#A. tgrq_class (tgrq g (tenant_of e x)) = MT_DEFAULT" using class_cases by (auto simp: guaranteed_request_def)
  then show ?thesis using peek_bounds [OF rep, of _ MT_DEFAULT] noG early MT_DEFAULT
    by (fastforce simp: not_taken_def request_class_queue_eq intro: order_trans)
next
  case MT_GUARANTEED
  then show ?thesis using peek_bounds [OF rep, of _ MT_GUARANTEED] requests_rep_parts(9) [OF rep] early
    by (fastforce simp: not_taken_def guaranteed_request_def request_class_queue_eq intro: order_trans)
qed

lemma remove_with_class_ok:
  assumes rep: "requests_rep e T g A"
  shows "\<exists>rc x g'. global_request_scheduler_mtds_remove_with_mt_class False e g target c = Inr (rc, x, g') \<and> global_timeouts g' = global_timeouts g \<and>
    (rc = 0 \<and> (\<exists>p. x = Some p \<and> taken e g A target c p \<and> requests_rep e T g' (A - {#p#})) \<or>
     rc = - ENOENT \<and> x = None \<and> not_taken e g A target c g' \<and> requests_rep e T g' A)"
proof -
  let ?gpeek = "priority_queue_peek (global_guaranteed g)" and ?dpeek = "priority_queue_peek (global_default g)"
  let ?early = "case c of MT_GUARANTEED \<Rightarrow> target \<le> ?gpeek | MT_DEFAULT \<Rightarrow> ?gpeek = UINT64_MAX \<and> target \<le> ?dpeek"
  have noG: "?gpeek = UINT64_MAX \<longleftrightarrow> (\<forall>x\<in>#A. \<not> guaranteed_request e g x)"
    using class_peek(1) [OF rep, of MT_GUARANTEED] guaranteed_empty [of e A g] by (simp add: request_class_queue_eq)
  show ?thesis
  proof (cases ?early)
    case True
    have "not_taken e g A target c g" by (rule not_taken_early [OF rep True])
    then show ?thesis using True rep by (auto simp: global_request_scheduler_mtds_remove_with_mt_class_def Let_def)
  next
    case late: False
    show ?thesis
    proof (cases "?gpeek = UINT64_MAX")
      case True
      then have c: "c = MT_DEFAULT" "?dpeek < target" using late by (cases c; simp add: not_le)+
      obtain t p g' where "priority_queue_top_nolock (global_default g) = Inr (0, Some t)"
        "remove_request False e g MT_DEFAULT (Some t) = Inr (0, Some p, g')" "requests_rep e T g' (A - {#p#})"
        "global_timeouts g' = global_timeouts g" "taken e g A target MT_DEFAULT p"
        using remove_default_ok [OF rep _ c(2)] noG True by blast
      moreover have "priority_queue_top_nolock (global_guaranteed g) = Inr (- ENOENT, None)"
        using heap_top(1) [OF requests_rep_parts(7) [OF rep, of MT_GUARANTEED]] True noG guaranteed_empty [of e A g] by (simp add: request_class_queue_eq)
      ultimately show ?thesis using late c by (auto simp: global_request_scheduler_mtds_remove_with_mt_class_def Let_def ENOENT_def)
    next
      case False
      then obtain x0 where x0: "x0 \<in># A" "guaranteed_request e g x0" using noG by blast
      have pk: "c = MT_GUARANTEED \<longrightarrow> ?gpeek < target" using late by (cases c) (simp_all add: not_le)
      from remove_guaranteed_ok [OF rep x0 pk] obtain t where t: "priority_queue_top_nolock (global_guaranteed g) = Inr (0, Some t)"
        "tgrq_class (tgrq g t) = MT_GUARANTEED" and r: "if exhausted e t
         then \<exists>g'. global_request_scheduler_mtds_demote_nolock False e g t = Inr g' \<and> tgrq g' = tgrq g \<and> global_timeouts g' = global_timeouts g \<and>
           requests_rep e T (upd_tgrq t (\<lambda>x. x\<lparr>tgrq_class := MT_DEFAULT\<rparr>) g') A
         else \<exists>p g'. remove_request False e g MT_GUARANTEED (Some t) = Inr (0, Some p, g') \<and> requests_rep e T g' (A - {#p#}) \<and>
           global_timeouts g' = global_timeouts g \<and> taken e g A target c p" by blast
      show ?thesis
      proof (cases "exhausted e t")
        case True
        then obtain g' where g': "global_request_scheduler_mtds_demote_nolock False e g t = Inr g'" "tgrq g' = tgrq g"
          "global_timeouts g' = global_timeouts g" "requests_rep e T (upd_tgrq t (\<lambda>x. x\<lparr>tgrq_class := MT_DEFAULT\<rparr>) g') A" using r by auto
        have "not_taken e g A target c (upd_tgrq t (\<lambda>x. x\<lparr>tgrq_class := MT_DEFAULT\<rparr>) g')" using True t(2) g'(2) by (auto simp: not_taken_def)
        then show ?thesis using late t True g' by (simp add: global_request_scheduler_mtds_remove_with_mt_class_def Let_def ENOENT_def)
      next
        case ok: False
        then obtain p g' where "remove_request False e g MT_GUARANTEED (Some t) = Inr (0, Some p, g')" "requests_rep e T g' (A - {#p#})"
          "global_timeouts g' = global_timeouts g" "taken e g A target c p" using r by auto
        then show ?thesis using late t ok by (simp add: global_request_scheduler_mtds_remove_with_mt_class_def Let_def ENOENT_def)
      qed
    qed
  qed
qed

subsection \<open>The choice over both queues\<close>

definition mtds_node ::
  "tenancy \<Rightarrow> nat set \<Rightarrow> (mtds_runqueue, mtds_requests) node \<Rightarrow> sandbox_ptr multiset \<Rightarrow> sandbox_ptr multiset \<Rightarrow> bool" where
  "mtds_node e T s A R \<longleftrightarrow> mtds_rep e T (runq (wk s)) A \<and> requests_rep e T (grq s) R \<and>
     (\<forall>x\<in>#A + R. absolute_deadline (sandboxes (wk s) x) = deadline e x) \<and> (\<forall>x. count R x \<le> 1) \<and>
     (\<forall>x\<in>#R. x \<notin># A \<and> state_of (wk s) x = SANDBOX_INITIALIZED \<and> sb_http (sandboxes (wk s) x) \<noteq> None) \<and>
     (\<forall>t. size (filter_mset (\<lambda>x. tenant_of e x = t) (A + R)) \<le> RUNTIME_TENANT_QUEUE_SIZE)"

lemma tenancy_now_simps [simp]:
  "deadline (tenancy_now e s) = deadline e" "tenant_of (tenancy_now e s) = tenant_of e" "period (tenancy_now e s) = period e"
  "boot (tenancy_now e s) = boot e" "mtds_rep (tenancy_now e s) T = mtds_rep e T" "requests_rep (tenancy_now e s) T = requests_rep e T"
  by (simp_all add: tenancy_now_def fun_eq_iff mtds_rep_def paid_def requests_rep_def)

lemma mtds_node_requeue: "\<lbrakk>mtds_node e T s A R; mtds_rep e T q A\<rbrakk> \<Longrightarrow> mtds_node e T (s\<lparr>wk := (wk s)\<lparr>runq := q\<rparr>\<rparr>) A R"
  by (simp add: mtds_node_def)

lemma mtds_return_next:
  assumes "mtds_node e T s A R"
  shows "\<exists>n s'. return_next (mtds_config (tenancy_now e s0)) s = Inr (n, s') \<and> mtds_node e T s' A R \<and> (case n of None \<Rightarrow> A = {#} | Some p \<Rightarrow> p \<in># A)"
proof -
  have "mtds_rep (tenancy_now e s0) T (runq (wk s)) A" using assms by (simp add: mtds_node_def)
  from mtds_rq.next_law [OF this] obtain n q where "local_runqueue_get_next (mtds_config (tenancy_now e s0)) (runq (wk s)) = Inr (n, q)"
    "mtds_rep e T q A" "case n of None \<Rightarrow> A = {#} | Some p \<Rightarrow> p \<in># A" by auto
  then show ?thesis using mtds_node_requeue [OF assms] by (auto simp: return_next_def)
qed

lemma mtds_pull:
  assumes node: "mtds_node e T s A R" and p: "p \<in># R" and flags: "\<not> SANDBOX_STATE_TOTALS b"
    and al: "allocs_ok (allocs r)" and clock: "last_state_change (sandboxes (wk s) p) < t_runnable r"
    and g: "requests_rep e T g (R - {#p#})"
  shows "\<exists>w1 w2. sandbox_prepare_execution_environment b (mtds_config (tenancy_now e s0)) (t_prepare r) (allocs r) p (wk s) = Inr (0, w1) \<and>
    state_of w1 p = SANDBOX_INITIALIZED \<and>
    sandbox_set_as_runnable b (mtds_config (tenancy_now e s0)) (t_runnable r) p SANDBOX_INITIALIZED w1 = Inr w2 \<and>
    mtds_node e T (s\<lparr>wk := w2, grq := g\<rparr>) (add_mset p A) (R - {#p#})"
proof -
  let ?cfg = "mtds_config (tenancy_now e s0)"
  have n: "mtds_rep e T (runq (wk s)) A" "\<And>x. x \<in># A \<or> x \<in># R \<Longrightarrow> absolute_deadline (sandboxes (wk s) x) = deadline e x" "\<And>x. count R x \<le> 1"
    "\<And>x. x \<in># R \<Longrightarrow> x \<notin># A \<and> state_of (wk s) x = SANDBOX_INITIALIZED \<and> sb_http (sandboxes (wk s) x) \<noteq> None"
    "\<And>t. size (filter_mset (\<lambda>x. tenant_of e x = t) (A + R)) \<le> RUNTIME_TENANT_QUEUE_SIZE" "tenant_of e p \<in> T"
    using node p by (auto simp: mtds_node_def requests_rep_def)
  have R: "R = add_mset p (R - {#p#})" using p by simp
  obtain w1 where w1: "sandbox_prepare_execution_environment b ?cfg (t_prepare r) (allocs r) p (wk s) = Inr (0, w1)"
    "runq w1 = runq (wk s)" "\<And>x. x \<noteq> p \<Longrightarrow> sandboxes w1 x = sandboxes (wk s) x" "state_of w1 p = state_of (wk s) p"
    "absolute_deadline (sandboxes w1 p) = absolute_deadline (sandboxes (wk s) p)"
    "last_state_change (sandboxes w1 p) = last_state_change (sandboxes (wk s) p)"
    using prepare_ok [OF al, of "wk s" p b ?cfg "t_prepare r"] n(4) [OF p] by metis
  have "size (filter_mset (\<lambda>x. tenant_of e x = tenant_of e p) (A + add_mset p (R - {#p#}))) \<le> RUNTIME_TENANT_QUEUE_SIZE"
    using n(5) [of "tenant_of e p"] R by metis
  then have "size (filter_mset (\<lambda>x. tenant_of e x = tenant_of e p) A) < RUNTIME_TENANT_QUEUE_SIZE" by simp
  then obtain q where q: "local_runqueue_add ?cfg (runq w1) p = Inr q" "mtds_rep e T q (add_mset p A)"
    using mtds_add_ok [of "tenancy_now e s0" T "runq w1" A p] mtds_room_iff [of "tenancy_now e s0" T "runq w1" A p] n(1,6) w1(2) by auto
  have clock1: "last_state_change (sandboxes w1 p) < t_runnable r" using clock w1(6) by simp
  obtain w2 where w2: "sandbox_set_as_runnable b ?cfg (t_runnable r) p SANDBOX_INITIALIZED w1 = Inr w2"
    "runq w2 = q" "\<And>x. x \<noteq> p \<Longrightarrow> sandboxes w2 x = sandboxes w1 x" "absolute_deadline (sandboxes w2 p) = deadline e p"
    using set_as_runnable_ok [OF flags clock1 q(1)] w1(5) n(2) [of p] p by (metis (no_types, lifting))
  have np: "p \<notin># R - {#p#}" using n(3) [of p] by (simp add: count_eq_zero_iff [symmetric])
  have other: "\<And>x. x \<noteq> p \<Longrightarrow> sandboxes w2 x = sandboxes (wk s) x" using w1(3) w2(3) by simp
  have dl: "absolute_deadline (sandboxes w2 x) = deadline e x" if "x \<in># add_mset p A + (R - {#p#})" for x
    using that n(2) [of x] w2(4) other [of x] by (cases "x = p") (auto dest: in_diffD)
  have st: "x \<notin># add_mset p A \<and> state_of w2 x = SANDBOX_INITIALIZED \<and> sb_http (sandboxes w2 x) \<noteq> None" if "x \<in># R - {#p#}" for x
  proof -
    have "x \<noteq> p" "x \<in># R" using that np by (auto dest: in_diffD)
    then show ?thesis using n(4) [of x] other [of x] by simp
  qed
  have "add_mset p A + (R - {#p#}) = A + R" using p by simp
  then have sz: "size (filter_mset (\<lambda>x. tenant_of e x = t) (add_mset p A + (R - {#p#}))) \<le> RUNTIME_TENANT_QUEUE_SIZE" for t using n(5) by metis
  have ct: "count (R - {#p#}) x \<le> 1" for x using n(3) [of x] by (simp add: le_diff_conv)
  have "mtds_node e T (s\<lparr>wk := w2, grq := g\<rparr>) (add_mset p A) (R - {#p#})"
    unfolding mtds_node_def using q(2) w2(2) g dl st sz ct by simp
  then show ?thesis using w1 w2 n(4) [OF p] by auto
qed

text \<open>The class of the sandbox that the run queue would run, after the demotions.\<close>

lemma backed_local_class:
  assumes rep: "mtds_rep e T q A" and n: "local_runqueue_mtds_get_next e q = Inr (n, q')" and x: "x \<in># A" "backed e q x"
  shows "\<exists>p. n = Some p \<and> pwt_class (pwt q' (tenant_of e p)) = MT_GUARANTEED"
proof -
  have d: "demoted e q q'" "case n of None \<Rightarrow> A = {#} | Some p \<Rightarrow> p \<in># A \<and> (backed e q p \<or> (\<forall>x\<in>#A. \<not> backed e q x))"
    using mtds_get_next_ok [OF rep] n by (auto split: option.splits)
  then obtain p where p: "n = Some p" "backed e q p" using x by (cases n) auto
  then have "pwt_class (pwt q' (tenant_of e p)) = MT_GUARANTEED" using d(1) unfolding demoted_def backed_def by metis
  with p(1) show ?thesis by blast
qed

definition pulled_ok :: "tenancy \<Rightarrow> (mtds_runqueue, mtds_requests) node \<Rightarrow> sandbox_ptr multiset \<Rightarrow> sandbox_ptr multiset \<Rightarrow> sandbox_ptr \<Rightarrow> bool" where
  "pulled_ok e s A R x \<longleftrightarrow>
     (if guaranteed_request e (grq s) x
      then \<not> exhausted e (tenant_of e x) \<and> (\<forall>y\<in>#R. guaranteed_request e (grq s) y \<longrightarrow> deadline e x \<le> deadline e y)
      else (\<forall>y\<in>#R. \<not> guaranteed_request e (grq s) y) \<and> (\<forall>y\<in>#A. \<not> backed e (runq (wk s)) y))"

lemma mtds_sched_ok:
  assumes node: "mtds_node e T s A R" and flags: "\<not> SANDBOX_STATE_TOTALS b" and al: "allocs_ok (allocs r)"
    and clock: "\<forall>p\<in>#R. last_state_change (sandboxes (wk s) p) < t_runnable r"
  shows "\<exists>n s' A' R'. scheduler_mtds_get_next b e r s = Inr (n, s') \<and> mtds_node e T s' A' R' \<and> A' + R' = A + R \<and> A \<subseteq># A' \<and>
    (\<forall>x\<in>#A' - A. pulled_ok (tenancy_now e s) s A R x) \<and> (case n of None \<Rightarrow> A' = {#} | Some p \<Rightarrow> p \<in># A')"
proof -
  let ?e = "tenancy_now e s"
  let ?cfg = "mtds_config ?e"
  have rep: "mtds_rep ?e T (runq (wk s)) A" "requests_rep ?e T (grq s) R" using node by (simp_all add: mtds_node_def)
  obtain n q where n: "local_runqueue_get_next ?cfg (runq (wk s)) = Inr (n, q)" "mtds_rep e T q A"
    using mtds_rq.next_law [OF rep(1)] by auto
  let ?s = "s\<lparr>wk := (wk s)\<lparr>runq := q\<rparr>\<rparr>"
  note node1 = mtds_node_requeue [OF node n(2)]
  define target where "target = deadline_of (wk ?s) n"
  define c where "c = (case n of None \<Rightarrow> MT_DEFAULT | Some p \<Rightarrow> pwt_class (pwt q (tenant_of ?e p)))"
  define stay where "stay = (case c of MT_GUARANTEED \<Rightarrow> target \<le> global_request_scheduler_mtds_guaranteed_peek (grq s)
    | MT_DEFAULT \<Rightarrow> global_request_scheduler_mtds_guaranteed_peek (grq s) = UINT64_MAX \<and> target \<le> global_request_scheduler_mtds_default_peek (grq s))"
  have run: "scheduler_mtds_get_next b e r s = (if stay then return_next ?cfg ?s
      else bindr (global_request_scheduler_mtds_remove_with_mt_class False ?e (grq s) target c) (\<lambda>(rc, global, g).
        if rc = 0
        then case global of
               None \<Rightarrow> Inl Assertion_Failure
             | Some p \<Rightarrow>
                 bindr (sandbox_prepare_execution_environment b ?cfg (t_prepare r) (allocs r) p (wk ?s)) (\<lambda>(rc', w1).
                 assertc (state_of w1 p = SANDBOX_INITIALIZED)
                   (bindr (sandbox_set_as_runnable b ?cfg (t_runnable r) p SANDBOX_INITIALIZED w1) (\<lambda>w2. return_next ?cfg (?s\<lparr>wk := w2, grq := g\<rparr>))))
        else return_next ?cfg (?s\<lparr>grq := g\<rparr>)))"
  proof -
    have gs: "grq ?s = grq s" by simp
    show ?thesis unfolding scheduler_mtds_get_next_def Let_def n(1) bindr.simps prod.case target_def c_def stay_def gs by (rule refl)
  qed
  have stays: ?thesis if "scheduler_mtds_get_next b e r s = return_next ?cfg s2" "mtds_node e T s2 A R" for s2
    using mtds_return_next [OF that(2), of s] that(1)
    by (elim exE conjE) (intro exI [of _ A] exI [of _ R] exI conjI, auto split: option.splits)
  show ?thesis
  proof (cases stay)
    case True
    then show ?thesis using stays [OF _ node1] run by simp
  next
    case False
    from remove_with_class_ok [OF rep(2), of target c] obtain rc x g where
      x: "global_request_scheduler_mtds_remove_with_mt_class False ?e (grq s) target c = Inr (rc, x, g)"
      "rc = 0 \<and> (\<exists>p. x = Some p \<and> taken ?e (grq s) R target c p \<and> requests_rep e T g (R - {#p#})) \<or> rc = - ENOENT \<and> requests_rep e T g R" by auto
    show ?thesis
    proof (cases "rc = 0")
      case rc: False
      then have "mtds_node e T (?s\<lparr>grq := g\<rparr>) A R" using x(2) node1 by (simp add: mtds_node_def)
      then show ?thesis using stays x(1) rc run False by simp
    next
      case rc: True
      then obtain p where p: "x = Some p" "taken ?e (grq s) R target c p" "requests_rep e T g (R - {#p#})" "p \<in># R"
        using x(2) by (auto simp: ENOENT_def taken_def)
      have cl: "last_state_change (sandboxes (wk ?s) p) < t_runnable r" using clock p(4) by simp
      obtain w1 w2 where w: "sandbox_prepare_execution_environment b ?cfg (t_prepare r) (allocs r) p (wk ?s) = Inr (0, w1)"
        "state_of w1 p = SANDBOX_INITIALIZED" "sandbox_set_as_runnable b ?cfg (t_runnable r) p SANDBOX_INITIALIZED w1 = Inr w2"
        "mtds_node e T (?s\<lparr>wk := w2, grq := g\<rparr>) (add_mset p A) (R - {#p#})"
        using mtds_pull [OF node1 p(4) flags al cl p(3), of s] by blast
      have "scheduler_mtds_get_next b e r s = return_next ?cfg (?s\<lparr>wk := w2, grq := g\<rparr>)" using run False x(1) rc p(1) w(1-3) by simp
      moreover obtain n' s' where "return_next ?cfg (?s\<lparr>wk := w2, grq := g\<rparr>) = Inr (n', s')" "mtds_node e T s' (add_mset p A) (R - {#p#})"
        "case n' of None \<Rightarrow> add_mset p A = {#} | Some p' \<Rightarrow> p' \<in># add_mset p A"
        using mtds_return_next [OF w(4), of s] by blast
      moreover have "pulled_ok ?e s A R p"
      proof -
        have "guaranteed_request ?e (grq s) p" if "y \<in># A" "backed ?e (runq (wk s)) y" for y
          using backed_local_class [OF rep(1), of n q y] n(1) that p(2) by (auto simp: taken_def c_def split: if_splits)
        then show ?thesis using p(2) by (auto simp: taken_def pulled_ok_def split: if_splits)
      qed
      moreover have "add_mset p A + (R - {#p#}) = A + R" "add_mset p A - A = {#p#}" using p(4) by simp_all
      ultimately show ?thesis by (intro exI [of _ n'] exI [of _ s'] exI [of _ "add_mset p A"] exI [of _ "R - {#p#}"]) simp
    qed
  qed
qed

subsection \<open>The run of the request queue\<close>

text \<open>
  What happens to the request queue and the budgets: the listener adds requests, workers take them and charge the
  time of a sandbox to its tenant (\<open>sandbox_process_scheduler_updates\<close>), and the worker that gets the timer signal
  from the kernel processes the promotions.
\<close>

datatype mtds_op = Op_Add sandbox_ptr | Op_Remove u64 mt_class | Op_Charge nat u64 | Op_Promotions u64 "u64 list"

fun run_mtds_op :: "tenancy \<Rightarrow> (nat \<Rightarrow> u64) \<Rightarrow> mtds_op \<Rightarrow> mtds_requests \<times> (nat \<Rightarrow> u64) \<Rightarrow> (mtds_requests \<times> (nat \<Rightarrow> u64)) res option" where
  "run_mtds_op e mb (Op_Add p) (g, r) = Some (bindr (global_request_scheduler_mtds_add True e g p) (\<lambda>(x, g'). Inr (g', r)))"
| "run_mtds_op e mb (Op_Remove target c) (g, r) =
     Some (bindr (global_request_scheduler_mtds_remove_with_mt_class False (e\<lparr>budget := r\<rparr>) g target c) (\<lambda>(rc, x, g'). Inr (g', r)))"
| "run_mtds_op e mb (Op_Charge t d) (g, r) = Some (Inr (g, r(t := r t - d)))"
| "run_mtds_op e mb (Op_Promotions now rs) (g, r) = global_timeout_queue_process_promotions False (at_time e now r) mb rs g r"

fun run_mtds_ops :: "tenancy \<Rightarrow> (nat \<Rightarrow> u64) \<Rightarrow> mtds_op list \<Rightarrow> mtds_requests \<times> (nat \<Rightarrow> u64) \<Rightarrow> (mtds_requests \<times> (nat \<Rightarrow> u64)) res option" where
  "run_mtds_ops e mb [] s = Some (Inr s)"
| "run_mtds_ops e mb (op # ops) s = (case run_mtds_op e mb op s of Some (Inr s') \<Rightarrow> run_mtds_ops e mb ops s' | x \<Rightarrow> x)"

fun charged :: "mtds_op list \<Rightarrow> nat \<Rightarrow> u64" where
  "charged [] t = 0"
| "charged (Op_Charge t' d # ops) t = (if t' = t then d else 0) + charged ops t"
| "charged (_ # ops) t = charged ops t"

definition fresh_requests :: "tenancy \<Rightarrow> mtds_requests" where
  "fresh_requests e = fst (global_request_scheduler_mtds_initialize True e (\<lambda>t. tgrq_init (period e t)))"

lemma fresh_requests_rep: "\<lbrakk>finite T; card T \<le> RUNTIME_MAX_TENANT_COUNT\<rbrakk> \<Longrightarrow> requests_rep e T (fresh_requests e) {#}"
  by (auto simp: requests_rep_def fresh_requests_def global_request_scheduler_mtds_initialize_def tgrq_init_def init_holds init_order
      initialize_inv(1) request_class_queue_def initialize_inv(1) [unfolded pq_inv_def])

text \<open>No timeout is queued, and what a demoted tenant loses it does not get back.\<close>

definition no_timeouts :: "mtds_requests \<Rightarrow> bool" where
  "no_timeouts g \<longleftrightarrow> pq_size (global_timeouts g) = 0 \<and> lock_ok (global_timeouts g)"

definition only_demoted :: "mtds_requests \<Rightarrow> mtds_requests \<Rightarrow> bool" where
  "only_demoted g g' \<longleftrightarrow> global_timeouts g' = global_timeouts g \<and>
     (\<forall>t. tgrq_class (tgrq g t) = MT_DEFAULT \<longrightarrow> tgrq_class (tgrq g' t) = MT_DEFAULT)"

lemma promotions_idle:
  "no_timeouts g \<Longrightarrow> global_timeout_queue_process_promotions lt e mb rs g r = Some (Inr (g, r))"
  by (simp add: global_timeout_queue_process_promotions_def no_timeouts_def priority_queue_top_nolock_def priority_queue_is_empty_def)

lemma add_only_demoted: "global_request_scheduler_mtds_add True e g p = Inr (x, g') \<Longrightarrow> only_demoted g g'"
  by (auto simp: global_request_scheduler_mtds_add_def only_demoted_def Let_def split: if_splits)

lemma demote_only_demoted: "global_request_scheduler_mtds_demote_nolock lt e g t = Inr g' \<Longrightarrow> only_demoted g g' \<and> tgrq g' = tgrq g"
  by (auto simp: global_request_scheduler_mtds_demote_nolock_def only_demoted_def Let_def split: if_splits)

lemma remove_request_only_demoted: "remove_request lt e g c t = Inr (rc, x, g') \<Longrightarrow> only_demoted g g'"
  by (auto simp: remove_request_def only_demoted_def Let_def split: if_splits option.splits)

lemma only_demoted_refl: "only_demoted g g"
  by (simp add: only_demoted_def)

lemma remove_only_demoted:
  assumes "global_request_scheduler_mtds_remove_with_mt_class lt e g target c = Inr (rc, x, g')"
  shows "only_demoted g g'"
proof (cases "case c of MT_GUARANTEED \<Rightarrow> target \<le> priority_queue_peek (global_guaranteed g)
    | MT_DEFAULT \<Rightarrow> priority_queue_peek (global_guaranteed g) = UINT64_MAX \<and> target \<le> priority_queue_peek (global_default g)")
  case True
  then show ?thesis using assms by (simp add: global_request_scheduler_mtds_remove_with_mt_class_def Let_def only_demoted_refl)
next
  case False
  note run = assms [unfolded global_request_scheduler_mtds_remove_with_mt_class_def Let_def if_not_P [OF False]]
  then obtain r1 t1 where 1: "priority_queue_top_nolock (global_guaranteed g) = Inr (r1, t1)" by auto
  note run1 = run [unfolded 1 bindr.simps prod.case]
  consider "r1 = - ENOENT" | t where "r1 \<noteq> - ENOENT" "t1 = Some t" "tgrq_class (tgrq g t) = MT_GUARANTEED \<and> exhausted e t"
    | "r1 \<noteq> - ENOENT" "remove_request lt e g MT_GUARANTEED t1 = Inr (rc, x, g')"
    using run1 by (cases t1) (auto split: if_splits)
  then show ?thesis
  proof cases
    case 1
    then show ?thesis using run1 remove_request_only_demoted [of lt e g MT_DEFAULT] by (auto simp: only_demoted_refl split: if_splits)
  next
    case (2 t)
    then show ?thesis using run1 demote_only_demoted [of lt e g t] by (auto simp: only_demoted_def)
  next
    case 3
    then show ?thesis by (simp add: remove_request_only_demoted)
  qed
qed

lemma run_op_unreplenished:
  assumes "run_mtds_op e mb op (g, r) = Some (Inr (g', r'))" "no_timeouts g"
  shows "only_demoted g g' \<and> (\<forall>t. r' t = r t - charged [op] t)"
  using assms promotions_idle [OF assms(2)] add_only_demoted [of e g] remove_only_demoted [of False _ g]
  by (cases op) (auto, auto simp: only_demoted_def)

lemma run_ops_unreplenished:
  "\<lbrakk>run_mtds_ops e mb ops (g, r) = Some (Inr (g', r')); no_timeouts g\<rbrakk> \<Longrightarrow> only_demoted g g' \<and> (\<forall>t. r' t = r t - charged ops t)"
proof (induction ops arbitrary: g r)
  case (Cons op ops)
  then obtain g1 r1 where 1: "run_mtds_op e mb op (g, r) = Some (Inr (g1, r1))" "run_mtds_ops e mb ops (g1, r1) = Some (Inr (g', r'))"
    by (auto split: option.splits sum.splits)
  have op: "only_demoted g g1" "\<And>t. r1 t = r t - charged [op] t" using run_op_unreplenished [OF 1(1) Cons.prems(2)] by auto
  then have "no_timeouts g1" using Cons.prems(2) by (simp add: only_demoted_def no_timeouts_def)
  from Cons.IH [OF 1(2) this] have "only_demoted g1 g'" "\<And>t. r' t = r1 t - charged ops t" by auto
  moreover have "charged (op # ops) t = charged [op] t + charged ops t" for t by (cases op) auto
  ultimately show ?case using op by (auto simp: only_demoted_def algebra_simps)
qed (simp add: only_demoted_def)

subsection \<open>Properties\<close>


lemma two_tenants_fresh: "requests_rep two_tenants {0, 1} (fresh_requests two_tenants) {#}"
  by (rule fresh_requests_rep) (simp_all add: RUNTIME_MAX_TENANT_COUNT_def)

lemma two_tenants_request: "\<exists>g. requests_rep two_tenants {0, 1} g {#5#}"
  using requests_add_ok [OF two_tenants_fresh, of 5]
  by (auto simp: two_tenants_def earlier_than_others_def UINT64_MAX_def RUNTIME_TENANT_QUEUE_SIZE_def)


text \<open>
  Taking a request under the multi-tenant policy never aborts and never loses one. A worker with budgeted
  work gets the earliest request of the guaranteed tenants, if it is earlier than its own next sandbox and its
  tenant has budget left; any other worker gets the earliest request of the guaranteed tenants if there is one,
  and otherwise one of a default tenant that is earlier than its own next sandbox. When the tenant at the head
  of the guaranteed ones has no budget, it is demoted and the worker gets nothing this time.
\<close>

theorem mtds_remove_by_class:
  assumes "requests_rep e T g A"
  shows "\<exists>rc x g'. global_request_scheduler_mtds_remove_with_mt_class False e g target c = Inr (rc, x, g') \<and> global_timeouts g' = global_timeouts g \<and>
    (rc = 0 \<and> (\<exists>p. x = Some p \<and> taken e g A target c p \<and> requests_rep e T g' (A - {#p#})) \<or>
     rc = - ENOENT \<and> x = None \<and> not_taken e g A target c g' \<and> requests_rep e T g' A)"
  by (rule remove_with_class_ok [OF assms])

text \<open>
  Claim C5: one pass of the multi-tenant scheduler over both queues. When preparing a pulled request succeeds,
  \<open>scheduler_mtds_get_next\<close> returns: no request or sandbox is lost or duplicated, nothing leaves the run queue, the
  chosen sandbox is on it, and none is chosen only if the run queue is empty. A request is pulled for a
  guaranteed tenant only if it has budget left, and then the earliest of these; it is pulled for a default
  tenant only if no guaranteed tenant has a request and the run queue has no sandbox of a guaranteed tenant with
  budget left.
\<close>

theorem scheduler_mtds_isolates:
  assumes "mtds_node e T s A R" and "\<not> SANDBOX_STATE_TOTALS b" and "allocs_ok (allocs r)"
    and "\<forall>p\<in>#R. last_state_change (sandboxes (wk s) p) < t_runnable r"
  shows "\<exists>n s' A' R'. scheduler_mtds_get_next b e r s = Inr (n, s') \<and> mtds_node e T s' A' R' \<and> A' + R' = A + R \<and> A \<subseteq># A' \<and>
    (\<forall>x\<in>#A' - A. pulled_ok (tenancy_now e s) s A R x) \<and> (case n of None \<Rightarrow> A' = {#} | Some p \<Rightarrow> p \<in># A')"
  by (rule mtds_sched_ok [OF assms])

definition mtds_sample_node :: "mtds_requests \<Rightarrow> (mtds_runqueue, mtds_requests) node" where
  "mtds_sample_node g = \<lparr>wk = (idle_worker (fresh_mtds two_tenants))\<lparr>sandboxes := (\<lambda>p. zero_sandbox)
       (5 := zero_sandbox\<lparr>sb_state := SANDBOX_INITIALIZED, sb_http := Some 1, absolute_deadline := 5, last_state_change := 1\<rparr>)\<rparr>,
     grq = g, cleanup = [], base_variant = ARCH_CONTEXT_VARIANT_FAST, handler_depth = 0\<rparr>"

theorem scheduler_mtds_isolates_witness:
  "\<exists>g n s' A' R'. requests_rep two_tenants {0, 1} g {#5#} \<and>
    scheduler_mtds_get_next default_build two_tenants (sample_readings (Some 6)) (mtds_sample_node g) = Inr (n, s') \<and>
    mtds_node two_tenants {0, 1} s' A' R' \<and> A' + R' = {#5#}"
proof -
  obtain g where g: "requests_rep two_tenants {0, 1} g {#5#}" using two_tenants_request ..
  have "mtds_rep two_tenants {0, 1} (fresh_mtds two_tenants) {#}" by (rule fresh_mtds_rep) (simp_all add: RUNTIME_MAX_TENANT_COUNT_def)
  then have node: "mtds_node two_tenants {0, 1} (mtds_sample_node g) {#} {#5#}"
    using g by (auto simp: mtds_node_def mtds_sample_node_def idle_worker_def two_tenants_def RUNTIME_TENANT_QUEUE_SIZE_def)
  have "\<not> SANDBOX_STATE_TOTALS default_build" by (simp add: default_build_def)
  moreover have "\<forall>p\<in>#{#5#}. last_state_change (sandboxes (wk (mtds_sample_node g)) p) < t_runnable (sample_readings (Some 6))"
    by (simp add: sample_readings_def mtds_sample_node_def)
  ultimately show ?thesis using scheduler_mtds_isolates [OF node _ sample_allocs(1)] g unfolding add_0 by blast
qed

text \<open>
  Claim C33: budgets are never replenished. Nothing calls \<open>global_timeout_queue_add\<close>, so the queue of global timeouts stays
  empty: after any run from the initial state the promotions do nothing at all, whatever the clock says, the
  budget of every tenant is the initial one less everything charged to it, and a tenant that was demoted in the
  request queue stays demoted.
\<close>

theorem mtds_budgets_never_replenished:
  assumes "run_mtds_ops e mb ops (fresh_requests e, r) = Some (Inr (g', r'))"
  shows "(\<forall>t. r' t = r t - charged ops t) \<and>
    (\<forall>now rs. global_timeout_queue_process_promotions False (at_time e now r') mb rs g' r' = Some (Inr (g', r'))) \<and>
    (\<forall>ops' g'' r''. run_mtds_ops e mb ops' (g', r') = Some (Inr (g'', r'')) \<longrightarrow>
      (\<forall>t. tgrq_class (tgrq g' t) = MT_DEFAULT \<longrightarrow> tgrq_class (tgrq g'' t) = MT_DEFAULT))"
proof -
  have 0: "no_timeouts (fresh_requests e)"
    by (simp add: no_timeouts_def fresh_requests_def global_request_scheduler_mtds_initialize_def priority_queue_initialize_def lock_ok_def)
  note 1 = run_ops_unreplenished [OF assms 0]
  then have 2: "no_timeouts g'" using 0 by (simp add: only_demoted_def no_timeouts_def)
  show ?thesis using 1 promotions_idle [OF 2] run_ops_unreplenished [OF _ 2] unfolding only_demoted_def by blast
qed

theorem mtds_budgets_never_replenished_witness:
  "\<exists>g'. run_mtds_ops two_tenants (\<lambda>_. 50) [Op_Charge 1 60, Op_Promotions 1000 []] (fresh_requests two_tenants, \<lambda>_. 50) =
      Some (Inr (g', (\<lambda>_. 50)(1 := 50 - 60))) \<and>
    global_timeout_queue_process_promotions False (at_time two_tenants 2000 ((\<lambda>_. 50)(1 := 50 - 60))) (\<lambda>_. 50) [] g' ((\<lambda>_. 50)(1 := 50 - 60)) =
      Some (Inr (g', (\<lambda>_. 50)(1 := 50 - 60)))"
proof -
  have "no_timeouts (fresh_requests two_tenants)"
    by (simp add: no_timeouts_def fresh_requests_def global_request_scheduler_mtds_initialize_def priority_queue_initialize_def lock_ok_def)
  then have "run_mtds_ops two_tenants (\<lambda>_. 50) [Op_Charge 1 60, Op_Promotions 1000 []] (fresh_requests two_tenants, \<lambda>_. 50) =
      Some (Inr (fresh_requests two_tenants, (\<lambda>_. 50)(1 := 50 - 60)))" by (simp add: promotions_idle)
  from mtds_budgets_never_replenished [OF this] this show ?thesis by blast
qed

end
