(* ===== verification/Wasm_Numeric.thy ===== *)
theory Wasm_Numeric
  imports Sledge_Prelude "HOL-Library.Signed_Division"
begin

text \<open>
  The integer instructions of libsledge/src/numeric_instructions.c: rotations, built from two shifts, and
  divisions, which rely on the processor: on x86-64 a division by zero and the one quotient that does not
  fit raise SIGFPE, which the handler of the runtime turns into a trap. The conversions from floats
  are not modelled.
\<close>

unbundle bit_operations_syntax

definition rotl_u32 :: "u32 \<Rightarrow> u32 \<Rightarrow> u32" where
  "rotl_u32 n c_u32 =
     (let c = (c_u32 mod 32) AND 31
      in push_bit (unat c) n OR drop_bit (unat ((- c) AND 31)) n)"

definition rotr_u32 :: "u32 \<Rightarrow> u32 \<Rightarrow> u32" where
  "rotr_u32 n c_u32 =
     (let c = (c_u32 mod 32) AND 31
      in drop_bit (unat c) n OR push_bit (unat ((- c) AND 31)) n)"

definition rotl_u64 :: "u64 \<Rightarrow> u64 \<Rightarrow> u64" where
  "rotl_u64 n c_u64 =
     (let c = (ucast (c_u64 mod 64) :: u32) AND 63
      in push_bit (unat c) n OR drop_bit (unat ((- c) AND 63)) n)"

definition rotr_u64 :: "u64 \<Rightarrow> u64 \<Rightarrow> u64" where
  "rotr_u64 n c_u64 =
     (let c = (ucast (c_u64 mod 64) :: u32) AND 63
      in drop_bit (unat c) n OR push_bit (unat ((- c) AND 63)) n)"

definition u32_div :: "u32 \<Rightarrow> u32 \<Rightarrow> u32 res" where
  "u32_div a b = (if b = 0 then Inl Division_By_Zero else Inr (a div b))"

definition u32_rem :: "u32 \<Rightarrow> u32 \<Rightarrow> u32 res" where
  "u32_rem a b = (if b = 0 then Inl Division_By_Zero else Inr (a mod b))"

definition u64_div :: "u64 \<Rightarrow> u64 \<Rightarrow> u64 res" where
  "u64_div a b = (if b = 0 then Inl Division_By_Zero else Inr (a div b))"

definition u64_rem :: "u64 \<Rightarrow> u64 \<Rightarrow> u64 res" where
  "u64_rem a b = (if b = 0 then Inl Division_By_Zero else Inr (a mod b))"

text \<open>The operands for which a signed division faults.\<close>

definition signed_faults :: "'a::len word \<Rightarrow> 'a word \<Rightarrow> bool" where
  "signed_faults a b \<longleftrightarrow> b = 0 \<or> sint a = - (2 ^ (LENGTH('a) - 1)) \<and> sint b = - 1"

definition i32_div :: "u32 \<Rightarrow> u32 \<Rightarrow> u32 res" where
  "i32_div a b = (if signed_faults a b then Inl Division_By_Zero else Inr (word_of_int (sint a sdiv sint b)))"

definition i32_rem :: "u32 \<Rightarrow> u32 \<Rightarrow> u32 res" where
  "i32_rem a b = (if signed_faults a b then Inl Division_By_Zero else Inr (word_of_int (sint a smod sint b)))"

definition i64_div :: "u64 \<Rightarrow> u64 \<Rightarrow> u64 res" where
  "i64_div a b = (if signed_faults a b then Inl Division_By_Zero else Inr (word_of_int (sint a sdiv sint b)))"

definition i64_rem :: "u64 \<Rightarrow> u64 \<Rightarrow> u64 res" where
  "i64_rem a b = (if signed_faults a b then Inl Division_By_Zero else Inr (word_of_int (sint a smod sint b)))"

subsection \<open>Rotations\<close>

lemma rotl_by_shifts:
  fixes n :: "'a::len word"
  assumes "c < LENGTH('a)" "d = (LENGTH('a) - c) mod LENGTH('a)"
  shows "push_bit c n OR drop_bit d n = word_rotl c n"
proof (rule bit_word_eqI)
  fix i assume i: "i < LENGTH('a)"
  show "bit (push_bit c n OR drop_bit d n) i = bit (word_rotl c n) i"
  proof (cases "c = 0")
    case True
    then show ?thesis using assms i by (auto simp: bit_simps)
  next
    case False
    then have d: "d = LENGTH('a) - c" using assms by simp
    show ?thesis
    proof (cases "c \<le> i")
      case True
      then have "(i + (LENGTH('a) - c)) mod LENGTH('a) = i - c"
        using i assms(1) by (simp add: mod_if)
      moreover have "\<not> bit n (d + i)" using True d assms(1) by (auto dest: bit_imp_le_length)
      ultimately show ?thesis using True i assms(1) by (simp add: bit_simps ac_simps)
    next
      case False
      then show ?thesis using i assms(1) by (simp add: bit_simps d ac_simps)
    qed
  qed
qed

lemma rotr_by_shifts:
  fixes n :: "'a::len word"
  assumes "c < LENGTH('a)" "d = (LENGTH('a) - c) mod LENGTH('a)"
  shows "drop_bit c n OR push_bit d n = word_rotr c n"
proof (rule bit_word_eqI)
  fix i assume i: "i < LENGTH('a)"
  show "bit (drop_bit c n OR push_bit d n) i = bit (word_rotr c n) i"
  proof (cases "c = 0")
    case True
    then show ?thesis using assms i by (auto simp: bit_simps)
  next
    case False
    then have d: "d = LENGTH('a) - c" using assms by simp
    show ?thesis
    proof (cases "c + i < LENGTH('a)")
      case True
      then show ?thesis using i assms(1) by (auto simp: bit_simps d ac_simps)
    next
      case False
      then have "(i + c) mod LENGTH('a) = i - d" using i assms(1) d by (simp add: mod_if)
      moreover have "\<not> bit n (c + i)" using False by (auto dest: bit_imp_le_length)
      ultimately show ?thesis using False i assms(1) d by (auto simp: bit_simps ac_simps)
    qed
  qed
qed

lemma and_masks: "x AND 31 = take_bit 5 x" "x AND 63 = take_bit 6 x" for x :: u32
  by (simp_all add: take_bit_eq_mask mask_eq_exp_minus_1)

lemma unat_take_bit: "unat (take_bit k x) = unat x mod 2 ^ k" for x :: "'a::len word"
  by (metis take_bit_eq_mod unsigned_take_bit_eq)

lemma unat_neg: "unat (- x) = (2 ^ 32 - unat x) mod 2 ^ 32" for x :: u32
proof -
  have le: "unat x \<le> 2 ^ 32" using less_imp_le [OF u32_bound [of x]] by simp
  have unat_x: "of_nat (unat x) = x" by simp
  have "of_nat (2 ^ 32 - unat x) + x = (of_nat (2 ^ 32 - unat x + unat x) :: u32)"
    by (simp only: of_nat_add unat_x)
  also have "\<dots> = 0" using le by simp
  finally have "- x = of_nat (2 ^ 32 - unat x)" by (metis add.commute minus_unique)
  then show ?thesis by (simp add: unat_of_nat)
qed

lemma shift_amounts:
  fixes c :: u32
  shows "unat c < 32 \<Longrightarrow> unat ((- c) AND 31) = (32 - unat c) mod 32"
    and "unat c < 64 \<Longrightarrow> unat ((- c) AND 63) = (64 - unat c) mod 64"
proof -
  show "unat ((- c) AND 31) = (32 - unat c) mod 32" if "unat c < 32"
  proof -
    have "4294967296 - unat c = (32 - unat c) + 134217727 * 32" using that by simp
    then have "(4294967296 - unat c) mod 32 = (32 - unat c) mod 32" by (simp only: mod_mult_self1)
    then show ?thesis by (simp add: and_masks unat_take_bit unat_neg mod_mod_cancel)
  qed
  show "unat ((- c) AND 63) = (64 - unat c) mod 64" if "unat c < 64"
  proof -
    have "4294967296 - unat c = (64 - unat c) + 67108863 * 64" using that by simp
    then have "(4294967296 - unat c) mod 64 = (64 - unat c) mod 64" by (simp only: mod_mult_self1)
    then show ?thesis by (simp add: and_masks unat_take_bit unat_neg mod_mod_cancel)
  qed
qed

lemma reduce_count: "(c mod 32) AND 31 = c mod 32" "unat (c mod 32) = unat c mod 32" for c :: u32
proof -
  have u: "unat (c mod 32) = unat c mod 32" by (simp add: unat_mod_distrib)
  then show "unat (c mod 32) = unat c mod 32" .
  show "(c mod 32) AND 31 = c mod 32"
    unfolding and_masks by (rule word_unat_eq_iff [THEN iffD2]) (simp add: unat_take_bit u)
qed

lemma reduce_count64:
  "(ucast (c mod 64) :: u32) AND 63 = ucast (c mod 64)" "unat (ucast (c mod 64) :: u32) = unat c mod 64" for c :: u64
proof -
  have "unat (c mod 64) = unat c mod 64" by (simp add: unat_mod_distrib)
  then have u: "unat (ucast (c mod 64) :: u32) = unat c mod 64"
    by (simp add: unsigned_ucast_eq take_bit_nat_eq_self_iff)
  then show "unat (ucast (c mod 64) :: u32) = unat c mod 64" .
  show "(ucast (c mod 64) :: u32) AND 63 = ucast (c mod 64)"
    unfolding and_masks by (rule word_unat_eq_iff [THEN iffD2]) (simp add: unat_take_bit u)
qed

subsection \<open>Division\<close>

lemma sint_word_of_int:
  assumes "- (2 ^ (LENGTH('a) - 1)) \<le> k" "k < 2 ^ (LENGTH('a) - 1)"
  shows "sint (word_of_int k :: 'a::len word) = k"
  using assms by (simp add: signed_of_int signed_take_bit_int_eq_self)

lemma sdiv_fits:
  fixes a b :: "'a::len word"
  assumes "\<not> signed_faults a b"
  shows "sint (word_of_int (sint a sdiv sint b) :: 'a word) = sint a sdiv sint b"
proof (rule sint_word_of_int)
  have a: "- (2 ^ (LENGTH('a) - 1)) \<le> sint a" "sint a < 2 ^ (LENGTH('a) - 1)" by (rule sint_ge sint_lt)+
  have r: "- \<bar>sint a\<bar> \<le> sint a sdiv sint b" "sint a sdiv sint b \<le> \<bar>sint a\<bar>" using sdiv_int_range [of "sint a" "sint b"] by auto
  show "- (2 ^ (LENGTH('a) - 1)) \<le> sint a sdiv sint b" using a r by linarith
  show "sint a sdiv sint b < 2 ^ (LENGTH('a) - 1)"
  proof (rule ccontr)
    assume "\<not> ?thesis"
    then have eq: "sint a sdiv sint b = - sint a" "sint a = - (2 ^ (LENGTH('a) - 1))" using a r by linarith+
    then have "sint a \<noteq> 0" by simp
    then have "sint b = - 1" using eq(1) int_sdiv_negated_is_minus1 by blast
    then show False using assms eq(2) by (simp add: signed_faults_def)
  qed
qed

lemma smod_fits:
  fixes a b :: "'a::len word"
  assumes "\<not> signed_faults a b"
  shows "sint (word_of_int (sint a smod sint b) :: 'a word) = sint a smod sint b"
proof (rule sint_word_of_int)
  have b: "- (2 ^ (LENGTH('a) - 1)) \<le> sint b" "sint b < 2 ^ (LENGTH('a) - 1)" by (rule sint_ge sint_lt)+
  have "b \<noteq> 0" using assms by (auto simp: signed_faults_def)
  then have "sint b \<noteq> 0" by (metis signed_0 signed_word_eqI)
  then have r: "- \<bar>sint b\<bar> + 1 \<le> sint a smod sint b" "sint a smod sint b \<le> \<bar>sint b\<bar> - 1" using smod_int_range [of "sint b" "sint a"] by auto
  show "- (2 ^ (LENGTH('a) - 1)) \<le> sint a smod sint b" "sint a smod sint b < 2 ^ (LENGTH('a) - 1)" using b r by linarith+
qed

subsection \<open>Properties\<close>

text \<open>
  The rotation instructions are rotations. For every value and every count, including
  counts beyond the width, \<open>rotl\<close> and \<open>rotr\<close> of both widths equal the rotation of the word by the count modulo
  its width.
\<close>

theorem rotations_rotate:
  "rotl_u32 n c = word_rotl (unat c mod 32) n \<and> rotr_u32 n c = word_rotr (unat c mod 32) n \<and>
   rotl_u64 m d = word_rotl (unat d mod 64) m \<and> rotr_u64 m d = word_rotr (unat d mod 64) m"
  unfolding rotl_u32_def rotr_u32_def rotl_u64_def rotr_u64_def Let_def reduce_count(1) reduce_count64(1)
  by (intro conjI rotl_by_shifts rotr_by_shifts [THEN trans])
    (simp_all add: reduce_count reduce_count64 shift_amounts rotl_by_shifts rotr_by_shifts)

text \<open>
  The signed division instructions compute the truncating quotient and remainder of
  WebAssembly, exactly, whenever they do not fault, so that quotient times divisor plus remainder gives
  back the dividend. They fault on a zero divisor, and on the least number divided by minus one,
  where the remainder instruction faults too although WebAssembly defines its result as zero.
\<close>

theorem signed_division_exact:
  "(\<not> signed_faults a b \<longrightarrow> (\<exists>q r. i32_div a b = Inr q \<and> i32_rem a b = Inr r \<and> sint q = sint a sdiv sint b \<and>
      sint r = sint a smod sint b \<and> sint q * sint b + sint r = sint a)) \<and>
   (\<not> signed_faults c d \<longrightarrow> (\<exists>q r. i64_div c d = Inr q \<and> i64_rem c d = Inr r \<and> sint q = sint c sdiv sint d \<and>
      sint r = sint c smod sint d \<and> sint q * sint d + sint r = sint c)) \<and>
   i32_div a 0 = Inl Division_By_Zero \<and> i64_div c 0 = Inl Division_By_Zero \<and>
   i32_rem 0x80000000 (- 1) = Inl Division_By_Zero"
proof -
  have "sint (0x80000000 :: u32) = - 2147483648" "sint (- 1 :: u32) = - 1" by simp_all
  then have "i32_rem 0x80000000 (- 1) = Inl Division_By_Zero" by (simp add: i32_rem_def signed_faults_def)
  then show ?thesis
    by (simp add: i32_div_def i32_rem_def i64_div_def i64_rem_def sdiv_fits smod_fits sdiv_mult_smod_eq)
      (simp add: signed_faults_def)
qed

end
