(* ===== verification/Byte_Codec.thy ===== *)
theory Byte_Codec
  imports Sledge_Prelude
begin

text \<open>
  Little-endian bytes of machine words, as a load or store through a cast pointer sees them on the
  supported machines, and byte arrays that are read and written in ranges.
\<close>

unbundle bit_operations_syntax

definition le_bytes :: "nat \<Rightarrow> 'a::len word \<Rightarrow> u8 list" where
  "le_bytes n x = map (\<lambda>i. ucast (drop_bit (8 * i) x)) [0..<n]"

fun of_le :: "u8 list \<Rightarrow> 'a::len word" where
  "of_le [] = 0"
| "of_le (b # bs) = ucast b OR push_bit 8 (of_le bs)"

type_synonym byte_array = "nat \<Rightarrow> u8"

definition read_range :: "byte_array \<Rightarrow> nat \<Rightarrow> nat \<Rightarrow> u8 list" where
  "read_range b a n = map (\<lambda>i. b (a + i)) [0..<n]"

definition write_range :: "byte_array \<Rightarrow> nat \<Rightarrow> u8 list \<Rightarrow> byte_array" where
  "write_range b a bs = (\<lambda>i. if a \<le> i \<and> i < a + length bs then bs ! (i - a) else b i)"

lemma length_le_bytes [simp]: "length (le_bytes n x) = n"
  by (simp add: le_bytes_def)

lemma length_read_range [simp]: "length (read_range b a n) = n"
  by (simp add: read_range_def)

lemma bit_of_le:
  "bit (of_le bs :: 'a::len word) i \<longleftrightarrow> i < LENGTH('a) \<and> i div 8 < length bs \<and> bit (bs ! (i div 8)) (i mod 8)"
proof (induction bs arbitrary: i)
  case Nil
  then show ?case by simp
next
  case (Cons b bs)
  show ?case
  proof (cases "i < 8")
    case True
    then show ?thesis by (auto simp: bit_simps)
  next
    case False
    then have i: "i div 8 = Suc ((i - 8) div 8)" "i mod 8 = (i - 8) mod 8"
      by (simp_all add: div_if le_mod_geq)
    have "\<not> bit b i" using False by (auto dest: bit_imp_le_length)
    then show ?thesis using False Cons.IH [of "i - 8"] by (auto simp: bit_simps i)
  qed
qed

lemma of_le_bytes:
  assumes "LENGTH('a::len) = 8 * n"
  shows "of_le (le_bytes n x) = (x :: 'a word)"
proof (rule bit_word_eqI)
  fix i assume i: "i < LENGTH('a)"
  then have "i div 8 < n" using assms by simp
  then show "bit (of_le (le_bytes n x) :: 'a word) i \<longleftrightarrow> bit x i"
    using i by (simp add: bit_of_le le_bytes_def bit_simps)
qed

lemma le_bytes_of_le:
  assumes "LENGTH('a::len) = 8 * length bs"
  shows "le_bytes (length bs) (of_le bs :: 'a word) = bs"
proof (rule nth_equalityI)
  fix i assume "i < length (le_bytes (length bs) (of_le bs :: 'a word))"
  then have i: "i < length bs" by simp
  show "le_bytes (length bs) (of_le bs :: 'a word) ! i = bs ! i"
  proof (rule bit_word_eqI)
    fix j assume "j < LENGTH(8)"
    then have j: "j < 8" by simp
    then have "8 * i + j < 8 * length bs" using i by simp
    then show "bit (le_bytes (length bs) (of_le bs :: 'a word) ! i) j = bit (bs ! i) j"
      using i j assms by (simp add: le_bytes_def bit_simps bit_of_le)
  qed
qed simp

lemma read_write_same [simp]: "n = length bs \<Longrightarrow> read_range (write_range b a bs) a n = bs"
  by (auto simp: read_range_def write_range_def intro!: nth_equalityI)

lemma read_write_disjoint:
  "a' + n \<le> a \<or> a + length bs \<le> a' \<Longrightarrow> read_range (write_range b a bs) a' n = read_range b a' n"
  by (auto simp: read_range_def write_range_def)

lemma write_range_outside: "i < a \<or> a + length bs \<le> i \<Longrightarrow> write_range b a bs i = b i"
  by (auto simp: write_range_def)

end
