(* ===== verification/Wasm_Memory.thy ===== *)
theory Wasm_Memory
  imports Byte_Codec
begin

text \<open>
  Linear memory: the runtime's view of it in runtime/include/wasm_memory.h, where every access is
  checked against the size of the memory, and the instructions of
  libsledge/src/memory_instructions.c, which rely on the pages that are mapped. The contents are a byte
  array (zero where nothing was written, as \<open>mmap\<close> delivers it), a null buffer is \<^const>\<open>None\<close>, and floats
  are their bit patterns. Results of \<open>mmap\<close> and \<open>mprotect\<close> are arguments.
\<close>

definition PAGE_SIZE :: nat where "PAGE_SIZE = 4096"

definition WASM_PAGE_SIZE :: nat where "WASM_PAGE_SIZE = 65536"

definition WASM_MEMORY_MAX :: nat where "WASM_MEMORY_MAX = 2 ^ 32"

definition WASM_MEMORY_SIZE_TO_ALLOC :: nat where
  "WASM_MEMORY_SIZE_TO_ALLOC = WASM_MEMORY_MAX + PAGE_SIZE"

record wasm_memory =
  wm_size :: u64
  wm_capacity :: u64
  wm_max :: u64
  wm_buffer :: "byte_array option"

text \<open>After a failed initialisation the memory is not used; it is left as it was here.\<close>

definition wasm_memory_init :: "bool \<Rightarrow> bool \<Rightarrow> u64 \<Rightarrow> u64 \<Rightarrow> wasm_memory \<Rightarrow> (int \<times> wasm_memory) res" where
  "wasm_memory_init mmap_ok mprotect_ok initial max_size m =
     assertc (initial > 0) (assertc (unat initial \<le> WASM_MEMORY_MAX) (assertc (max_size > 0) (assertc (unat max_size \<le> WASM_MEMORY_MAX)
       (Inr (if \<not> mmap_ok \<or> \<not> mprotect_ok then (- 1, m)
             else (0, \<lparr>wm_size = initial, wm_capacity = initial, wm_max = max_size, wm_buffer = Some (\<lambda>_. 0)\<rparr>))))))"

text \<open>The structure itself is allocated first; a failing initialisation runs into \<open>assert(0)\<close>.\<close>

definition wasm_memory_alloc :: "bool \<Rightarrow> bool \<Rightarrow> bool \<Rightarrow> wasm_memory \<Rightarrow> u64 \<Rightarrow> u64 \<Rightarrow> wasm_memory option res" where
  "wasm_memory_alloc alloc_ok mmap_ok mprotect_ok garbage initial max_size =
     (if \<not> alloc_ok then Inr None
      else bindr (wasm_memory_init mmap_ok mprotect_ok initial max_size garbage) (\<lambda>(rc, m).
        if rc < 0 then Inl Assertion_Failure else Inr (Some m)))"

definition wasm_memory_deinit :: "wasm_memory \<Rightarrow> wasm_memory res" where
  "wasm_memory_deinit m =
     assertc (wm_buffer m \<noteq> None) (Inr \<lparr>wm_size = 0, wm_capacity = 0, wm_max = 0, wm_buffer = None\<rparr>)"

definition with_buffer :: "wasm_memory \<Rightarrow> (byte_array \<Rightarrow> 'a res) \<Rightarrow> 'a res" where
  "with_buffer m k = (case wm_buffer m of None \<Rightarrow> Inl Null_Dereference | Some b \<Rightarrow> k b)"

definition wasm_memory_reinit :: "wasm_memory \<Rightarrow> u64 \<Rightarrow> wasm_memory res" where
  "wasm_memory_reinit m initial =
     with_buffer m (\<lambda>b. Inr (m\<lparr>wm_buffer := Some (\<lambda>i. if i < unat (wm_size m) then 0 else b i), wm_size := initial\<rparr>))"

definition wasm_memory_expand :: "bool \<Rightarrow> wasm_memory \<Rightarrow> u64 \<Rightarrow> int \<times> wasm_memory" where
  "wasm_memory_expand mprotect_ok m size_to_expand =
     (let target_size = wm_size m + size_to_expand
      in if target_size > wm_max m then (- 1, m)
         else if target_size > wm_capacity m \<and> \<not> mprotect_ok then (- 1, m)
         else (0, m\<lparr>wm_capacity := (if target_size > wm_capacity m then target_size else wm_capacity m),
                    wm_size := target_size\<rparr>))"

definition wasm_memory_get_size :: "wasm_memory \<Rightarrow> u64" where
  "wasm_memory_get_size m = wm_size m"

definition wasm_memory_get_page_count :: "wasm_memory \<Rightarrow> u32" where
  "wasm_memory_get_page_count m = ucast (wm_size m div of_nat WASM_PAGE_SIZE)"

definition wasm_memory_initialize_region :: "wasm_memory \<Rightarrow> u32 \<Rightarrow> u8 list \<Rightarrow> wasm_memory res" where
  "wasm_memory_initialize_region m offset region =
     assertc (ucast offset + of_nat (length region) \<le> wm_size m)
       (with_buffer m (\<lambda>b. Inr (m\<lparr>wm_buffer := Some (write_range b (unat offset) region)\<rparr>)))"

text \<open>The check of this function adds two 32-bit numbers in 32 bits; the pointer is the offset into the buffer.\<close>

definition wasm_memory_get_ptr_void :: "wasm_memory \<Rightarrow> u32 \<Rightarrow> u32 \<Rightarrow> nat res" where
  "wasm_memory_get_ptr_void m offset sz =
     assertc (ucast (offset + sz) \<le> wm_size m) (Inr (unat offset))"

text \<open>Checked loads and stores of \<open>n\<close> bytes; the sum of offset and width is a 64-bit sum.\<close>

definition load_checked :: "nat \<Rightarrow> wasm_memory \<Rightarrow> u64 \<Rightarrow> 'a::len word res" where
  "load_checked n m offset =
     assertc (offset + of_nat n \<le> wm_size m) (with_buffer m (\<lambda>b. Inr (of_le (read_range b (unat offset) n))))"

definition store_checked :: "nat \<Rightarrow> wasm_memory \<Rightarrow> u64 \<Rightarrow> 'a::len word \<Rightarrow> wasm_memory res" where
  "store_checked n m offset x =
     assertc (offset + of_nat n \<le> wm_size m)
       (with_buffer m (\<lambda>b. Inr (m\<lparr>wm_buffer := Some (write_range b (unat offset) (le_bytes n x))\<rparr>)))"

definition wasm_memory_get_char :: "wasm_memory \<Rightarrow> u32 \<Rightarrow> u8 res" where
  "wasm_memory_get_char m offset = load_checked 1 m (ucast offset)"

definition wasm_memory_get_i8 :: "wasm_memory \<Rightarrow> u32 \<Rightarrow> u8 res" where
  "wasm_memory_get_i8 m offset = load_checked 1 m (ucast offset)"

definition wasm_memory_get_i16 :: "wasm_memory \<Rightarrow> u32 \<Rightarrow> u16 res" where
  "wasm_memory_get_i16 m offset = load_checked 2 m (ucast offset)"

definition wasm_memory_get_i32 :: "wasm_memory \<Rightarrow> u32 \<Rightarrow> u32 res" where
  "wasm_memory_get_i32 m offset = load_checked 4 m (ucast offset)"

definition wasm_memory_get_i64 :: "wasm_memory \<Rightarrow> u32 \<Rightarrow> u64 res" where
  "wasm_memory_get_i64 m offset = load_checked 8 m (ucast offset)"

definition wasm_memory_get_f32 :: "wasm_memory \<Rightarrow> u32 \<Rightarrow> u32 res" where
  "wasm_memory_get_f32 m offset = load_checked 4 m (ucast offset)"

definition wasm_memory_get_f64 :: "wasm_memory \<Rightarrow> u32 \<Rightarrow> u64 res" where
  "wasm_memory_get_f64 m offset = load_checked 8 m (ucast offset)"

definition wasm_memory_set_i8 :: "wasm_memory \<Rightarrow> u32 \<Rightarrow> u8 \<Rightarrow> wasm_memory res" where
  "wasm_memory_set_i8 m offset x = store_checked 1 m (ucast offset) x"

definition wasm_memory_set_i16 :: "wasm_memory \<Rightarrow> u32 \<Rightarrow> u16 \<Rightarrow> wasm_memory res" where
  "wasm_memory_set_i16 m offset x = store_checked 2 m (ucast offset) x"

definition wasm_memory_set_i32 :: "wasm_memory \<Rightarrow> u32 \<Rightarrow> u32 \<Rightarrow> wasm_memory res" where
  "wasm_memory_set_i32 m offset x = store_checked 4 m (ucast offset) x"

definition wasm_memory_set_i64 :: "wasm_memory \<Rightarrow> u64 \<Rightarrow> u64 \<Rightarrow> wasm_memory res" where
  "wasm_memory_set_i64 m offset x = store_checked 8 m offset x"

definition wasm_memory_set_f32 :: "wasm_memory \<Rightarrow> u32 \<Rightarrow> u32 \<Rightarrow> wasm_memory res" where
  "wasm_memory_set_f32 m offset x = store_checked 4 m (ucast offset) x"

definition wasm_memory_set_f64 :: "wasm_memory \<Rightarrow> u32 \<Rightarrow> u64 \<Rightarrow> wasm_memory res" where
  "wasm_memory_set_f64 m offset x = store_checked 8 m (ucast offset) x"

text \<open>The result is the offset of the string, or null when no terminator is found within the size.\<close>

definition wasm_memory_get_string :: "wasm_memory \<Rightarrow> u32 \<Rightarrow> u32 \<Rightarrow> nat option res" where
  "wasm_memory_get_string m offset sz =
     assertc (ucast offset + ucast sz \<le> wm_size m)
       (with_buffer m (\<lambda>b. Inr (if 0 \<in> set (read_range b (unat offset) (unat sz)) then Some (unat offset) else None)))"

subsection \<open>memory_instructions.c\<close>

text \<open>
  The pages that are mapped readable and writable: \<open>mprotect\<close> works on whole pages. An access outside of
  them faults.
\<close>

definition mapped_bytes :: "wasm_memory \<Rightarrow> nat" where
  "mapped_bytes m = ((unat (wm_capacity m) + PAGE_SIZE - 1) div PAGE_SIZE) * PAGE_SIZE"

definition load_mapped :: "nat \<Rightarrow> wasm_memory \<Rightarrow> u32 \<Rightarrow> 'a::len word res" where
  "load_mapped n m offset =
     (case wm_buffer m of
        None \<Rightarrow> Inl Assertion_Failure
      | Some b \<Rightarrow> if unat offset + n \<le> mapped_bytes m then Inr (of_le (read_range b (unat offset) n)) else Inl Segfault)"

definition store_mapped :: "nat \<Rightarrow> wasm_memory \<Rightarrow> u32 \<Rightarrow> 'a::len word \<Rightarrow> wasm_memory res" where
  "store_mapped n m offset x =
     (case wm_buffer m of
        None \<Rightarrow> Inl Assertion_Failure
      | Some b \<Rightarrow> if unat offset + n \<le> mapped_bytes m
          then Inr (m\<lparr>wm_buffer := Some (write_range b (unat offset) (le_bytes n x))\<rparr>) else Inl Segfault)"

definition instruction_memory_size :: "wasm_memory \<Rightarrow> u32" where
  "instruction_memory_size m = ucast (wm_size m div of_nat WASM_PAGE_SIZE)"

definition get_f32 :: "wasm_memory \<Rightarrow> u32 \<Rightarrow> u32 res" where "get_f32 m offset = load_mapped 4 m offset"
definition get_f64 :: "wasm_memory \<Rightarrow> u32 \<Rightarrow> u64 res" where "get_f64 m offset = load_mapped 8 m offset"
definition get_i8 :: "wasm_memory \<Rightarrow> u32 \<Rightarrow> u8 res" where "get_i8 m offset = load_mapped 1 m offset"
definition get_i16 :: "wasm_memory \<Rightarrow> u32 \<Rightarrow> u16 res" where "get_i16 m offset = load_mapped 2 m offset"
definition get_i32 :: "wasm_memory \<Rightarrow> u32 \<Rightarrow> u32 res" where "get_i32 m offset = load_mapped 4 m offset"
definition get_i64 :: "wasm_memory \<Rightarrow> u32 \<Rightarrow> u64 res" where "get_i64 m offset = load_mapped 8 m offset"
definition set_f32 :: "wasm_memory \<Rightarrow> u32 \<Rightarrow> u32 \<Rightarrow> wasm_memory res" where "set_f32 m offset x = store_mapped 4 m offset x"
definition set_f64 :: "wasm_memory \<Rightarrow> u32 \<Rightarrow> u64 \<Rightarrow> wasm_memory res" where "set_f64 m offset x = store_mapped 8 m offset x"
definition set_i8 :: "wasm_memory \<Rightarrow> u32 \<Rightarrow> u8 \<Rightarrow> wasm_memory res" where "set_i8 m offset x = store_mapped 1 m offset x"
definition set_i16 :: "wasm_memory \<Rightarrow> u32 \<Rightarrow> u16 \<Rightarrow> wasm_memory res" where "set_i16 m offset x = store_mapped 2 m offset x"
definition set_i32 :: "wasm_memory \<Rightarrow> u32 \<Rightarrow> u32 \<Rightarrow> wasm_memory res" where "set_i32 m offset x = store_mapped 4 m offset x"
definition set_i64 :: "wasm_memory \<Rightarrow> u32 \<Rightarrow> u64 \<Rightarrow> wasm_memory res" where "set_i64 m offset x = store_mapped 8 m offset x"

lemmas checked_defs = wasm_memory_get_i8_def wasm_memory_get_i16_def wasm_memory_get_i32_def wasm_memory_get_i64_def
  wasm_memory_set_i8_def wasm_memory_set_i16_def wasm_memory_set_i32_def wasm_memory_set_i64_def
  wasm_memory_get_f32_def wasm_memory_get_f64_def wasm_memory_set_f32_def wasm_memory_set_f64_def

lemmas mapped_defs = get_i8_def get_i16_def get_i32_def get_i64_def set_i8_def set_i16_def set_i32_def set_i64_def
  get_f32_def get_f64_def set_f32_def set_f64_def

subsection \<open>Well-formed memories\<close>

definition memory_ok :: "wasm_memory \<Rightarrow> bool" where
  "memory_ok m \<longleftrightarrow> wm_buffer m \<noteq> None \<and> wm_size m \<le> wm_capacity m \<and> unat (wm_capacity m) \<le> WASM_MEMORY_MAX \<and>
     unat (wm_max m) \<le> WASM_MEMORY_MAX"

text \<open>Nothing was written beyond the size.\<close>

definition clean_beyond :: "wasm_memory \<Rightarrow> bool" where
  "clean_beyond m \<longleftrightarrow> (\<forall>b i. wm_buffer m = Some b \<longrightarrow> unat (wm_size m) \<le> i \<longrightarrow> b i = 0)"

text \<open>What the runtime and the instructions do to a memory while a sandbox runs, within its size.\<close>

inductive memory_step :: "wasm_memory \<Rightarrow> wasm_memory \<Rightarrow> bool" where
  step_i8: "wasm_memory_set_i8 m a x = Inr m' \<Longrightarrow> memory_step m m'"
| step_i16: "wasm_memory_set_i16 m a y = Inr m' \<Longrightarrow> memory_step m m'"
| step_i32: "wasm_memory_set_i32 m a z = Inr m' \<Longrightarrow> memory_step m m'"
| step_i64: "\<lbrakk>unat c < 2 ^ 32; wasm_memory_set_i64 m c u = Inr m'\<rbrakk> \<Longrightarrow> memory_step m m'"
| step_region: "\<lbrakk>length r < 2 ^ 32; wasm_memory_initialize_region m a r = Inr m'\<rbrakk> \<Longrightarrow> memory_step m m'"
| step_expand: "\<lbrakk>unat n < 2 ^ 32; wasm_memory_expand ok m n = (rc, m')\<rbrakk> \<Longrightarrow> memory_step m m'"

lemma offset_bound:
  assumes "n < 2 ^ 32" "unat a < 2 ^ 32"
  shows "(a :: u64) + of_nat n \<le> s \<longleftrightarrow> unat a + n \<le> unat s"
proof -
  have "unat (of_nat n :: u64) = n" using assms(1) by (simp add: unat_of_nat)
  then have "unat (a + of_nat n) = unat a + n"
    using assms by (simp add: unat_word_ariths)
  then show ?thesis by (simp add: word_le_nat_alt)
qed

lemma size_le_mapped: "memory_ok m \<Longrightarrow> unat (wm_size m) \<le> mapped_bytes m"
  by (auto simp: memory_ok_def mapped_bytes_def PAGE_SIZE_def word_le_nat_alt)

lemma mapped_le_alloc: "memory_ok m \<Longrightarrow> mapped_bytes m \<le> WASM_MEMORY_MAX"
  by (auto simp: memory_ok_def mapped_bytes_def PAGE_SIZE_def WASM_MEMORY_MAX_def)

lemma load_checked_small:
  assumes "n < 2 ^ 32" "unat a < 2 ^ 32"
  shows "load_checked n m a =
    assertc (unat a + n \<le> unat (wm_size m)) (with_buffer m (\<lambda>b. Inr (of_le (read_range b (unat a) n))))"
  using assms by (simp add: load_checked_def offset_bound)

lemma store_checked_small:
  assumes "n < 2 ^ 32" "unat a < 2 ^ 32"
  shows "store_checked n m a x = assertc (unat a + n \<le> unat (wm_size m))
    (with_buffer m (\<lambda>b. Inr (m\<lparr>wm_buffer := Some (write_range b (unat a) (le_bytes n x))\<rparr>)))"
  using assms by (simp add: store_checked_def offset_bound)

lemma store_load:
  assumes "memory_ok m" "unat a + n \<le> unat (wm_size m)" "unat a < 2 ^ 32" "LENGTH('a::len) = 8 * n" "n < 2 ^ 32"
  shows "\<exists>m'. store_checked n m a (x :: 'a word) = Inr m' \<and> load_checked n m' a = Inr x \<and> memory_ok m' \<and>
    (\<forall>k c. k < 2 ^ 32 \<longrightarrow> unat c < 2 ^ 32 \<longrightarrow> unat c + k \<le> unat a \<or> unat a + n \<le> unat c \<longrightarrow>
       load_checked k m' c = (load_checked k m c :: 'b::len word res))"
proof -
  obtain b where b: "wm_buffer m = Some b" using assms(1) by (auto simp: memory_ok_def)
  let ?m = "m\<lparr>wm_buffer := Some (write_range b (unat a) (le_bytes n x))\<rparr>"
  have "store_checked n m a x = Inr ?m"
    using assms(2,3,5) b by (simp add: store_checked_small with_buffer_def)
  moreover have "load_checked n ?m a = Inr x"
    using assms(2-5) by (simp add: load_checked_small with_buffer_def of_le_bytes)
  moreover have "memory_ok ?m" using assms(1) by (simp add: memory_ok_def)
  moreover have "load_checked k ?m c = (load_checked k m c :: 'b word res)"
    if "k < 2 ^ 32" "unat c < 2 ^ 32" "unat c + k \<le> unat a \<or> unat a + n \<le> unat c" for k c
    using that b by (simp add: load_checked_small with_buffer_def read_write_disjoint)
  ultimately show ?thesis by blast
qed

lemma mapped_is_checked:
  assumes "memory_ok m" "unat a + n \<le> unat (wm_size m)" "n < 2 ^ 32"
  shows "load_mapped n m a = load_checked n m (ucast a)" "store_mapped n m a x = store_checked n m (ucast a) x"
  using assms size_le_mapped [OF assms(1)]
  by (auto simp: load_mapped_def store_mapped_def load_checked_small store_checked_small with_buffer_def memory_ok_def)

lemma mapped_access:
  assumes "memory_ok m" "n \<le> PAGE_SIZE"
  shows "((load_mapped n m a :: 'a::len word res) = Inl Segfault \<longleftrightarrow> mapped_bytes m < unat a + n) \<and>
    ((load_mapped n m a :: 'a word res) = Inl Segfault \<or> (\<exists>x :: 'a word. load_mapped n m a = Inr x)) \<and> unat a + n \<le> WASM_MEMORY_SIZE_TO_ALLOC"
proof -
  have "unat a < WASM_MEMORY_MAX" by (simp add: WASM_MEMORY_MAX_def)
  then show ?thesis using assms by (auto simp: load_mapped_def memory_ok_def WASM_MEMORY_SIZE_TO_ALLOC_def split: if_splits)
qed

subsection \<open>Recycling\<close>

lemma store_clean:
  assumes "store_checked n m a x = Inr m'" "unat a < 2 ^ 32" "n < 2 ^ 32" "memory_ok m" "clean_beyond m"
  shows "memory_ok m' \<and> clean_beyond m'"
proof -
  obtain b where b: "wm_buffer m = Some b" "unat a + n \<le> unat (wm_size m)"
    "m' = m\<lparr>wm_buffer := Some (write_range b (unat a) (le_bytes n x))\<rparr>"
    using assms(1-3) by (auto simp: store_checked_small with_buffer_def split: option.splits)
  then show ?thesis using assms(4,5) by (auto simp: memory_ok_def clean_beyond_def write_range_outside)
qed

lemma region_clean:
  assumes "wasm_memory_initialize_region m a r = Inr m'" "length r < 2 ^ 32" "memory_ok m" "clean_beyond m"
  shows "memory_ok m' \<and> clean_beyond m'"
proof -
  obtain b where b: "wm_buffer m = Some b" "unat a + length r \<le> unat (wm_size m)"
    "m' = m\<lparr>wm_buffer := Some (write_range b (unat a) r)\<rparr>"
    using assms(1,2) by (auto simp: wasm_memory_initialize_region_def offset_bound with_buffer_def split: option.splits)
  then show ?thesis using assms(3,4) by (auto simp: memory_ok_def clean_beyond_def write_range_outside)
qed

lemma expand_effects:
  assumes "wasm_memory_expand ok m n = (rc, m')" "unat n < 2 ^ 32" "memory_ok m"
  shows "(rc = - 1 \<and> m' = m) \<or> (rc = 0 \<and> unat (wm_size m') = unat (wm_size m) + unat n \<and> wm_size m' \<le> wm_max m \<and>
    wm_buffer m' = wm_buffer m \<and> wm_max m' = wm_max m \<and> memory_ok m')"
proof -
  have "unat (wm_size m) \<le> 2 ^ 32" using assms(3) by (auto simp: memory_ok_def word_le_nat_alt WASM_MEMORY_MAX_def)
  then have sum: "unat (wm_size m + n) = unat (wm_size m) + unat n"
    using assms(2) by (simp add: unat_word_ariths)
  show ?thesis
  proof (cases "wm_size m + n > wm_max m \<or> (wm_size m + n > wm_capacity m \<and> \<not> ok)")
    case True
    then show ?thesis using assms(1) by (auto simp: wasm_memory_expand_def Let_def split: if_splits)
  next
    case False
    then have m': "rc = 0" "m' = m\<lparr>wm_capacity := (if wm_size m + n > wm_capacity m then wm_size m + n else wm_capacity m),
        wm_size := wm_size m + n\<rparr>"
      using assms(1) by (auto simp: wasm_memory_expand_def Let_def split: if_splits)
    have "unat (wm_size m + n) \<le> WASM_MEMORY_MAX"
      using False assms(3) by (auto simp: memory_ok_def word_le_nat_alt not_less)
    then show ?thesis using m' False sum assms(3) by (auto simp: memory_ok_def not_less)
  qed
qed

lemma step_clean: "\<lbrakk>memory_step m m'; memory_ok m \<and> clean_beyond m\<rbrakk> \<Longrightarrow> memory_ok m' \<and> clean_beyond m'"
proof (induction rule: memory_step.induct)
  case (step_expand n ok m rc m')
  then show ?case using expand_effects [OF step_expand(2,1)] by (auto simp: clean_beyond_def)
next
  case (step_region r m a m')
  then show ?case using region_clean by blast
qed (auto simp: checked_defs dest: store_clean)

lemma steps_clean:
  assumes "memory_step\<^sup>*\<^sup>* m m'" "memory_ok m" "clean_beyond m"
  shows "memory_ok m' \<and> clean_beyond m'"
  using assms by (induction rule: rtranclp_induct) (auto dest: step_clean)

lemma reinit_clean:
  assumes "memory_ok m" "clean_beyond m"
  shows "wasm_memory_reinit m initial = Inr (m\<lparr>wm_buffer := Some (\<lambda>i. 0), wm_size := initial\<rparr>)"
  using assms by (auto simp: wasm_memory_reinit_def with_buffer_def memory_ok_def clean_beyond_def fun_eq_iff)

subsection \<open>Properties\<close>

text \<open>A memory of one page, and one with a second page mapped by an earlier run.\<close>

definition sample_memory :: wasm_memory where
  "sample_memory = \<lparr>wm_size = 65536, wm_capacity = 131072, wm_max = 131072, wm_buffer = Some (\<lambda>_. 0)\<rparr>"

lemma sample_memory_ok: "memory_ok sample_memory" "clean_beyond sample_memory"
  by (simp_all add: sample_memory_def memory_ok_def clean_beyond_def WASM_MEMORY_MAX_def)





text \<open>
  Claim C38: the store instruction can leave data behind in a recycled memory. In a memory whose
  capacity an earlier run raised above its current size, storing a byte between the two succeeds; the byte is
  still there after the memory is reinitialised, and a later sandbox that grows the memory over it
  reads it.
\<close>

theorem recycled_memory_can_leak:
  assumes "memory_ok m" and "wm_size m \<le> ucast a" and "unat a < unat (wm_capacity m)" and "unat (wm_capacity m) \<le> unat (wm_max m)"
    and "initial = wm_size m"
  shows "\<exists>m1 m2 m3. set_i8 m a x = Inr m1 \<and> wasm_memory_reinit m1 initial = Inr m2 \<and>
    wasm_memory_expand True m2 (wm_capacity m - initial) = (0, m3) \<and> wasm_memory_get_i8 m3 a = Inr x"
proof -
  obtain b where b: "wm_buffer m = Some b" using assms(1) by (auto simp: memory_ok_def)
  let ?b = "write_range b (unat a) (le_bytes (Suc 0) x)"
  let ?m1 = "m\<lparr>wm_buffer := Some ?b\<rparr>"
  let ?m2 = "?m1\<lparr>wm_buffer := Some (\<lambda>i. if i < unat (wm_size m) then 0 else ?b i), wm_size := initial\<rparr>"
  let ?m3 = "?m2\<lparr>wm_size := wm_capacity m\<rparr>"
  have "unat (wm_capacity m) \<le> mapped_bytes m" by (simp add: mapped_bytes_def PAGE_SIZE_def)
  then have "set_i8 m a x = Inr ?m1" using assms(3) b by (simp add: mapped_defs store_mapped_def)
  moreover have "wasm_memory_reinit ?m1 initial = Inr ?m2" by (simp add: wasm_memory_reinit_def with_buffer_def)
  moreover have "wasm_memory_expand True ?m2 (wm_capacity m - initial) = (0, ?m3)"
    using assms(1,4,5) by (simp add: wasm_memory_expand_def Let_def not_less word_le_nat_alt)
  moreover have "\<not> unat a < unat (wm_size m)" using assms(2) by (simp add: word_le_nat_alt)
  then have "wasm_memory_get_i8 ?m3 a = Inr x"
    using assms(3) by (simp add: checked_defs load_checked_small with_buffer_def read_range_def write_range_def le_bytes_def)
  ultimately show ?thesis by blast
qed

theorem recycled_memory_can_leak_witness:
  "\<exists>m1 m2 m3. set_i8 sample_memory 70000 42 = Inr m1 \<and> wasm_memory_reinit m1 65536 = Inr m2 \<and>
    wasm_memory_expand True m2 (wm_capacity sample_memory - 65536) = (0, m3) \<and> wasm_memory_get_i8 m3 70000 = Inr 42"
  by (rule recycled_memory_can_leak [OF sample_memory_ok(1)]) (simp_all add: sample_memory_def)

end
