(* ===== verification/Wasm_Table.thy ===== *)
theory Wasm_Table
  imports Sledge_Prelude
begin

text \<open>
  The table of indirect calls: runtime/include/wasm_table.h and the instructions of
  libsledge/src/table_instructions.c that compiled WebAssembly uses on the table of the current module. A
  function pointer is its address, \<^const>\<open>None\<close> for null. A trap leaves the function by a long jump and
  carries the number of \<open>enum sledge_abi__wasm_trap\<close>. Whether \<open>calloc\<close> succeeds is an argument.
\<close>

definition WASM_TRAP_INVALID_INDEX :: nat where "WASM_TRAP_INVALID_INDEX = 1"
definition WASM_TRAP_MISMATCHED_TYPE :: nat where "WASM_TRAP_MISMATCHED_TYPE = 2"

definition INDIRECT_TABLE_SIZE :: nat where "INDIRECT_TABLE_SIZE = 1024"

record wasm_table_entry =
  type_id :: u32
  func_pointer :: "nat option"

record wasm_table =
  wt_length :: u32
  wt_capacity :: u32
  wt_buffer :: "wasm_table_entry list option"

definition empty_entry :: wasm_table_entry where
  "empty_entry = \<lparr>type_id = 0, func_pointer = None\<rparr>"

text \<open>The capacity is a \<open>size_t\<close> that is stored in 32 bits.\<close>

definition wasm_table_init :: "bool \<Rightarrow> u64 \<Rightarrow> wasm_table \<Rightarrow> int \<times> wasm_table" where
  "wasm_table_init calloc_ok capacity t =
     (if capacity > 0 \<and> \<not> calloc_ok then (- 1, t\<lparr>wt_buffer := None\<rparr>)
      else (0, t\<lparr>wt_buffer := (if capacity > 0 then Some (replicate (unat capacity) empty_entry) else wt_buffer t),
                 wt_capacity := ucast capacity, wt_length := 0\<rparr>))"

definition wasm_table_alloc :: "bool \<Rightarrow> bool \<Rightarrow> u64 \<Rightarrow> wasm_table option" where
  "wasm_table_alloc struct_ok calloc_ok capacity =
     (if \<not> struct_ok then None
      else case wasm_table_init calloc_ok capacity \<lparr>wt_length = 0, wt_capacity = 0, wt_buffer = None\<rparr> of
             (rc, t) \<Rightarrow> if rc < 0 then None else Some t)"

definition wasm_table_deinit :: "wasm_table \<Rightarrow> wasm_table res" where
  "wasm_table_deinit t =
     (if wt_capacity t > 0 then assertc (wt_buffer t = None) (assertc (wt_length t = 0) (Inr t))
      else assertc (wt_buffer t \<noteq> None) (Inr \<lparr>wt_length = 0, wt_capacity = 0, wt_buffer = None\<rparr>))"

text \<open>Reading an element of the backing array.\<close>

definition entry_at :: "wasm_table \<Rightarrow> u32 \<Rightarrow> wasm_table_entry res" where
  "entry_at t idx =
     (case wt_buffer t of
        None \<Rightarrow> Inl Null_Dereference
      | Some b \<Rightarrow> if unat idx < length b then Inr (b ! unat idx) else Inl Out_Of_Bounds)"

definition store_entry :: "wasm_table \<Rightarrow> u32 \<Rightarrow> u32 \<Rightarrow> nat option \<Rightarrow> wasm_table res" where
  "store_entry t idx ty pointer =
     bindr (entry_at t idx) (\<lambda>f.
       if type_id f = ty \<and> func_pointer f = pointer then Inr t
       else Inr (t\<lparr>wt_buffer := map_option (\<lambda>b. b[unat idx := \<lparr>type_id = ty, func_pointer = pointer\<rparr>]) (wt_buffer t)\<rparr>))"

definition wasm_table_get :: "wasm_table \<Rightarrow> u32 \<Rightarrow> u32 \<Rightarrow> nat res" where
  "wasm_table_get t idx ty =
     (if idx \<ge> wt_capacity t then Inl (Wasm_Trap WASM_TRAP_INVALID_INDEX)
      else bindr (entry_at t idx) (\<lambda>f. assertc (type_id f = ty)
        (case func_pointer f of None \<Rightarrow> Inl Assertion_Failure | Some p \<Rightarrow> Inr p)))"

definition wasm_table_set :: "wasm_table \<Rightarrow> u32 \<Rightarrow> u32 \<Rightarrow> nat option \<Rightarrow> wasm_table res" where
  "wasm_table_set t idx ty pointer =
     (if idx \<ge> wt_capacity t then Inl (Wasm_Trap WASM_TRAP_INVALID_INDEX)
      else assertc (pointer \<noteq> None) (store_entry t idx ty pointer))"

subsection \<open>table_instructions.c\<close>

text \<open>The table of the current module instance is an argument; \<^const>\<open>None\<close> is a null pointer.\<close>

definition add_function_to_table :: "wasm_table option \<Rightarrow> u32 \<Rightarrow> u32 \<Rightarrow> nat option \<Rightarrow> wasm_table res" where
  "add_function_to_table tbl idx ty pointer =
     (case tbl of
        None \<Rightarrow> Inl Assertion_Failure
      | Some t \<Rightarrow> assertc (idx < wt_capacity t) (assertc (pointer \<noteq> None) (store_entry t idx ty pointer)))"

definition get_function_from_table :: "wasm_table option \<Rightarrow> u32 \<Rightarrow> u32 \<Rightarrow> nat res" where
  "get_function_from_table tbl idx ty =
     (case tbl of
        None \<Rightarrow> Inl Assertion_Failure
      | Some t \<Rightarrow>
          if idx \<ge> wt_capacity t then Inl (Wasm_Trap WASM_TRAP_INVALID_INDEX)
          else bindr (entry_at t idx) (\<lambda>f.
            if type_id f \<noteq> ty then Inl (Wasm_Trap WASM_TRAP_MISMATCHED_TYPE)
            else case func_pointer f of None \<Rightarrow> Inl (Wasm_Trap WASM_TRAP_MISMATCHED_TYPE) | Some p \<Rightarrow> Inr p))"

subsection \<open>Well-formed tables and their contents\<close>

definition table_ok :: "wasm_table \<Rightarrow> bool" where
  "table_ok t \<longleftrightarrow> (\<exists>b. wt_buffer t = Some b \<and> length b = unat (wt_capacity t))"

definition slot :: "wasm_table \<Rightarrow> u32 \<Rightarrow> wasm_table_entry" where
  "slot t idx = (case wt_buffer t of Some b \<Rightarrow> b ! unat idx | None \<Rightarrow> empty_entry)"

text \<open>The element section of a module: the calls of \<open>add_function_to_table\<close> that fill its table.\<close>

fun fill_table :: "wasm_table \<Rightarrow> (u32 \<times> u32 \<times> nat) list \<Rightarrow> wasm_table res" where
  "fill_table t [] = Inr t"
| "fill_table t ((idx, ty, p) # es) = bindr (add_function_to_table (Some t) idx ty (Some p)) (\<lambda>t'. fill_table t' es)"

text \<open>What the last call for an index stored there.\<close>

definition last_added :: "(u32 \<times> u32 \<times> nat) list \<Rightarrow> u32 \<Rightarrow> (u32 \<times> nat) option" where
  "last_added es = map_of (rev es)"

lemma entry_at_ok: "\<lbrakk>table_ok t; idx < wt_capacity t\<rbrakk> \<Longrightarrow> entry_at t idx = Inr (slot t idx)"
  by (auto simp: table_ok_def entry_at_def slot_def word_less_nat_alt)

lemma wasm_table_init_ok:
  assumes "0 < c" "c < 2 ^ 32"
  shows "\<exists>t'. wasm_table_init True c t = (0, t') \<and> table_ok t' \<and> wt_capacity t' = ucast c \<and>
    (\<forall>idx < ucast c. slot t' idx = empty_entry)"
proof -
  have u: "unat (ucast c :: u32) = unat c"
    using assms(2) by (simp add: unsigned_ucast_eq take_bit_nat_eq_self_iff word_less_nat_alt)
  then show ?thesis
    using assms(1) by (auto simp: wasm_table_init_def table_ok_def slot_def word_less_nat_alt)
qed

lemma store_entry_ok:
  assumes "table_ok t" "idx < wt_capacity t"
  shows "\<exists>t'. store_entry t idx ty p = Inr t' \<and> table_ok t' \<and> wt_capacity t' = wt_capacity t \<and>
    slot t' idx = \<lparr>type_id = ty, func_pointer = p\<rparr> \<and> (\<forall>j. j \<noteq> idx \<longrightarrow> slot t' j = slot t j)"
proof -
  obtain b where b: "wt_buffer t = Some b" "length b = unat (wt_capacity t)" using assms(1) by (auto simp: table_ok_def)
  show ?thesis
  proof (cases "type_id (slot t idx) = ty \<and> func_pointer (slot t idx) = p")
    case True
    then show ?thesis using assms by (auto simp: store_entry_def entry_at_ok)
  next
    case False
    let ?t = "t\<lparr>wt_buffer := Some (b[unat idx := \<lparr>type_id = ty, func_pointer = p\<rparr>])\<rparr>"
    have "store_entry t idx ty p = Inr ?t" using False assms b by (auto simp: store_entry_def entry_at_ok)
    moreover have "\<forall>j. j \<noteq> idx \<longrightarrow> slot ?t j = slot t j" using b by (auto simp: slot_def nth_list_update word_unat_eq_iff)
    moreover have "slot ?t idx = \<lparr>type_id = ty, func_pointer = p\<rparr>" using assms(2) b by (simp add: slot_def word_less_nat_alt)
    ultimately show ?thesis using b by (auto simp: table_ok_def)
  qed
qed

lemma fill_table_ok:
  "\<lbrakk>table_ok t; \<forall>(idx, ty, p)\<in>set es. idx < wt_capacity t\<rbrakk> \<Longrightarrow>
    \<exists>t'. fill_table t es = Inr t' \<and> table_ok t' \<and> wt_capacity t' = wt_capacity t \<and>
      (\<forall>j. slot t' j = (case last_added es j of None \<Rightarrow> slot t j | Some (ty, p) \<Rightarrow> \<lparr>type_id = ty, func_pointer = Some p\<rparr>))"
proof (induction es arbitrary: t)
  case Nil
  then show ?case by (simp add: last_added_def)
next
  case (Cons e es)
  obtain idx ty p where e: "e = (idx, ty, p)" by (cases e)
  with Cons.prems have i: "idx < wt_capacity t" by simp
  then obtain t1 where t1: "store_entry t idx ty (Some p) = Inr t1" "table_ok t1" "wt_capacity t1 = wt_capacity t"
    "slot t1 idx = \<lparr>type_id = ty, func_pointer = Some p\<rparr>" "\<forall>j. j \<noteq> idx \<longrightarrow> slot t1 j = slot t j"
    using store_entry_ok [OF Cons.prems(1)] by blast
  then obtain t2 where t2: "fill_table t1 es = Inr t2" "table_ok t2" "wt_capacity t2 = wt_capacity t"
    "\<forall>j. slot t2 j = (case last_added es j of None \<Rightarrow> slot t1 j | Some (ty, p) \<Rightarrow> \<lparr>type_id = ty, func_pointer = Some p\<rparr>)"
    using Cons.IH [of t1] Cons.prems(2) by auto
  have "slot t2 j = (case last_added (e # es) j of None \<Rightarrow> slot t j | Some (ty, p) \<Rightarrow> \<lparr>type_id = ty, func_pointer = Some p\<rparr>)" for j
    using t2(4) t1(4,5) e by (auto simp: last_added_def map_add_def split: option.splits)
  moreover have "fill_table t (e # es) = Inr t2" using e i t1(1) t2(1) by (simp add: add_function_to_table_def)
  ultimately show ?case using t2 by blast
qed

text \<open>The instruction and the function of the runtime agree, except for the way they stop on a wrong type.\<close>

lemma get_function_from_table_Inr_iff: "get_function_from_table (Some t) idx ty = Inr p \<longleftrightarrow> wasm_table_get t idx ty = Inr p"
  by (auto simp: get_function_from_table_def wasm_table_get_def split: option.splits)

text \<open>
  \<open>wasm_table_deinit\<close> tests its capacity the wrong way round: on every well-formed table of positive
  capacity it stops on an assertion.
\<close>

lemma wasm_table_deinit_inverted:
  "\<lbrakk>table_ok t; 0 < wt_capacity t\<rbrakk> \<Longrightarrow> wasm_table_deinit t = Inl Assertion_Failure"
  by (auto simp: wasm_table_deinit_def table_ok_def)

subsection \<open>Property\<close>

text \<open>
  Claim C11: indirect calls are type safe. Take a module's table of up to 2^32 - 1 entries, filled by any calls
  of \<open>add_function_to_table\<close> within its capacity. An indirect call with an index and a type gets a function exactly
  when the last call for that index stored that function with that very type; a different type and an
  empty entry raise the trap for mismatched types, and an index beyond the table the one for an invalid
  index. The table access of the runtime returns the same functions.
\<close>

theorem indirect_calls_type_safe:
  assumes "0 < c" and "c < 2 ^ 32" and "wasm_table_alloc True True c = Some t" and "\<forall>(i, ty, p)\<in>set es. i < ucast c"
  shows "\<exists>t'. fill_table t es = Inr t' \<and> (\<forall>idx ty.
    get_function_from_table (Some t') idx ty =
      (if idx \<ge> ucast c then Inl (Wasm_Trap WASM_TRAP_INVALID_INDEX)
       else case last_added es idx of
              None \<Rightarrow> Inl (Wasm_Trap WASM_TRAP_MISMATCHED_TYPE)
            | Some (ty', p) \<Rightarrow> if ty' = ty then Inr p else Inl (Wasm_Trap WASM_TRAP_MISMATCHED_TYPE)) \<and>
    (\<forall>q. wasm_table_get t' idx ty = Inr q \<longleftrightarrow> get_function_from_table (Some t') idx ty = Inr q))"
proof -
  have t: "table_ok t" "wt_capacity t = ucast c" "\<forall>j < ucast c. slot t j = empty_entry"
    using wasm_table_init_ok [OF assms(1,2), of "\<lparr>wt_length = 0, wt_capacity = 0, wt_buffer = None\<rparr>"] assms(3)
    by (auto simp: wasm_table_alloc_def)
  then obtain t' where t': "fill_table t es = Inr t'" "table_ok t'" "wt_capacity t' = ucast c"
    "\<forall>j. slot t' j = (case last_added es j of None \<Rightarrow> slot t j | Some (ty, p) \<Rightarrow> \<lparr>type_id = ty, func_pointer = Some p\<rparr>)"
    using fill_table_ok [OF t(1), of es] assms(4) by auto
  moreover have "get_function_from_table (Some t') idx ty =
      (if idx \<ge> ucast c then Inl (Wasm_Trap WASM_TRAP_INVALID_INDEX)
       else case last_added es idx of
              None \<Rightarrow> Inl (Wasm_Trap WASM_TRAP_MISMATCHED_TYPE)
            | Some (ty', p) \<Rightarrow> if ty' = ty then Inr p else Inl (Wasm_Trap WASM_TRAP_MISMATCHED_TYPE))" for idx ty
    using t t'(2-4)
    by (auto simp: get_function_from_table_def entry_at_ok empty_entry_def not_le split: option.splits)
  ultimately show ?thesis using get_function_from_table_Inr_iff by blast
qed

theorem indirect_calls_type_safe_witness:
  "\<exists>t t'. wasm_table_alloc True True 4 = Some t \<and> fill_table t [(1, 7, 100), (2, 8, 200), (1, 9, 300)] = Inr t' \<and>
     get_function_from_table (Some t') 1 9 = Inr 300 \<and>
     get_function_from_table (Some t') 1 7 = Inl (Wasm_Trap WASM_TRAP_MISMATCHED_TYPE) \<and>
     get_function_from_table (Some t') 4 7 = Inl (Wasm_Trap WASM_TRAP_INVALID_INDEX)"
proof -
  let ?es = "[(1, 7, 100), (2, 8, 200), (1, 9, 300)] :: (u32 \<times> u32 \<times> nat) list"
  obtain t where t: "wasm_table_alloc True True 4 = Some t" by (simp add: wasm_table_alloc_def wasm_table_init_def)
  have e: "\<forall>(i, ty, p)\<in>set ?es. i < ucast (4 :: u64)" by simp
  obtain t' where t': "fill_table t ?es = Inr t'" and g: "\<And>idx ty. get_function_from_table (Some t') idx ty =
      (if idx \<ge> ucast (4 :: u64) then Inl (Wasm_Trap WASM_TRAP_INVALID_INDEX)
       else case last_added ?es idx of
              None \<Rightarrow> Inl (Wasm_Trap WASM_TRAP_MISMATCHED_TYPE)
            | Some (ty', p) \<Rightarrow> if ty' = ty then Inr p else Inl (Wasm_Trap WASM_TRAP_MISMATCHED_TYPE))"
    using indirect_calls_type_safe [OF _ _ t e] by auto
  have "get_function_from_table (Some t') 1 9 = Inr 300"
    "get_function_from_table (Some t') 1 7 = Inl (Wasm_Trap WASM_TRAP_MISMATCHED_TYPE)"
    "get_function_from_table (Some t') 4 7 = Inl (Wasm_Trap WASM_TRAP_INVALID_INDEX)"
    by (simp_all add: g last_added_def word_le_nat_alt)
  with t t' show ?thesis by blast
qed

end
