(* ===== verification/Module_Pool.thy ===== *)
theory Module_Pool
  imports Ps_List Wasm_Memory Wasm_Table
begin

text \<open>
  The object pools of runtime/include/pool.h, the stacks of runtime/include/wasm_stack.h, and the module of
  runtime/include/module.h and runtime/src/module.c, which keeps one pool of linear memories and one
  of stacks per worker. A pool is a list head in a memory of linked objects; the objects themselves are
  kept in maps from addresses. The shared object of a module (\<open>dlopen\<close>) and the code in it are
  arguments, as are the results of allocations.
\<close>

unbundle bit_operations_syntax

subsection \<open>pool.h\<close>

record pool =
  use_lock :: bool
  pool_locked :: bool
  pool_head :: addr

definition pool_is_empty :: "ps_mem \<Rightarrow> pool \<Rightarrow> bool" where
  "pool_is_empty m self = ps_list_head_empty m (pool_head self)"

definition pool_init :: "ps_mem \<Rightarrow> pool \<Rightarrow> bool \<Rightarrow> ps_mem \<times> pool" where
  "pool_init m self locked =
     (ps_list_head_init m (pool_head self),
      self\<lparr>use_lock := locked, pool_locked := (if locked then False else pool_locked self)\<rparr>)"

definition pool_remove_nolock :: "ps_mem \<Rightarrow> pool \<Rightarrow> (addr option \<times> ps_mem) res" where
  "pool_remove_nolock m self =
     assertc (\<not> use_lock self \<or> pool_locked self)
       (if pool_is_empty m self then Inr (None, m)
        else let obj = ps_list_head_first m (pool_head self) in Inr (Some obj, ps_list_rem m obj))"

text \<open>The lock is taken and released around the locked part; nobody else runs in between.\<close>

definition pool_remove :: "ps_mem \<Rightarrow> pool \<Rightarrow> (addr option \<times> ps_mem) res" where
  "pool_remove m self =
     assertc (use_lock self)
       (if pool_is_empty m self then Inr (None, m) else pool_remove_nolock m (self\<lparr>pool_locked := True\<rparr>))"

definition pool_add_nolock :: "ps_mem \<Rightarrow> pool \<Rightarrow> addr \<Rightarrow> ps_mem res" where
  "pool_add_nolock m self obj =
     assertc (\<not> use_lock self \<or> pool_locked self) (Inr (ps_list_head_add m (pool_head self) obj))"

definition pool_add :: "ps_mem \<Rightarrow> pool \<Rightarrow> addr \<Rightarrow> ps_mem res" where
  "pool_add m self obj = assertc (use_lock self) (pool_add_nolock m (self\<lparr>pool_locked := True\<rparr>) obj)"

text \<open>
  The loop that takes a pool down: it follows the links while it removes nodes, so it may not end on a
  memory that is not a list. The result is the memory and the objects that were freed, in order.
\<close>

partial_function (option) pool_deinit_loop ::
  "ps_mem \<Rightarrow> addr \<Rightarrow> addr \<Rightarrow> addr \<Rightarrow> addr list \<Rightarrow> (ps_mem \<times> addr list) option" where
  "pool_deinit_loop m h iter tmp freed =
     (if ps_list_is_head h iter then Some (m, freed)
      else let m' = ps_list_rem m iter in pool_deinit_loop m' h tmp (ps_list_next m' tmp) (freed @ [iter]))"

definition pool_deinit :: "ps_mem \<Rightarrow> pool \<Rightarrow> (ps_mem \<times> addr list) option" where
  "pool_deinit m self =
     (if pool_is_empty m self then Some (m, [])
      else let first = ps_list_head_first m (pool_head self)
           in pool_deinit_loop m (pool_head self) first (ps_list_next m first) [])"

subsection \<open>wasm_stack.h\<close>

text \<open>Addresses are natural numbers, a null buffer is \<^const>\<open>None\<close>, and the bytes count from the lowest usable address.\<close>

record wasm_stack =
  st_capacity :: u64
  st_high :: nat
  st_low :: nat
  st_buffer :: "nat option"
  st_bytes :: byte_array

text \<open>The result of \<open>mmap\<close> is an address or a failure. The list node of the stack is initialised by the caller below.\<close>

definition wasm_stack_init :: "nat option \<Rightarrow> bool \<Rightarrow> u64 \<Rightarrow> wasm_stack \<Rightarrow> int \<times> wasm_stack" where
  "wasm_stack_init mmap mprotect_ok capacity s =
     (case mmap of
        None \<Rightarrow> (- 1, s\<lparr>st_buffer := None\<rparr>)
      | Some a \<Rightarrow>
          let s1 = s\<lparr>st_buffer := Some a, st_low := a + PAGE_SIZE, st_capacity := capacity,
                     st_high := a + PAGE_SIZE + unat capacity, st_bytes := (\<lambda>_. 0)\<rparr>
          in if mprotect_ok then (0, s1) else (- 1, s1\<lparr>st_buffer := None\<rparr>))"

definition wasm_stack_deinit :: "wasm_stack \<Rightarrow> wasm_stack res" where
  "wasm_stack_deinit s =
     assertc (st_buffer s \<noteq> None) (Inr (s\<lparr>st_buffer := None, st_high := 0, st_low := 0\<rparr>))"

definition wasm_stack_free :: "wasm_stack \<Rightarrow> unit res" where
  "wasm_stack_free s = assertc (st_buffer s \<noteq> None) (bindr (wasm_stack_deinit s) (\<lambda>_. Inr ()))"

definition zero_stack :: wasm_stack where
  "zero_stack = \<lparr>st_capacity = 0, st_high = 0, st_low = 0, st_buffer = None, st_bytes = (\<lambda>_. 0)\<rparr>"

definition wasm_stack_alloc :: "bool \<Rightarrow> nat option \<Rightarrow> bool \<Rightarrow> u64 \<Rightarrow> wasm_stack option res" where
  "wasm_stack_alloc calloc_ok mmap mprotect_ok capacity =
     assertc calloc_ok
       (case wasm_stack_init mmap mprotect_ok capacity zero_stack of
          (rc, s) \<Rightarrow> if rc < 0 then bindr (wasm_stack_free s) (\<lambda>_. Inr None) else Inr (Some s))"

definition wasm_stack_reinit :: "wasm_stack \<Rightarrow> wasm_stack res" where
  "wasm_stack_reinit s =
     (case st_buffer s of
        None \<Rightarrow> Inl Assertion_Failure
      | Some a \<Rightarrow> assertc (st_low s = a + PAGE_SIZE) (assertc (st_high s = st_low s + unat (st_capacity s))
          (Inr (s\<lparr>st_bytes := (\<lambda>i. if i < unat (st_capacity s) then 0 else st_bytes s i)\<rparr>))))"

subsection \<open>module.h\<close>

text \<open>The fields of \<open>struct sledge_abi_symbols\<close> that the runtime reads as data.\<close>

record sledge_abi_symbols =
  starting_pages :: u32
  max_pages :: u32
  globals_len :: u32

record module_pool =
  memory_pool :: pool
  stack_pool :: pool

record module_t =
  mod_path :: string
  stack_size :: u32
  abi :: sledge_abi_symbols
  reference_count :: u32
  indirect_table :: "wasm_table option"
  pools :: "nat \<Rightarrow> module_pool"

text \<open>The memory that holds the objects of the pools: the links, the linear memories and the stacks.\<close>

record objects =
  links_of :: ps_mem
  memories :: "addr \<Rightarrow> wasm_memory"
  stacks :: "addr \<Rightarrow> wasm_stack"

definition module_acquire :: "module_t \<Rightarrow> module_t res" where
  "module_acquire md =
     assertc (reference_count md < UINT32_MAX) (Inr (md\<lparr>reference_count := reference_count md + 1\<rparr>))"

definition module_release :: "module_t \<Rightarrow> module_t res" where
  "module_release md =
     assertc (reference_count md > 0) (Inr (md\<lparr>reference_count := reference_count md - 1\<rparr>))"

text \<open>
  The code of the module that fills its table is an argument. The table of the current module instance, which
  has to be null before and is null again afterwards, is the first argument and part of the result.
\<close>

definition module_initialize_table ::
  "wasm_table option \<Rightarrow> (wasm_table \<Rightarrow> wasm_table res) \<Rightarrow> module_t \<Rightarrow> (wasm_table option \<times> module_t) res" where
  "module_initialize_table current_table initialize_tables md =
     assertc (current_table = None)
       (case indirect_table md of
          None \<Rightarrow> Inl Null_Dereference
        | Some t \<Rightarrow> bindr (initialize_tables t) (\<lambda>t'. Inr (None, md\<lparr>indirect_table := Some t'\<rparr>)))"

definition module_alloc_table ::
  "bool \<Rightarrow> bool \<Rightarrow> wasm_table option \<Rightarrow> (wasm_table \<Rightarrow> wasm_table res) \<Rightarrow> module_t \<Rightarrow> (int \<times> wasm_table option \<times> module_t) res" where
  "module_alloc_table struct_ok calloc_ok current_table initialize_tables md =
     (case wasm_table_alloc struct_ok calloc_ok (of_nat INDIRECT_TABLE_SIZE) of
        None \<Rightarrow> Inr (- 1, current_table, md\<lparr>indirect_table := None\<rparr>)
      | Some t \<Rightarrow> bindr (module_initialize_table current_table initialize_tables (md\<lparr>indirect_table := Some t\<rparr>))
          (\<lambda>(c, md'). Inr (0, c, md')))"

fun module_initialize_pools :: "nat \<Rightarrow> ps_mem \<Rightarrow> module_t \<Rightarrow> ps_mem \<times> module_t" where
  "module_initialize_pools 0 m md = (m, md)"
| "module_initialize_pools (Suc i) m md =
     (let (m1, md1) = module_initialize_pools i m md;
          (m2, mp) = pool_init m1 (memory_pool (pools md1 i)) False;
          (m3, sp) = pool_init m2 (stack_pool (pools md1 i)) False
      in (m3, md1\<lparr>pools := (pools md1)(i := \<lparr>memory_pool = mp, stack_pool = sp\<rparr>)\<rparr>))"

text \<open>
  Taking a stack or a memory from the pool of a worker. The arguments in front are the address of a new object
  and the results of the allocations, used when the pool is empty. A new object is a node of
  its own, as its initialisation leaves it.
\<close>

definition module_allocate_stack ::
  "addr \<Rightarrow> bool \<Rightarrow> nat option \<Rightarrow> bool \<Rightarrow> nat \<Rightarrow> module_t \<Rightarrow> objects \<Rightarrow> (addr option \<times> objects) res" where
  "module_allocate_stack new calloc_ok mmap mprotect_ok worker_thread_idx md ob =
     bindr (pool_remove_nolock (links_of ob) (stack_pool (pools md worker_thread_idx))) (\<lambda>(obj, m).
       case obj of
         Some p \<Rightarrow> Inr (Some p, ob\<lparr>links_of := m\<rparr>)
       | None \<Rightarrow> bindr (wasm_stack_alloc calloc_ok mmap mprotect_ok (ucast (stack_size md))) (\<lambda>r.
           case r of
             None \<Rightarrow> Inr (None, ob\<lparr>links_of := m\<rparr>)
           | Some s \<Rightarrow> Inr (Some new, ob\<lparr>links_of := ps_list_init m new, stacks := (stacks ob)(new := s)\<rparr>)))"

definition module_free_stack :: "nat \<Rightarrow> module_t \<Rightarrow> addr \<Rightarrow> objects \<Rightarrow> objects res" where
  "module_free_stack worker_thread_idx md p ob =
     bindr (wasm_stack_reinit (stacks ob p)) (\<lambda>s.
       bindr (pool_add_nolock (ps_list_init (links_of ob) p) (stack_pool (pools md worker_thread_idx)) p) (\<lambda>m.
         Inr (ob\<lparr>links_of := m, stacks := (stacks ob)(p := s)\<rparr>)))"

definition module_allocate_linear_memory ::
  "addr \<Rightarrow> bool \<Rightarrow> bool \<Rightarrow> bool \<Rightarrow> wasm_memory \<Rightarrow> nat \<Rightarrow> module_t \<Rightarrow> objects \<Rightarrow> (addr option \<times> objects) res" where
  "module_allocate_linear_memory new alloc_ok mmap_ok mprotect_ok garbage worker_thread_idx md ob =
     (let starting_bytes = (ucast (starting_pages (abi md)) :: u64) * of_nat WASM_PAGE_SIZE;
          max_bytes = (ucast (max_pages (abi md)) :: u64) * of_nat WASM_PAGE_SIZE
      in assertc (starting_bytes \<le> 2 ^ 32) (assertc (max_bytes \<le> 2 ^ 32)
        (bindr (pool_remove_nolock (links_of ob) (memory_pool (pools md worker_thread_idx))) (\<lambda>(obj, m).
          case obj of
            Some p \<Rightarrow> Inr (Some p, ob\<lparr>links_of := m\<rparr>)
          | None \<Rightarrow> bindr (wasm_memory_alloc alloc_ok mmap_ok mprotect_ok garbage starting_bytes max_bytes) (\<lambda>r.
              case r of
                None \<Rightarrow> Inr (None, ob\<lparr>links_of := m\<rparr>)
              | Some wm \<Rightarrow> Inr (Some new, ob\<lparr>links_of := ps_list_init m new, memories := (memories ob)(new := wm)\<rparr>))))))"

text \<open>The product of the two 32-bit numbers is a 32-bit number, unlike in the allocation.\<close>

definition module_free_linear_memory :: "nat \<Rightarrow> module_t \<Rightarrow> addr \<Rightarrow> objects \<Rightarrow> objects res" where
  "module_free_linear_memory worker_thread_idx md p ob =
     bindr (wasm_memory_reinit (memories ob p) (ucast (starting_pages (abi md) * of_nat WASM_PAGE_SIZE))) (\<lambda>wm.
       bindr (pool_add_nolock (links_of ob) (memory_pool (pools md worker_thread_idx)) p) (\<lambda>m.
         Inr (ob\<lparr>links_of := m, memories := (memories ob)(p := wm)\<rparr>)))"

subsection \<open>module.c\<close>

definition WASM_STACK_SIZE :: nat where "WASM_STACK_SIZE = 2 ^ 19"

definition round_to_pow2 :: "u64 \<Rightarrow> u64 \<Rightarrow> u64" where
  "round_to_pow2 x pow2 = x AND NOT (pow2 - 1)"

definition round_up_to_pow2 :: "u64 \<Rightarrow> u64 \<Rightarrow> u64" where
  "round_up_to_pow2 x pow2 = round_to_pow2 (x + pow2 - 1) pow2"

definition round_up_to_page :: "u64 \<Rightarrow> u64" where
  "round_up_to_page x = round_up_to_pow2 x (of_nat PAGE_SIZE)"

text \<open>
  The symbols of the shared object are \<^const>\<open>None\<close> when it cannot be opened or a symbol is missing. The addresses
  of the list heads in the new array of pools are the argument \<open>heads\<close>. Whether the array was
  allocated is not tested before its first use.
\<close>

definition module_init ::
  "sledge_abi_symbols option \<Rightarrow> bool \<Rightarrow> (nat \<Rightarrow> module_pool) \<Rightarrow> bool \<Rightarrow> bool \<Rightarrow> nat \<Rightarrow> wasm_table option \<Rightarrow>
   (wasm_table \<Rightarrow> wasm_table res) \<Rightarrow> string \<Rightarrow> ps_mem \<Rightarrow> module_t \<Rightarrow> (int \<times> ps_mem \<times> wasm_table option \<times> module_t) res" where
  "module_init symbols pools_ok heads struct_ok calloc_ok runtime_worker_threads_count current_table initialize_tables path m md =
     assertc (length path > 0)
       (case symbols of
          None \<Rightarrow> Inr (- 1, m, current_table, md\<lparr>reference_count := 0\<rparr>)
        | Some ab \<Rightarrow>
            let md1 = md\<lparr>reference_count := 0, abi := ab, pools := heads, mod_path := path,
                         stack_size := ucast (round_up_to_page (of_nat WASM_STACK_SIZE))\<rparr>
            in bindr (module_alloc_table struct_ok calloc_ok current_table initialize_tables md1) (\<lambda>(_, c, md2).
                 if \<not> pools_ok \<and> runtime_worker_threads_count > 0 then Inl Null_Dereference
                 else case module_initialize_pools runtime_worker_threads_count m md2 of
                        (m', md3) \<Rightarrow> Inr (0, m', c, md3)))"

definition module_deinit :: "module_t option \<Rightarrow> unit res" where
  "module_deinit md = (case md of Some _ \<Rightarrow> Inl Assertion_Failure | None \<Rightarrow> Inl Null_Dereference)"

definition module_free :: "module_t option \<Rightarrow> unit res" where
  "module_free md = (case md of None \<Rightarrow> Inr () | Some x \<Rightarrow> assertc (reference_count x = 0) (Inl Panic))"

definition CACHE_PAD :: u64 where "CACHE_PAD = 128"

definition round_to_cache_pad :: "u64 \<Rightarrow> u64" where
  "round_to_cache_pad x = round_to_pow2 x CACHE_PAD"

definition zero_module :: module_t where
  "zero_module = \<lparr>mod_path = [], stack_size = 0, abi = \<lparr>starting_pages = 0, max_pages = 0, globals_len = 0\<rparr>,
     reference_count = 0, indirect_table = None,
     pools = (\<lambda>_. \<lparr>memory_pool = \<lparr>use_lock = False, pool_locked = False, pool_head = 0\<rparr>,
       stack_pool = \<lparr>use_lock = False, pool_locked = False, pool_head = 0\<rparr>\<rparr>)\<rparr>"

text \<open>The size of the structure is an argument; the module is zeroed before it is initialised.\<close>

definition module_alloc ::
  "u64 \<Rightarrow> bool \<Rightarrow> sledge_abi_symbols option \<Rightarrow> bool \<Rightarrow> (nat \<Rightarrow> module_pool) \<Rightarrow> bool \<Rightarrow> bool \<Rightarrow> nat \<Rightarrow> wasm_table option \<Rightarrow>
   (wasm_table \<Rightarrow> wasm_table res) \<Rightarrow> string \<Rightarrow> ps_mem \<Rightarrow> (ps_mem \<times> wasm_table option \<times> module_t option) res" where
  "module_alloc size_of_module aligned_alloc_ok symbols pools_ok heads struct_ok calloc_ok workers current_table initialize_tables path m =
     assertc (round_to_cache_pad size_of_module mod CACHE_PAD = 0)
       (if \<not> aligned_alloc_ok then Inr (m, current_table, None)
        else bindr (module_init symbols pools_ok heads struct_ok calloc_ok workers current_table initialize_tables path m zero_module)
          (\<lambda>(rc, m', c, md). Inr (m', c, if rc < 0 then None else Some md)))"

subsection \<open>A pool is a stack of objects\<close>

locale object_pool =
  fixes holds :: "'s \<Rightarrow> addr list \<Rightarrow> bool"
    and fresh :: "addr \<Rightarrow> addr list \<Rightarrow> bool"
    and take_out :: "'s \<Rightarrow> (addr option \<times> 's) res"
    and put_back :: "'s \<Rightarrow> addr \<Rightarrow> 's res"
  assumes take_empty: "holds s [] \<Longrightarrow> take_out s = Inr (None, s)"
    and take_first: "holds s (x # xs) \<Longrightarrow> \<exists>s'. take_out s = Inr (Some x, s') \<and> holds s' xs"
    and put_first: "\<lbrakk>holds s xs; fresh x xs\<rbrakk> \<Longrightarrow> \<exists>s'. put_back s x = Inr s' \<and> holds s' (x # xs)"
begin

lemma put_take:
  assumes "holds s xs" "fresh x xs" "put_back s x = Inr s'"
  shows "\<exists>s''. take_out s' = Inr (Some x, s'') \<and> holds s'' xs"
  using put_first [OF assms(1,2)] assms(3) take_first by auto

lemma take_out_total:
  assumes "holds s xs"
  shows "\<exists>s'. take_out s = Inr (case xs of [] \<Rightarrow> None | x # _ \<Rightarrow> Some x, s') \<and> holds s' (tl xs)"
proof (cases xs)
  case Nil
  then show ?thesis using assms take_empty by (metis list.case(1) list.sel(2))
next
  case (Cons x ys)
  then show ?thesis using assms take_first by auto
qed

end

definition apart :: "addr \<Rightarrow> addr \<Rightarrow> addr list \<Rightarrow> bool" where
  "apart h x xs \<longleftrightarrow> x \<notin> set (h # xs)"

lemma remove_ring:
  assumes "ring m (pool_head p) (x # xs)" "\<not> use_lock p \<or> pool_locked p"
  shows "\<exists>m'. pool_remove_nolock m p = Inr (Some x, m') \<and> ring m' (pool_head p) xs"
  using ring_first [OF assms(1)] ring_empty_iff [OF assms(1)] ring_rem(1) [of m "pool_head p" "[]" x xs] assms
  by (simp add: pool_remove_nolock_def pool_is_empty_def Let_def ps_list_rem_def)

lemma remove_ring_empty:
  assumes "ring m (pool_head p) []" "\<not> use_lock p \<or> pool_locked p"
  shows "pool_remove_nolock m p = Inr (None, m)"
  using ring_empty_iff [OF assms(1)] assms(2) by (simp add: pool_remove_nolock_def pool_is_empty_def)

interpretation unlocked: object_pool "\<lambda>m. ring m h" "apart h"
    "\<lambda>m. pool_remove_nolock m \<lparr>use_lock = False, pool_locked = l, pool_head = h\<rparr>"
    "\<lambda>m. pool_add_nolock m \<lparr>use_lock = False, pool_locked = l, pool_head = h\<rparr>"
  for h l
proof unfold_locales
  let ?p = "\<lparr>use_lock = False, pool_locked = l, pool_head = h\<rparr>"
  show "pool_remove_nolock m ?p = Inr (None, m)" if "ring m h []" for m
    using remove_ring_empty [of m ?p] that by simp
  show "\<exists>m'. pool_remove_nolock m ?p = Inr (Some x, m') \<and> ring m' h xs" if "ring m h (x # xs)" for m x xs
    using remove_ring [of m ?p x xs] that by simp
  show "\<exists>m'. pool_add_nolock m ?p x = Inr m' \<and> ring m' h (x # xs)" if "ring m h xs" "apart h x xs" for m xs x
    using ring_head_add [of m h xs x] that by (simp add: pool_add_nolock_def apart_def)
qed

interpretation locked: object_pool "\<lambda>m. ring m h" "apart h"
    "\<lambda>m. pool_remove m \<lparr>use_lock = True, pool_locked = l, pool_head = h\<rparr>"
    "\<lambda>m. pool_add m \<lparr>use_lock = True, pool_locked = l, pool_head = h\<rparr>"
  for h l
proof unfold_locales
  let ?p = "\<lparr>use_lock = True, pool_locked = True, pool_head = h\<rparr>"
  show "pool_remove m \<lparr>use_lock = True, pool_locked = l, pool_head = h\<rparr> = Inr (None, m)" if "ring m h []" for m
    using ring_empty_iff [OF that] by (simp add: pool_remove_def pool_is_empty_def)
  show "\<exists>m'. pool_remove m \<lparr>use_lock = True, pool_locked = l, pool_head = h\<rparr> = Inr (Some x, m') \<and> ring m' h xs" if "ring m h (x # xs)" for m x xs
    using remove_ring [of m ?p x xs] ring_empty_iff [OF that] that by (simp add: pool_remove_def pool_is_empty_def)
  show "\<exists>m'. pool_add m \<lparr>use_lock = True, pool_locked = l, pool_head = h\<rparr> x = Inr m' \<and> ring m' h (x # xs)" if "ring m h xs" "apart h x xs" for m xs x
    using ring_head_add [of m h xs x] that by (simp add: pool_add_def pool_add_nolock_def apart_def)
qed

lemma pool_deinit_loop_ends:
  "ring m h (x # xs) \<Longrightarrow> \<exists>m'. pool_deinit_loop m h x (ps_list_next m x) freed = Some (m', freed @ x # xs) \<and> ring m' h []"
proof (induction xs arbitrary: m x freed)
  case Nil
  have "ring (ps_list_rem m x) h []" using ring_rem(1) [of m h "[]" x "[]"] Nil by (simp add: ps_list_rem_def)
  moreover have "ps_list_next m x = h" "x \<noteq> h" using Nil by (auto simp: ring_def ps_list_next_def)
  moreover have "pool_deinit_loop m' h h t fs = Some (m', fs)" for m' t fs
    by (subst pool_deinit_loop.simps) (simp add: ps_list_is_head_def)
  ultimately show ?case by (subst pool_deinit_loop.simps) (simp add: ps_list_is_head_def Let_def)
next
  case (Cons y ys)
  have r: "ring (ps_list_rem m x) h (y # ys)" using ring_rem(1) [of m h "[]" x "y # ys"] Cons.prems by (simp add: ps_list_rem_def)
  have "ps_list_next m x = y" "x \<noteq> h" using Cons.prems by (auto simp: ring_def ps_list_next_def)
  then show ?case using Cons.IH [OF r, of "freed @ [x]"] by (subst pool_deinit_loop.simps) (auto simp: ps_list_is_head_def Let_def)
qed

subsection \<open>Failing allocations of a stack\<close>

text \<open>
  When the pages of a stack cannot be mapped, the error path frees a structure without a buffer, which
  \<open>wasm_stack_free\<close> asserts never to happen: the allocation never returns null.
\<close>

lemma wasm_stack_alloc_cases:
  "wasm_stack_alloc calloc_ok mmap mprotect_ok capacity =
    (case mmap of
       Some a \<Rightarrow> if calloc_ok \<and> mprotect_ok
         then Inr (Some \<lparr>st_capacity = capacity, st_high = a + PAGE_SIZE + unat capacity, st_low = a + PAGE_SIZE,
                         st_buffer = Some a, st_bytes = (\<lambda>_. 0)\<rparr>)
         else Inl Assertion_Failure
     | None \<Rightarrow> Inl Assertion_Failure)"
  by (auto simp: wasm_stack_alloc_def wasm_stack_init_def wasm_stack_free_def zero_stack_def assertc_def split: option.splits)

text \<open>A stack that was used anywhere between its bounds is recycled clean.\<close>

lemma wasm_stack_reinit_clean:
  assumes "wasm_stack_alloc True (Some a) True capacity = Inr (Some s)" and "\<forall>i \<ge> unat capacity. bytes i = 0"
  shows "wasm_stack_reinit (s\<lparr>st_bytes := bytes\<rparr>) = Inr s"
  using assms by (auto simp: wasm_stack_alloc_cases wasm_stack_reinit_def fun_eq_iff not_less)

subsection \<open>The memories of a module\<close>

definition starting_bytes :: "module_t \<Rightarrow> u64" where
  "starting_bytes md = ucast (starting_pages (abi md)) * of_nat WASM_PAGE_SIZE"

text \<open>A module whose memory starts below 4 GiB; its pools use no lock.\<close>

definition module_ok :: "nat \<Rightarrow> module_t \<Rightarrow> bool" where
  "module_ok i md \<longleftrightarrow> 0 < unat (starting_pages (abi md)) \<and> unat (starting_pages (abi md)) < 65536 \<and>
     0 < unat (max_pages (abi md)) \<and> unat (max_pages (abi md)) \<le> 65536 \<and> \<not> use_lock (memory_pool (pools md i))"

definition memory_fresh :: "module_t \<Rightarrow> wasm_memory \<Rightarrow> bool" where
  "memory_fresh md wm \<longleftrightarrow> memory_ok wm \<and> wm_buffer wm = Some (\<lambda>_. 0) \<and> wm_size wm = starting_bytes md"

text \<open>A memory in use: nothing was written beyond its size, and it has not lost pages.\<close>

definition memory_used :: "module_t \<Rightarrow> wasm_memory \<Rightarrow> bool" where
  "memory_used md wm \<longleftrightarrow> memory_ok wm \<and> clean_beyond wm \<and> starting_bytes md \<le> wm_capacity wm"

text \<open>
  The sandboxes of a module on one worker: they take a memory, write to it and give it back. The second
  component of the state holds the memories in use, the third the addresses of all structures
  allocated so far.
\<close>

inductive memory_use :: "nat \<Rightarrow> module_t \<Rightarrow> objects \<times> addr set \<times> addr set \<Rightarrow> objects \<times> addr set \<times> addr set \<Rightarrow> bool"
  for i md where
  use_allocate: "\<lbrakk>new \<notin> A; new \<noteq> pool_head (memory_pool (pools md i));
      module_allocate_linear_memory new True True True garbage i md ob = Inr (Some p, ob')\<rbrakk> \<Longrightarrow>
    memory_use i md (ob, U, A) (ob', insert p U, insert p A)"
| use_write: "\<lbrakk>p \<in> U; memory_step (memories ob p) wm\<rbrakk> \<Longrightarrow>
    memory_use i md (ob, U, A) (ob\<lparr>memories := (memories ob)(p := wm)\<rparr>, U, A)"
| use_free: "\<lbrakk>p \<in> U; module_free_linear_memory i md p ob = Inr ob'\<rbrakk> \<Longrightarrow> memory_use i md (ob, U, A) (ob', U - {p}, A)"

definition pool_invariant :: "nat \<Rightarrow> module_t \<Rightarrow> objects \<times> addr set \<times> addr set \<Rightarrow> bool" where
  "pool_invariant i md = (\<lambda>(ob, U, A). \<exists>xs. ring (links_of ob) (pool_head (memory_pool (pools md i))) xs \<and>
     set xs \<inter> U = {} \<and> set xs \<union> U \<subseteq> A \<and> pool_head (memory_pool (pools md i)) \<notin> A \<and>
     (\<forall>p\<in>set xs. memory_fresh md (memories ob p)) \<and> (\<forall>p\<in>U. memory_used md (memories ob p)))"

lemma starting_bytes_unat:
  assumes "module_ok i md"
  shows "unat (starting_bytes md) = unat (starting_pages (abi md)) * 65536"
    and "ucast (starting_pages (abi md) * of_nat WASM_PAGE_SIZE) = starting_bytes md"
proof -
  have s: "unat (starting_pages (abi md)) < 65536" using assms by (simp add: module_ok_def)
  then show u: "unat (starting_bytes md) = unat (starting_pages (abi md)) * 65536"
    by (simp add: starting_bytes_def WASM_PAGE_SIZE_def unat_word_ariths)
  show "ucast (starting_pages (abi md) * of_nat WASM_PAGE_SIZE) = starting_bytes md"
    by (simp add: word_unat_eq_iff u) (use s in \<open>simp add: WASM_PAGE_SIZE_def unat_word_ariths\<close>)
qed

lemma max_bytes_unat:
  assumes "module_ok i md"
  shows "unat ((ucast (max_pages (abi md)) :: u64) * of_nat WASM_PAGE_SIZE) = unat (max_pages (abi md)) * 65536"
  using assms by (simp add: module_ok_def WASM_PAGE_SIZE_def unat_word_ariths)

text \<open>Taking a memory from the pool or, when it is empty, from the operating system.\<close>

lemma allocate_cases:
  assumes "module_ok i md" "ring (links_of ob) (pool_head (memory_pool (pools md i))) xs"
  shows "\<exists>m'. module_allocate_linear_memory new True True True garbage i md ob =
      Inr (case xs of
             x # _ \<Rightarrow> (Some x, ob\<lparr>links_of := m'\<rparr>)
           | [] \<Rightarrow> (Some new, ob\<lparr>links_of := ps_list_init m' new, memories := (memories ob)(new :=
               \<lparr>wm_size = starting_bytes md, wm_capacity = starting_bytes md,
                wm_max = ucast (max_pages (abi md)) * of_nat WASM_PAGE_SIZE, wm_buffer = Some (\<lambda>_. 0)\<rparr>)\<rparr>)) \<and>
    ring m' (pool_head (memory_pool (pools md i))) (tl xs)"
proof -
  let ?p = "memory_pool (pools md i)" and ?s = "starting_bytes md" and ?m = "ucast (max_pages (abi md)) * of_nat WASM_PAGE_SIZE :: u64"
  have p: "?p = \<lparr>use_lock = False, pool_locked = pool_locked ?p, pool_head = pool_head ?p\<rparr>"
    using assms(1) by (cases ?p) (simp add: module_ok_def)
  obtain m' where m': "pool_remove_nolock (links_of ob) ?p = Inr (case xs of [] \<Rightarrow> None | x # _ \<Rightarrow> Some x, m')"
      "ring m' (pool_head ?p) (tl xs)"
    using unlocked.take_out_total [OF assms(2), of "pool_locked ?p"] p by metis
  have "?s \<le> 2 ^ 32" "?m \<le> 2 ^ 32" "0 < ?s" "0 < ?m" "unat ?s \<le> 2 ^ 32" "unat ?m \<le> 2 ^ 32"
    using starting_bytes_unat(1) [OF assms(1)] max_bytes_unat [OF assms(1)] assms(1)
    by (auto simp: word_le_nat_alt word_less_nat_alt module_ok_def)
  then show ?thesis using m'
    by (intro exI [of _ m']) (auto simp: module_allocate_linear_memory_def Let_def starting_bytes_def [symmetric]
      wasm_memory_alloc_def wasm_memory_init_def WASM_MEMORY_MAX_def split: list.split)
qed

lemma fresh_used: "memory_fresh md wm \<Longrightarrow> memory_used md wm"
  by (auto simp: memory_fresh_def memory_used_def memory_ok_def clean_beyond_def)

lemma new_memory_fresh:
  assumes "module_ok i md"
  shows "memory_fresh md \<lparr>wm_size = starting_bytes md, wm_capacity = starting_bytes md,
    wm_max = ucast (max_pages (abi md)) * of_nat WASM_PAGE_SIZE, wm_buffer = Some (\<lambda>_. 0)\<rparr>"
  using starting_bytes_unat(1) [OF assms] max_bytes_unat [OF assms] assms
  by (simp add: memory_fresh_def memory_ok_def WASM_MEMORY_MAX_def module_ok_def)

lemma step_used: "\<lbrakk>memory_step wm wm'; memory_used md wm\<rbrakk> \<Longrightarrow> memory_used md wm'"
proof -
  assume s: "memory_step wm wm'" and u: "memory_used md wm"
  have "wm_capacity wm \<le> wm_capacity wm'"
    using s by (induction rule: memory_step.induct)
      (auto simp: checked_defs store_checked_def wasm_memory_initialize_region_def with_buffer_def wasm_memory_expand_def Let_def
        split: option.splits if_splits)
  then show ?thesis using step_clean [OF s] u by (auto simp: memory_used_def)
qed

lemma reinit_fresh:
  assumes "module_ok i md" "memory_used md wm"
  shows "\<exists>wm'. wasm_memory_reinit wm (ucast (starting_pages (abi md) * of_nat WASM_PAGE_SIZE)) = Inr wm' \<and> memory_fresh md wm'"
  using assms(2) reinit_clean [of wm] by (auto simp: starting_bytes_unat(2) [OF assms(1)] memory_used_def memory_fresh_def memory_ok_def)

lemma ring_init_new:
  assumes "ring m h xs" "x \<notin> set (h # xs)"
  shows "ring (ps_list_init m x) h xs"
  by (rule ring_other [OF assms(1), of "{x}"]) (use assms(2) in \<open>auto simp: ps_list_init_def ps_list_ll_init_def\<close>)

lemma allocate_invariant:
  assumes "module_ok i md" "pool_invariant i md (ob, U, A)" "new \<notin> A" "new \<noteq> pool_head (memory_pool (pools md i))"
  shows "\<exists>p ob'. module_allocate_linear_memory new True True True garbage i md ob = Inr (Some p, ob') \<and> p \<notin> U \<and>
    memory_fresh md (memories ob' p) \<and> (\<forall>q\<in>U. memories ob' q = memories ob q) \<and> pool_invariant i md (ob', insert p U, insert p A)"
proof -
  let ?h = "pool_head (memory_pool (pools md i))"
  obtain xs where xs: "ring (links_of ob) ?h xs" "set xs \<inter> U = {}" "set xs \<union> U \<subseteq> A" "?h \<notin> A"
    "\<forall>p\<in>set xs. memory_fresh md (memories ob p)" "\<forall>p\<in>U. memory_used md (memories ob p)"
    using assms(2) by (auto simp: pool_invariant_def)
  obtain m' where m': "ring m' ?h (tl xs)" and a: "module_allocate_linear_memory new True True True garbage i md ob =
      Inr (case xs of
             x # _ \<Rightarrow> (Some x, ob\<lparr>links_of := m'\<rparr>)
           | [] \<Rightarrow> (Some new, ob\<lparr>links_of := ps_list_init m' new, memories := (memories ob)(new :=
               \<lparr>wm_size = starting_bytes md, wm_capacity = starting_bytes md,
                wm_max = ucast (max_pages (abi md)) * of_nat WASM_PAGE_SIZE, wm_buffer = Some (\<lambda>_. 0)\<rparr>)\<rparr>))"
    using allocate_cases [OF assms(1) xs(1)] by blast
  show ?thesis
  proof (cases xs)
    case Nil
    then have "ring (ps_list_init m' new) ?h []" using ring_init_new [of m' ?h "[]" new] m' assms(4) by simp
    moreover have "new \<notin> U" using xs(3) assms(3) by blast
    ultimately show ?thesis
      using Nil a xs assms(3,4) new_memory_fresh [OF assms(1)] fresh_used [OF new_memory_fresh [OF assms(1)]]
      by (auto simp: pool_invariant_def)
  next
    case (Cons x ys)
    have "distinct xs" using xs(1) by (simp add: ring_def)
    then show ?thesis
      using Cons a m' xs fresh_used by (auto simp: pool_invariant_def intro!: exI [of _ ys])
  qed
qed

lemma free_invariant:
  assumes "module_ok i md" "pool_invariant i md (ob, U, A)" "p \<in> U"
  shows "\<exists>ob'. module_free_linear_memory i md p ob = Inr ob' \<and> pool_invariant i md (ob', U - {p}, A)"
proof -
  let ?p = "memory_pool (pools md i)"
  obtain xs where xs: "ring (links_of ob) (pool_head ?p) xs" "set xs \<inter> U = {}" "set xs \<union> U \<subseteq> A" "pool_head ?p \<notin> A"
    "\<forall>p\<in>set xs. memory_fresh md (memories ob p)" "\<forall>p\<in>U. memory_used md (memories ob p)"
    using assms(2) by (auto simp: pool_invariant_def)
  obtain wm where wm: "wasm_memory_reinit (memories ob p) (ucast (starting_pages (abi md) * of_nat WASM_PAGE_SIZE)) = Inr wm"
      "memory_fresh md wm"
    using reinit_fresh [OF assms(1)] xs(6) assms(3) by blast
  have r: "ring (ps_list_head_add (links_of ob) (pool_head ?p) p) (pool_head ?p) (p # xs)"
    using xs(1-4) assms(3) by (intro ring_head_add) auto
  have "module_free_linear_memory i md p ob =
      Inr (ob\<lparr>links_of := ps_list_head_add (links_of ob) (pool_head ?p) p, memories := (memories ob)(p := wm)\<rparr>)"
    using wm(1) assms(1) by (simp add: module_free_linear_memory_def pool_add_nolock_def module_ok_def assertc_def)
  then show ?thesis using r wm(2) xs assms(3) by (auto simp: pool_invariant_def intro!: exI [of _ "p # xs"])
qed

lemma write_invariant:
  assumes "pool_invariant i md (ob, U, A)" "p \<in> U" "memory_step (memories ob p) wm"
  shows "pool_invariant i md (ob\<lparr>memories := (memories ob)(p := wm)\<rparr>, U, A)"
proof -
  let ?h = "pool_head (memory_pool (pools md i))"
  obtain xs where xs: "ring (links_of ob) ?h xs" "set xs \<inter> U = {}" "set xs \<union> U \<subseteq> A" "?h \<notin> A"
    "\<forall>p\<in>set xs. memory_fresh md (memories ob p)" "\<forall>p\<in>U. memory_used md (memories ob p)"
    using assms(1) by (auto simp: pool_invariant_def)
  then have "memory_used md wm" using step_used [OF assms(3)] assms(2) by blast
  then show ?thesis using xs assms(2) by (auto simp: pool_invariant_def intro!: exI [of _ xs])
qed

lemma use_invariant:
  assumes "memory_use i md s s'" "module_ok i md" "pool_invariant i md s"
  shows "pool_invariant i md s'"
  using assms(1)
proof cases
  case (use_allocate new A garbage ob p ob' U)
  then show ?thesis using allocate_invariant [OF assms(2), of ob U A new garbage] assms(3) by auto
next
  case (use_write p U ob wm A)
  then show ?thesis using write_invariant assms(3) by blast
next
  case (use_free p U ob ob' A)
  then show ?thesis using free_invariant [OF assms(2), of ob U A p] assms(3) by auto
qed

subsection \<open>Properties\<close>

text \<open>
  Claim C4: every sandbox starts with a fresh memory of its own. Take any history of sandboxes of a module on a
  worker that take a memory, write below its size or grow it, and give it back, starting from an
  empty pool. Then the next allocation succeeds and hands out a memory that no other sandbox is using, that has the starting
  size of the module and in which every byte is zero; the memories in use are not touched, and giving any
  of them back succeeds. This holds for modules that start with fewer than 65536 pages.
\<close>

theorem module_memory_always_fresh:
  assumes "module_ok i md" and "ring (links_of ob0) (pool_head (memory_pool (pools md i))) []"
    and "(memory_use i md)\<^sup>*\<^sup>* (ob0, {}, {}) (ob, U, A)" and "new \<notin> A" and "new \<noteq> pool_head (memory_pool (pools md i))"
  shows "\<exists>p ob'. module_allocate_linear_memory new True True True garbage i md ob = Inr (Some p, ob') \<and> p \<notin> U \<and>
      wm_size (memories ob' p) = starting_bytes md \<and> wm_buffer (memories ob' p) = Some (\<lambda>_. 0) \<and>
      (\<forall>q\<in>U. memories ob' q = memories ob q) \<and> (\<forall>q\<in>insert p U. \<exists>ob''. module_free_linear_memory i md q ob' = Inr ob'')"
proof -
  have "pool_invariant i md (ob, U, A)" using assms(3)
  proof (induction rule: rtranclp_induct)
    case base
    then show ?case using assms(2) by (simp add: pool_invariant_def)
  next
    case (step s s')
    then show ?case using use_invariant assms(1) by blast
  qed
  from allocate_invariant [OF assms(1) this assms(4,5)] free_invariant [OF assms(1)] show ?thesis
    unfolding memory_fresh_def by meson
qed

theorem module_memory_always_fresh_witness:
  "\<exists>md ob0 p q ob1 ob2. module_allocate_linear_memory 1 True True True sample_memory 0 md ob0 = Inr (Some p, ob1) \<and>
     module_allocate_linear_memory (p + 101) True True True sample_memory 0 md ob1 = Inr (Some q, ob2) \<and> q \<noteq> p \<and>
     wm_size (memories ob2 q) = 65536 \<and> wm_buffer (memories ob2 q) = Some (\<lambda>_. 0)"
proof -
  let ?pool = "\<lparr>use_lock = False, pool_locked = False, pool_head = 100\<rparr>"
  let ?md = "zero_module\<lparr>abi := \<lparr>starting_pages = 1, max_pages = 2, globals_len = 0\<rparr>,
      pools := (\<lambda>_. \<lparr>memory_pool = ?pool, stack_pool = ?pool\<rparr>)\<rparr>"
  let ?ob = "\<lparr>links_of = ps_list_head_init \<lparr>nx = id, pv = id\<rparr> 100, memories = (\<lambda>_. sample_memory), stacks = (\<lambda>_. zero_stack)\<rparr>"
  have ok: "module_ok 0 ?md" by (simp add: module_ok_def)
  have r: "ring (links_of ?ob) (pool_head (memory_pool (pools ?md 0))) []" by (simp add: ring_init)
  obtain p ob1 where p: "module_allocate_linear_memory 1 True True True sample_memory 0 ?md ?ob = Inr (Some p, ob1)"
    using module_memory_always_fresh [OF ok r rtranclp.rtrancl_refl, of 1 sample_memory] by auto
  then have "memory_use 0 ?md (?ob, {}, {}) (ob1, {p}, {p})"
    using use_allocate [of 1 "{}" ?md 0 sample_memory "?ob" p ob1 "{}"] by simp
  then have s: "(memory_use 0 ?md)\<^sup>*\<^sup>* (?ob, {}, {}) (ob1, {p}, {p})" by blast
  obtain q ob2 where "module_allocate_linear_memory (p + 101) True True True sample_memory 0 ?md ob1 = Inr (Some q, ob2)" "q \<noteq> p"
      "wm_size (memories ob2 q) = starting_bytes ?md" "wm_buffer (memories ob2 q) = Some (\<lambda>_. 0)"
    using module_memory_always_fresh [OF ok r s, of "p + 101" sample_memory] by auto
  moreover have "starting_bytes ?md = 65536" by (simp add: starting_bytes_def WASM_PAGE_SIZE_def)
  ultimately show ?thesis using p by metis
qed

text \<open>
  Taking a pool down ends. On every well-formed pool the loop that removes and frees the objects while
  it walks over them terminates, frees exactly the objects of the pool, each once and in
  order, and leaves the pool empty.
\<close>

theorem pool_deinit_terminates:
  assumes "ring m (pool_head p) xs"
  shows "\<exists>m'. pool_deinit m p = Some (m', xs) \<and> ring m' (pool_head p) [] \<and> pool_is_empty m' p"
proof (cases xs)
  case Nil
  then show ?thesis using assms ring_empty_iff [OF assms] by (simp add: pool_deinit_def pool_is_empty_def)
next
  case (Cons x ys)
  then obtain m' where "pool_deinit_loop m (pool_head p) x (ps_list_next m x) [] = Some (m', xs)" "ring m' (pool_head p) []"
    using pool_deinit_loop_ends [of m "pool_head p" x ys "[]"] assms by auto
  then show ?thesis
    using Cons ring_first [OF assms] ring_empty_iff [OF assms] ring_empty_iff [of m' "pool_head p" "[]"]
    by (simp add: pool_deinit_def pool_is_empty_def)
qed

end
