(* ===== verification/Wasi_Serdes.thy ===== *)
theory Wasi_Serdes
  imports Byte_Codec
begin

text \<open>
  The serialisation of WASI data in linear memory, runtime/include/wasi_serdes.h. A pointer into linear memory
  is the byte array it points into with an offset; offsets are natural numbers, since they are
  64-bit sums of 32-bit offsets in the source. The alias types of the header are written as the unsigned
  integers they stand for, and each field list of its table of structures is one record with a
  reading and a writing function.
\<close>

unbundle bit_operations_syntax

definition wasi_serdes_write_uint8_t :: "byte_array \<Rightarrow> nat \<Rightarrow> u8 \<Rightarrow> byte_array" where
  "wasi_serdes_write_uint8_t b offset x = b(offset := x)"

definition wasi_serdes_write_uint16_t :: "byte_array \<Rightarrow> nat \<Rightarrow> u16 \<Rightarrow> byte_array" where
  "wasi_serdes_write_uint16_t b offset x =
     wasi_serdes_write_uint8_t (wasi_serdes_write_uint8_t b offset (ucast x)) (offset + 1) (ucast (drop_bit 8 x))"

definition wasi_serdes_write_uint32_t :: "byte_array \<Rightarrow> nat \<Rightarrow> u32 \<Rightarrow> byte_array" where
  "wasi_serdes_write_uint32_t b offset x =
     wasi_serdes_write_uint16_t (wasi_serdes_write_uint16_t b offset (ucast x)) (offset + 2) (ucast (drop_bit 16 x))"

definition wasi_serdes_write_uint64_t :: "byte_array \<Rightarrow> nat \<Rightarrow> u64 \<Rightarrow> byte_array" where
  "wasi_serdes_write_uint64_t b offset x =
     wasi_serdes_write_uint32_t (wasi_serdes_write_uint32_t b offset (ucast x)) (offset + 4) (ucast (drop_bit 32 x))"

definition wasi_serdes_read_uint8_t :: "byte_array \<Rightarrow> nat \<Rightarrow> u8" where
  "wasi_serdes_read_uint8_t b offset = b offset"

definition wasi_serdes_read_uint16_t :: "byte_array \<Rightarrow> nat \<Rightarrow> u16" where
  "wasi_serdes_read_uint16_t b offset =
     ucast (wasi_serdes_read_uint8_t b offset) OR push_bit 8 (ucast (wasi_serdes_read_uint8_t b (offset + 1)))"

definition wasi_serdes_read_uint32_t :: "byte_array \<Rightarrow> nat \<Rightarrow> u32" where
  "wasi_serdes_read_uint32_t b offset =
     ucast (wasi_serdes_read_uint16_t b offset) OR push_bit 16 (ucast (wasi_serdes_read_uint16_t b (offset + 2)))"

definition wasi_serdes_read_uint64_t :: "byte_array \<Rightarrow> nat \<Rightarrow> u64" where
  "wasi_serdes_read_uint64_t b offset =
     ucast (wasi_serdes_read_uint32_t b offset) OR push_bit 32 (ucast (wasi_serdes_read_uint32_t b (offset + 4)))"

subsection \<open>Structures\<close>

record dirent_t =
  d_next :: u64
  d_ino :: u64
  d_namlen :: u32
  d_type :: u8

definition wasi_serdes_write_dirent_t :: "byte_array \<Rightarrow> nat \<Rightarrow> dirent_t \<Rightarrow> byte_array" where
  "wasi_serdes_write_dirent_t b offset v =
     (let b = wasi_serdes_write_uint64_t b (offset) (d_next v);
          b = wasi_serdes_write_uint64_t b (offset + 8) (d_ino v);
          b = wasi_serdes_write_uint32_t b (offset + 16) (d_namlen v);
          b = wasi_serdes_write_uint8_t b (offset + 20) (d_type v)
      in b)"

definition wasi_serdes_read_dirent_t :: "byte_array \<Rightarrow> nat \<Rightarrow> dirent_t" where
  "wasi_serdes_read_dirent_t b offset =
     \<lparr>d_next = wasi_serdes_read_uint64_t b (offset),
      d_ino = wasi_serdes_read_uint64_t b (offset + 8),
      d_namlen = wasi_serdes_read_uint32_t b (offset + 16),
      d_type = wasi_serdes_read_uint8_t b (offset + 20)\<rparr>"

record fdstat_t =
  fs_filetype :: u8
  fs_flags :: u16
  fs_rights_base :: u64
  fs_rights_inheriting :: u64

definition wasi_serdes_write_fdstat_t :: "byte_array \<Rightarrow> nat \<Rightarrow> fdstat_t \<Rightarrow> byte_array" where
  "wasi_serdes_write_fdstat_t b offset v =
     (let b = wasi_serdes_write_uint8_t b (offset) (fs_filetype v);
          b = wasi_serdes_write_uint16_t b (offset + 2) (fs_flags v);
          b = wasi_serdes_write_uint64_t b (offset + 8) (fs_rights_base v);
          b = wasi_serdes_write_uint64_t b (offset + 16) (fs_rights_inheriting v)
      in b)"

definition wasi_serdes_read_fdstat_t :: "byte_array \<Rightarrow> nat \<Rightarrow> fdstat_t" where
  "wasi_serdes_read_fdstat_t b offset =
     \<lparr>fs_filetype = wasi_serdes_read_uint8_t b (offset),
      fs_flags = wasi_serdes_read_uint16_t b (offset + 2),
      fs_rights_base = wasi_serdes_read_uint64_t b (offset + 8),
      fs_rights_inheriting = wasi_serdes_read_uint64_t b (offset + 16)\<rparr>"

record filestat_t =
  fst_dev :: u64
  fst_ino :: u64
  fst_filetype :: u8
  fst_nlink :: u64
  fst_size :: u64
  fst_atim :: u64
  fst_mtim :: u64
  fst_ctim :: u64

definition wasi_serdes_write_filestat_t :: "byte_array \<Rightarrow> nat \<Rightarrow> filestat_t \<Rightarrow> byte_array" where
  "wasi_serdes_write_filestat_t b offset v =
     (let b = wasi_serdes_write_uint64_t b (offset) (fst_dev v);
          b = wasi_serdes_write_uint64_t b (offset + 8) (fst_ino v);
          b = wasi_serdes_write_uint8_t b (offset + 16) (fst_filetype v);
          b = wasi_serdes_write_uint64_t b (offset + 24) (fst_nlink v);
          b = wasi_serdes_write_uint64_t b (offset + 32) (fst_size v);
          b = wasi_serdes_write_uint64_t b (offset + 40) (fst_atim v);
          b = wasi_serdes_write_uint64_t b (offset + 48) (fst_mtim v);
          b = wasi_serdes_write_uint64_t b (offset + 56) (fst_ctim v)
      in b)"

definition wasi_serdes_read_filestat_t :: "byte_array \<Rightarrow> nat \<Rightarrow> filestat_t" where
  "wasi_serdes_read_filestat_t b offset =
     \<lparr>fst_dev = wasi_serdes_read_uint64_t b (offset),
      fst_ino = wasi_serdes_read_uint64_t b (offset + 8),
      fst_filetype = wasi_serdes_read_uint8_t b (offset + 16),
      fst_nlink = wasi_serdes_read_uint64_t b (offset + 24),
      fst_size = wasi_serdes_read_uint64_t b (offset + 32),
      fst_atim = wasi_serdes_read_uint64_t b (offset + 40),
      fst_mtim = wasi_serdes_read_uint64_t b (offset + 48),
      fst_ctim = wasi_serdes_read_uint64_t b (offset + 56)\<rparr>"

record prestat_t =
  prestat_tag :: u8
  pr_name_len :: u32

definition wasi_serdes_write_prestat_t :: "byte_array \<Rightarrow> nat \<Rightarrow> prestat_t \<Rightarrow> byte_array" where
  "wasi_serdes_write_prestat_t b offset v =
     (let b = wasi_serdes_write_uint8_t b (offset) (prestat_tag v);
          b = wasi_serdes_write_uint32_t b (offset + 4) (pr_name_len v)
      in b)"

definition wasi_serdes_read_prestat_t :: "byte_array \<Rightarrow> nat \<Rightarrow> prestat_t" where
  "wasi_serdes_read_prestat_t b offset =
     \<lparr>prestat_tag = wasi_serdes_read_uint8_t b (offset),
      pr_name_len = wasi_serdes_read_uint32_t b (offset + 4)\<rparr>"

definition WASI_EVENTTYPE_CLOCK :: u8 where "WASI_EVENTTYPE_CLOCK = 0"
definition WASI_EVENTTYPE_FD_READ :: u8 where "WASI_EVENTTYPE_FD_READ = 1"
definition WASI_EVENTTYPE_FD_WRITE :: u8 where "WASI_EVENTTYPE_FD_WRITE = 2"

record event_t =
  ev_userdata :: u64
  ev_error :: u16
  ev_type :: u8
  ev_nbytes :: u64
  ev_flags :: u16

definition wasi_serdes_write_event_t :: "byte_array \<Rightarrow> nat \<Rightarrow> event_t \<Rightarrow> byte_array" where
  "wasi_serdes_write_event_t b offset v =
     (let b = wasi_serdes_write_uint64_t b offset (ev_userdata v);
          b = wasi_serdes_write_uint16_t b (offset + 8) (ev_error v);
          b = wasi_serdes_write_uint8_t b (offset + 10) (ev_type v)
      in if ev_type v = WASI_EVENTTYPE_FD_READ \<or> ev_type v = WASI_EVENTTYPE_FD_WRITE
         then wasi_serdes_write_uint16_t (wasi_serdes_write_uint64_t b (offset + 16) (ev_nbytes v)) (offset + 24) (ev_flags v)
         else b)"

text \<open>Reading fills in the structure \<open>v\<close> that is passed; fields that are not read keep their value.\<close>

definition wasi_serdes_read_event_t :: "byte_array \<Rightarrow> nat \<Rightarrow> event_t \<Rightarrow> event_t" where
  "wasi_serdes_read_event_t b offset v =
     (let v = v\<lparr>ev_userdata := wasi_serdes_read_uint64_t b offset,
                ev_error := wasi_serdes_read_uint16_t b (offset + 8),
                ev_type := wasi_serdes_read_uint8_t b (offset + 10)\<rparr>
      in if ev_type v = WASI_EVENTTYPE_FD_READ \<or> ev_type v = WASI_EVENTTYPE_FD_WRITE
         then v\<lparr>ev_nbytes := wasi_serdes_read_uint64_t b (offset + 16), ev_flags := wasi_serdes_read_uint16_t b (offset + 24)\<rparr>
         else v)"

text \<open>
  The members \<open>clock.id\<close>, \<open>fd_read.file_descriptor\<close> and \<open>fd_write.file_descriptor\<close> of the union in a subscription
  are 32-bit words at the same place: \<open>sub_word\<close>.
\<close>

record subscription_t =
  sub_userdata :: u64
  sub_tag :: u8
  sub_word :: u32
  sub_timeout :: u64
  sub_precision :: u64
  sub_flags :: u16

definition wasi_serdes_write_subscription_t :: "byte_array \<Rightarrow> nat \<Rightarrow> subscription_t \<Rightarrow> byte_array" where
  "wasi_serdes_write_subscription_t b offset v =
     (let b = wasi_serdes_write_uint64_t b offset (sub_userdata v);
          b = wasi_serdes_write_uint8_t b (offset + 8) (sub_tag v)
      in if sub_tag v = WASI_EVENTTYPE_CLOCK then
           (let b = wasi_serdes_write_uint32_t b (offset + 16) (sub_word v);
                b = wasi_serdes_write_uint64_t b (offset + 24) (sub_timeout v);
                b = wasi_serdes_write_uint64_t b (offset + 32) (sub_precision v)
            in wasi_serdes_write_uint16_t b (offset + 40) (sub_flags v))
         else if sub_tag v = WASI_EVENTTYPE_FD_READ then wasi_serdes_write_uint32_t b (offset + 16) (sub_word v)
         else if sub_tag v = WASI_EVENTTYPE_FD_WRITE then wasi_serdes_write_uint32_t b (offset + 16) (sub_word v)
         else b)"

definition wasi_serdes_read_subscription_t :: "byte_array \<Rightarrow> nat \<Rightarrow> subscription_t \<Rightarrow> subscription_t" where
  "wasi_serdes_read_subscription_t b offset v =
     (let v = v\<lparr>sub_userdata := wasi_serdes_read_uint64_t b offset, sub_tag := wasi_serdes_read_uint8_t b (offset + 8)\<rparr>
      in if sub_tag v = WASI_EVENTTYPE_CLOCK then
           v\<lparr>sub_word := wasi_serdes_read_uint32_t b (offset + 16), sub_timeout := wasi_serdes_read_uint64_t b (offset + 24),
             sub_precision := wasi_serdes_read_uint64_t b (offset + 32), sub_flags := wasi_serdes_read_uint16_t b (offset + 40)\<rparr>
         else if sub_tag v = WASI_EVENTTYPE_FD_READ then v\<lparr>sub_word := wasi_serdes_read_uint32_t b (offset + 16)\<rparr>
         else if sub_tag v = WASI_EVENTTYPE_FD_WRITE then v\<lparr>sub_word := wasi_serdes_read_uint32_t b (offset + 16)\<rparr>
         else v)"

subsection \<open>Bounds and vectors\<close>

definition WASI_ERRNO_SUCCESS :: u16 where "WASI_ERRNO_SUCCESS = 0"
definition WASI_ERRNO_OVERFLOW :: u16 where "WASI_ERRNO_OVERFLOW = 61"

definition wasi_serdes_check_bounds :: "u64 \<Rightarrow> u64 \<Rightarrow> u64 \<Rightarrow> bool" where
  "wasi_serdes_check_bounds offset end_of sz \<longleftrightarrow> end_of > offset \<and> sz \<le> end_of - offset"

definition wasi_serdes_check_array_bounds :: "u64 \<Rightarrow> u64 \<Rightarrow> u64 \<Rightarrow> u64 \<Rightarrow> bool res" where
  "wasi_serdes_check_array_bounds offset end_of sz cnt =
     (if \<not> end_of > offset then Inr False
      else if sz = 0 then Inl Division_By_Zero
      else Inr ((cnt * sz) div sz = cnt \<and> cnt * sz \<le> end_of - offset))"

text \<open>The host pointer in an I/O vector is an offset from the start of linear memory, or not set.\<close>

record iovec_t =
  iov_buf :: "nat option"
  iov_buf_len :: u32

definition zero_iovec :: iovec_t where
  "zero_iovec = \<lparr>iov_buf = None, iov_buf_len = 0\<rparr>"

definition wasi_serdes_read_iovec_t :: "byte_array \<Rightarrow> u64 \<Rightarrow> nat \<Rightarrow> iovec_t \<Rightarrow> u16 \<times> iovec_t" where
  "wasi_serdes_read_iovec_t b end_of offset v =
     (let buf_ptr = wasi_serdes_read_uint32_t b offset;
          v = v\<lparr>iov_buf_len := wasi_serdes_read_uint32_t b (offset + 4)\<rparr>
      in if \<not> wasi_serdes_check_bounds (ucast buf_ptr) end_of (ucast (iov_buf_len v)) then (WASI_ERRNO_OVERFLOW, v)
         else (WASI_ERRNO_SUCCESS, v\<lparr>iov_buf := Some (unat buf_ptr)\<rparr>))"

definition wasi_serdes_read_ciovec_t :: "byte_array \<Rightarrow> u64 \<Rightarrow> nat \<Rightarrow> iovec_t \<Rightarrow> u16 \<times> iovec_t" where
  "wasi_serdes_read_ciovec_t b end_of offset v =
     (let buf_ptr = wasi_serdes_read_uint32_t b offset;
          v = v\<lparr>iov_buf_len := wasi_serdes_read_uint32_t b (offset + 4)\<rparr>
      in if \<not> wasi_serdes_check_bounds (ucast buf_ptr) end_of (ucast (iov_buf_len v)) then (WASI_ERRNO_OVERFLOW, v)
         else (WASI_ERRNO_SUCCESS, v\<lparr>iov_buf := Some (unat buf_ptr)\<rparr>))"

definition WASI_SERDES_SIZE_iovec_t :: nat where "WASI_SERDES_SIZE_iovec_t = 8"

text \<open>The loops over an array of vectors: the last argument is the part of the array that is still to be read.\<close>

fun wasi_serdes_readv_iovec_t :: "byte_array \<Rightarrow> u64 \<Rightarrow> nat \<Rightarrow> iovec_t list \<Rightarrow> u16 \<times> iovec_t list" where
  "wasi_serdes_readv_iovec_t b end_of offset [] = (WASI_ERRNO_SUCCESS, [])"
| "wasi_serdes_readv_iovec_t b end_of offset (v # vs) =
     (case wasi_serdes_read_iovec_t b end_of offset v of
        (err, v') \<Rightarrow> if err \<noteq> WASI_ERRNO_SUCCESS then (err, v' # vs)
          else case wasi_serdes_readv_iovec_t b end_of (offset + WASI_SERDES_SIZE_iovec_t) vs of (e, vs') \<Rightarrow> (e, v' # vs'))"

fun wasi_serdes_readv_ciovec_t :: "byte_array \<Rightarrow> u64 \<Rightarrow> nat \<Rightarrow> iovec_t list \<Rightarrow> u16 \<times> iovec_t list" where
  "wasi_serdes_readv_ciovec_t b end_of offset [] = (WASI_ERRNO_SUCCESS, [])"
| "wasi_serdes_readv_ciovec_t b end_of offset (v # vs) =
     (case wasi_serdes_read_ciovec_t b end_of offset v of
        (err, v') \<Rightarrow> if err \<noteq> WASI_ERRNO_SUCCESS then (err, v' # vs)
          else case wasi_serdes_readv_ciovec_t b end_of (offset + WASI_SERDES_SIZE_iovec_t) vs of (e, vs') \<Rightarrow> (e, v' # vs'))"

lemmas struct_defs = wasi_serdes_write_dirent_t_def wasi_serdes_read_dirent_t_def
  wasi_serdes_write_fdstat_t_def wasi_serdes_read_fdstat_t_def
  wasi_serdes_write_filestat_t_def wasi_serdes_read_filestat_t_def
  wasi_serdes_write_prestat_t_def wasi_serdes_read_prestat_t_def
  wasi_serdes_write_event_t_def wasi_serdes_read_event_t_def
  wasi_serdes_write_subscription_t_def wasi_serdes_read_subscription_t_def

subsection \<open>Integers are little-endian\<close>

lemma write_range_append: "write_range (write_range b a xs) (a + length xs) ys = write_range b a (xs @ ys)"
  by (auto simp: write_range_def fun_eq_iff nth_append)

lemma read_range_append: "read_range b a (m + n) = read_range b a m @ read_range b (a + m) n"
  by (auto simp: read_range_def intro!: nth_equalityI simp: nth_append)

lemma le_bytes_append:
  assumes "LENGTH('a::len) = 8 * m" "LENGTH('a) \<le> LENGTH('b::len)"
  shows "le_bytes (m + m) (x :: 'b word) = le_bytes m (ucast x :: 'a word) @ le_bytes m (ucast (drop_bit (8 * m) x) :: 'a word)"
proof (rule nth_equalityI)
  fix i assume "i < length (le_bytes (m + m) x)"
  then have i: "i < m + m" by simp
  show "le_bytes (m + m) x ! i = (le_bytes m (ucast x :: 'a word) @ le_bytes m (ucast (drop_bit (8 * m) x) :: 'a word)) ! i"
  proof (rule bit_word_eqI)
    fix j assume "j < LENGTH(8)"
    then have j: "j < 8" by simp
    show "bit (le_bytes (m + m) x ! i) j =
        bit ((le_bytes m (ucast x :: 'a word) @ le_bytes m (ucast (drop_bit (8 * m) x) :: 'a word)) ! i) j"
    proof (cases "i < m")
      case True
      then have "8 * i + j < 8 * m" using j by simp
      then show ?thesis using True i j assms by (simp add: nth_append le_bytes_def bit_simps)
    next
      case False
      then obtain k where k: "i = m + k" "k < m" using i by (metis add_less_cancel_left le_Suc_ex not_less)
      then have "8 * k + j < 8 * m" using j by simp
      then show ?thesis using k j assms by (simp add: nth_append le_bytes_def bit_simps distrib_left add.assoc)
    qed
  qed
qed simp

lemma write_uint8: "wasi_serdes_write_uint8_t b a x = write_range b a (le_bytes 1 x)"
  by (auto simp: wasi_serdes_write_uint8_t_def write_range_def le_bytes_def fun_eq_iff)

lemma write_uint16: "wasi_serdes_write_uint16_t b a x = write_range b a (le_bytes 2 x)"
  using write_range_append [of b a "le_bytes 1 (ucast x :: u8)" "le_bytes 1 (ucast (drop_bit 8 x) :: u8)"]
    le_bytes_append [where 'a = 8 and m = 1 and x = x]
  by (simp add: wasi_serdes_write_uint16_t_def write_uint8 numeral_2_eq_2)

lemma write_uint32: "wasi_serdes_write_uint32_t b a x = write_range b a (le_bytes 4 x)"
  using write_range_append [of b a "le_bytes 2 (ucast x :: u16)" "le_bytes 2 (ucast (drop_bit 16 x) :: u16)"]
    le_bytes_append [where 'a = 16 and m = 2 and x = x]
  by (simp add: wasi_serdes_write_uint32_t_def write_uint16)

lemma write_uint64: "wasi_serdes_write_uint64_t b a x = write_range b a (le_bytes 8 x)"
  using write_range_append [of b a "le_bytes 4 (ucast x :: u32)" "le_bytes 4 (ucast (drop_bit 32 x) :: u32)"]
    le_bytes_append [where 'a = 32 and m = 4 and x = x]
  by (simp add: wasi_serdes_write_uint64_t_def write_uint32)

lemma read_uint8: "wasi_serdes_read_uint8_t b a = of_le (read_range b a 1)"
  by (simp add: wasi_serdes_read_uint8_t_def read_range_def)

lemma of_le_append:
  assumes "LENGTH('a::len) = 8 * length xs"
  shows "of_le (xs @ ys) = (ucast (of_le xs :: 'a word) OR push_bit (8 * length xs) (of_le ys) :: 'b::len word)"
proof (rule bit_word_eqI)
  fix i assume i: "i < LENGTH('b)"
  show "bit (of_le (xs @ ys) :: 'b word) i = bit (ucast (of_le xs :: 'a word) OR push_bit (8 * length xs) (of_le ys) :: 'b word) i"
  proof (cases "i < 8 * length xs")
    case True
    then have "i div 8 < length xs" by (simp add: less_mult_imp_div_less mult.commute)
    then show ?thesis using True i assms by (simp add: bit_of_le bit_simps nth_append)
  next
    case False
    then obtain k where k: "i = 8 * length xs + k" by (metis le_Suc_ex not_less)
    then show ?thesis using i assms by (auto simp: bit_of_le bit_simps nth_append)
  qed
qed

lemma ucast_of_le:
  assumes "LENGTH('a::len) = 8 * length xs"
  shows "ucast (of_le xs :: 'a word) = (of_le xs :: 'b::len word)"
  using of_le_append [OF assms, of "[]", where 'b = 'b] by simp

lemma read_uint16: "wasi_serdes_read_uint16_t b a = of_le (read_range b a 2)"
  using of_le_append [where 'a = 8 and 'b = 16 and xs = "read_range b a 1" and ys = "read_range b (a + 1) 1"]
    read_range_append [of b a 1 1]
  by (simp add: wasi_serdes_read_uint16_t_def read_uint8 numeral_2_eq_2 read_range_def)

lemma read_uint32: "wasi_serdes_read_uint32_t b a = of_le (read_range b a 4)"
  using of_le_append [where 'a = 16 and 'b = 32 and xs = "read_range b a 2" and ys = "read_range b (a + 2) 2"]
    read_range_append [of b a 2 2]
  by (simp add: wasi_serdes_read_uint32_t_def read_uint16 ucast_of_le)

lemma read_uint64: "wasi_serdes_read_uint64_t b a = of_le (read_range b a 8)"
  using of_le_append [where 'a = 32 and 'b = 64 and xs = "read_range b a 4" and ys = "read_range b (a + 4) 4"]
    read_range_append [of b a 4 4]
  by (simp add: wasi_serdes_read_uint64_t_def read_uint32 ucast_of_le)

lemmas codec = write_uint8 write_uint16 write_uint32 write_uint64 read_uint8 read_uint16 read_uint32 read_uint64

lemma read_iovec_eq: "wasi_serdes_read_ciovec_t = wasi_serdes_read_iovec_t"
  by (simp add: wasi_serdes_read_ciovec_t_def wasi_serdes_read_iovec_t_def fun_eq_iff)

lemma readv_iovec_eq: "wasi_serdes_readv_ciovec_t b n a vs = wasi_serdes_readv_iovec_t b n a vs"
  by (induction vs arbitrary: a) (auto simp: read_iovec_eq split: prod.splits)

lemma check_bounds_iff:
  "wasi_serdes_check_bounds a n k \<longleftrightarrow> unat a < unat n \<and> unat a + unat k \<le> unat n"
proof (cases "a < n")
  case True
  then have "unat (n - a) = unat n - unat a" by (simp add: unat_sub word_less_nat_alt word_le_nat_alt)
  then show ?thesis using True by (auto simp: wasi_serdes_check_bounds_def word_less_nat_alt word_le_nat_alt)
qed (simp add: wasi_serdes_check_bounds_def word_less_nat_alt)

lemma mult_no_overflow:
  fixes c k :: u64
  assumes "k \<noteq> 0"
  shows "(c * k) div k = c \<longleftrightarrow> unat c * unat k < 2 ^ 64"
proof
  assume "(c * k) div k = c"
  then have "unat c = unat (c * k) div unat k" by (metis unat_div_distrib)
  then have "unat c * unat k \<le> unat (c * k)" by (metis div_times_less_eq_dividend)
  also have "unat (c * k) < 2 ^ 64" using unsigned_less [of "c * k", where 'a = nat] by simp
  finally show "unat c * unat k < 2 ^ 64" .
next
  assume "unat c * unat k < 2 ^ 64"
  then have m: "unat (c * k) = unat c * unat k" by (simp add: unat_word_ariths)
  have "unat k \<noteq> 0" using assms by (metis word_unat_eq_iff unsigned_0)
  then have "unat ((c * k) div k) = unat c" by (metis m unat_div_distrib nonzero_mult_div_cancel_right)
  then show "(c * k) div k = c" by (metis word_unat_eq_iff)
qed

lemma check_array_bounds_iff:
  assumes "k \<noteq> 0"
  shows "wasi_serdes_check_array_bounds a n k c = Inr (unat a < unat n \<and> unat a + unat c * unat k \<le> unat n)"
proof (cases "a < n")
  case True
  have n: "unat n < 2 ^ 64" using unsigned_less [of n, where 'a = nat] by simp
  have s: "unat (n - a) = unat n - unat a" "unat a < unat n"
    using True by (simp_all add: unat_sub word_less_nat_alt word_le_nat_alt)
  show ?thesis
  proof (cases "unat c * unat k < 2 ^ 64")
    case True
    then have "unat (c * k) = unat c * unat k" by (simp add: unat_word_ariths)
    then have "c * k \<le> n - a \<longleftrightarrow> unat a + unat c * unat k \<le> unat n" using s by (simp add: word_le_nat_alt) linarith
    then show ?thesis using \<open>a < n\<close> True mult_no_overflow [OF assms, of c] assms s(2) by (simp add: wasi_serdes_check_array_bounds_def)
  next
    case False
    then have "\<not> unat a + unat c * unat k \<le> unat n" using n by linarith
    then show ?thesis using \<open>a < n\<close> False mult_no_overflow [OF assms, of c] assms by (simp add: wasi_serdes_check_array_bounds_def)
  qed
qed (auto simp: wasi_serdes_check_array_bounds_def word_less_nat_alt)

text \<open>The vector stored at index \<open>i\<close> of an array in linear memory.\<close>

definition iovec_at :: "byte_array \<Rightarrow> nat \<Rightarrow> nat \<Rightarrow> u32 \<times> u32" where
  "iovec_at b a i = (of_le (read_range b (a + 8 * i) 4), of_le (read_range b (a + 8 * i + 4) 4))"

definition iovec_inside :: "u64 \<Rightarrow> u32 \<times> u32 \<Rightarrow> bool" where
  "iovec_inside n = (\<lambda>(p, l). unat p < unat n \<and> unat p + unat l \<le> unat n)"

definition host_iovec :: "u32 \<times> u32 \<Rightarrow> iovec_t" where
  "host_iovec = (\<lambda>(p, l). \<lparr>iov_buf = Some (unat p), iov_buf_len = l\<rparr>)"

lemma read_iovec_cases:
  "wasi_serdes_read_iovec_t b n a v =
     (if iovec_inside n (iovec_at b a 0) then (WASI_ERRNO_SUCCESS, host_iovec (iovec_at b a 0))
      else (WASI_ERRNO_OVERFLOW, v\<lparr>iov_buf_len := snd (iovec_at b a 0)\<rparr>))"
  by (simp add: wasi_serdes_read_iovec_t_def check_bounds_iff iovec_inside_def iovec_at_def host_iovec_def read_uint32 Let_def)

lemma iovec_at_shift: "iovec_at b (a + 8) i = iovec_at b a (Suc i)"
  by (simp add: iovec_at_def algebra_simps)

lemma readv_iovec_cases:
  "fst (wasi_serdes_readv_iovec_t b n a vs) =
      (if \<forall>i < length vs. iovec_inside n (iovec_at b a i) then WASI_ERRNO_SUCCESS else WASI_ERRNO_OVERFLOW) \<and>
   (fst (wasi_serdes_readv_iovec_t b n a vs) = WASI_ERRNO_SUCCESS \<longrightarrow>
      snd (wasi_serdes_readv_iovec_t b n a vs) = map (\<lambda>i. host_iovec (iovec_at b a i)) [0..<length vs])"
proof (induction vs arbitrary: a)
  case Nil
  then show ?case by simp
next
  case (Cons v vs)
  have e: "WASI_ERRNO_OVERFLOW \<noteq> WASI_ERRNO_SUCCESS" by (simp add: WASI_ERRNO_OVERFLOW_def WASI_ERRNO_SUCCESS_def)
  have m: "map (\<lambda>i. host_iovec (iovec_at b a i)) [0..<Suc (length vs)] =
      host_iovec (iovec_at b a 0) # map (\<lambda>i. host_iovec (iovec_at b (a + 8) i)) [0..<length vs]"
    by (simp add: iovec_at_shift map_upt_Suc del: upt_Suc)
  show ?case
    using Cons.IH [of "a + 8"] e m
    by (auto simp: read_iovec_cases WASI_SERDES_SIZE_iovec_t_def iovec_at_shift All_less_Suc2 split: prod.splits simp del: upt_Suc)
qed

subsection \<open>Properties\<close>

lemmas round_trip_simps = codec of_le_bytes read_write_disjoint Let_def

text \<open>
  What the runtime writes into linear memory for a WASI structure it reads back. For each of the six
  structures, at every offset, reading after writing gives the structure that was written; for the two that hold
  a union, the fields of the variants that the tag does not select keep the value they had before.
\<close>

theorem wasi_structures_round_trip:
  "wasi_serdes_read_dirent_t (wasi_serdes_write_dirent_t b a de) a = de \<and>
   wasi_serdes_read_fdstat_t (wasi_serdes_write_fdstat_t b a fs) a = fs \<and>
   wasi_serdes_read_filestat_t (wasi_serdes_write_filestat_t b a st) a = st \<and>
   wasi_serdes_read_prestat_t (wasi_serdes_write_prestat_t b a ps) a = ps \<and>
   wasi_serdes_read_event_t (wasi_serdes_write_event_t b a ev) a ev0 =
     (if ev_type ev = WASI_EVENTTYPE_FD_READ \<or> ev_type ev = WASI_EVENTTYPE_FD_WRITE then ev
      else ev\<lparr>ev_nbytes := ev_nbytes ev0, ev_flags := ev_flags ev0\<rparr>) \<and>
   wasi_serdes_read_subscription_t (wasi_serdes_write_subscription_t b a su) a su0 =
     (if sub_tag su = WASI_EVENTTYPE_CLOCK then su
      else su\<lparr>sub_timeout := sub_timeout su0, sub_precision := sub_precision su0, sub_flags := sub_flags su0,
              sub_word := (if sub_tag su = WASI_EVENTTYPE_FD_READ \<or> sub_tag su = WASI_EVENTTYPE_FD_WRITE
                           then sub_word su else sub_word su0)\<rparr>)"
proof (intro conjI)
  show "wasi_serdes_read_dirent_t (wasi_serdes_write_dirent_t b a de) a = de"
    by (simp add: struct_defs round_trip_simps)
  show "wasi_serdes_read_fdstat_t (wasi_serdes_write_fdstat_t b a fs) a = fs"
    by (simp add: struct_defs round_trip_simps)
  show "wasi_serdes_read_filestat_t (wasi_serdes_write_filestat_t b a st) a = st"
    by (simp add: struct_defs round_trip_simps)
  show "wasi_serdes_read_prestat_t (wasi_serdes_write_prestat_t b a ps) a = ps"
    by (simp add: struct_defs round_trip_simps)
  show "wasi_serdes_read_event_t (wasi_serdes_write_event_t b a ev) a ev0 =
     (if ev_type ev = WASI_EVENTTYPE_FD_READ \<or> ev_type ev = WASI_EVENTTYPE_FD_WRITE then ev
      else ev\<lparr>ev_nbytes := ev_nbytes ev0, ev_flags := ev_flags ev0\<rparr>)"
    by (simp add: struct_defs round_trip_simps)
  show "wasi_serdes_read_subscription_t (wasi_serdes_write_subscription_t b a su) a su0 =
     (if sub_tag su = WASI_EVENTTYPE_CLOCK then su
      else su\<lparr>sub_timeout := sub_timeout su0, sub_precision := sub_precision su0, sub_flags := sub_flags su0,
              sub_word := (if sub_tag su = WASI_EVENTTYPE_FD_READ \<or> sub_tag su = WASI_EVENTTYPE_FD_WRITE
                           then sub_word su else sub_word su0)\<rparr>)"
    by (simp add: struct_defs round_trip_simps)
qed

text \<open>
  Claim C19: no I/O vector of a sandbox points outside of its memory. Reading an array of vectors succeeds exactly if
  every vector starts inside of the memory and ends within it, with lengths added without
  wrap-around; it then delivers precisely the vectors stored there, and otherwise answers with the error
  for overflow. The bounds check for arrays is exact as well, even where the product of count and size
  wraps around.
\<close>

theorem wasi_vectors_contained:
  "(fst (wasi_serdes_readv_iovec_t b n a vs) = WASI_ERRNO_SUCCESS \<longleftrightarrow> (\<forall>i < length vs. iovec_inside n (iovec_at b a i))) \<and>
   (fst (wasi_serdes_readv_iovec_t b n a vs) = WASI_ERRNO_SUCCESS \<longrightarrow>
      snd (wasi_serdes_readv_iovec_t b n a vs) = map (\<lambda>i. host_iovec (iovec_at b a i)) [0..<length vs]) \<and>
   fst (wasi_serdes_readv_iovec_t b n a vs) \<in> {WASI_ERRNO_SUCCESS, WASI_ERRNO_OVERFLOW} \<and>
   wasi_serdes_readv_ciovec_t b n a vs = wasi_serdes_readv_iovec_t b n a vs \<and>
   (k \<noteq> 0 \<longrightarrow> wasi_serdes_check_array_bounds p n k c = Inr (unat p < unat n \<and> unat p + unat c * unat k \<le> unat n))"
proof -
  have "WASI_ERRNO_OVERFLOW \<noteq> WASI_ERRNO_SUCCESS" by (simp add: WASI_ERRNO_OVERFLOW_def WASI_ERRNO_SUCCESS_def)
  then show ?thesis using readv_iovec_cases [of b n a vs] check_array_bounds_iff [of k p n c] by (auto simp: readv_iovec_eq)
qed

theorem wasi_vectors_contained_witness:
  "fst (wasi_serdes_readv_iovec_t (write_range (\<lambda>_. 0) 0 (le_bytes 4 (96 :: u32) @ le_bytes 4 (4 :: u32))) 100 0 [zero_iovec]) = WASI_ERRNO_SUCCESS \<and>
   fst (wasi_serdes_readv_iovec_t (write_range (\<lambda>_. 0) 0 (le_bytes 4 (96 :: u32) @ le_bytes 4 (5 :: u32))) 100 0 [zero_iovec]) \<noteq> WASI_ERRNO_SUCCESS \<and>
   wasi_serdes_check_array_bounds 0 100 8 0x4000000000000000 = Inr False"
proof -
  have "iovec_at (write_range (\<lambda>_. 0) 0 (le_bytes 4 (96 :: u32) @ le_bytes 4 x)) 0 0 = (96, x)" for x :: u32
    using read_write_disjoint [of 0 4 4 "le_bytes 4 x"] write_range_append [of "\<lambda>_. 0" 0 "le_bytes 4 (96 :: u32)" "le_bytes 4 x"]
    by (simp add: iovec_at_def of_le_bytes read_write_disjoint flip: write_range_append)
  then show ?thesis
    using wasi_vectors_contained [of _ 100 0 "[zero_iovec]" 8 0 "0x4000000000000000"] by (simp add: iovec_inside_def)
qed

end
