(* ===== verification/Http_Request.thy ===== *)
theory Http_Request
  imports Sledge_Prelude
begin

text \<open>
  HTTP requests: the constants and response headers of runtime/include/http.h, the request structure of
  runtime/include/http_request.h and the callbacks of runtime/src/http_parser_settings.c, through which
  the third-party http-parser fills it in. Text is a string; a pointer into the request buffer is given
  by the bytes from there to the end of the buffer, which the memory stream behind it ends with a null
  character. Reading past that end is \<^const>\<open>Out_Of_Bounds\<close>.
\<close>

subsection \<open>http.h\<close>

definition HTTP_MAX_HEADER_COUNT :: nat where "HTTP_MAX_HEADER_COUNT = 32"
definition HTTP_MAX_HEADER_LENGTH :: nat where "HTTP_MAX_HEADER_LENGTH = 64"
definition HTTP_MAX_HEADER_VALUE_LENGTH :: nat where "HTTP_MAX_HEADER_VALUE_LENGTH = 256"
definition HTTP_MAX_FULL_URL_LENGTH :: nat where "HTTP_MAX_FULL_URL_LENGTH = 256"
definition HTTP_MAX_QUERY_PARAM_COUNT :: nat where "HTTP_MAX_QUERY_PARAM_COUNT = 16"
definition HTTP_MAX_QUERY_PARAM_LENGTH :: nat where "HTTP_MAX_QUERY_PARAM_LENGTH = 32"

definition crlf :: string where "crlf = [CHR 0x0D, CHR 0x0A]"

definition HTTP_RESPONSE_TERMINATOR :: string where "HTTP_RESPONSE_TERMINATOR = crlf"

text \<open>The lines that every response starts with, after its status line.\<close>

definition response_lines :: "string \<Rightarrow> string" where
  "response_lines status = ''HTTP/1.1 '' @ status @ crlf @ ''Server: SLEdge'' @ crlf @ ''Connection: close'' @ crlf"

definition http_header_build :: "int \<Rightarrow> string res" where
  "http_header_build status_code =
     (if status_code = 200 then Inr (response_lines ''200 OK'')
      else if status_code = 400 then Inr (response_lines ''400 Bad Request'')
      else if status_code = 404 then Inr (response_lines ''404 Not Found'')
      else if status_code = 413 then Inr (response_lines ''413 Payload Too Large'')
      else if status_code = 429 then Inr (response_lines ''429 Too Many Requests'')
      else if status_code = 500 then Inr (response_lines ''500 Internal Server Error'')
      else if status_code = 503 then Inr (response_lines ''503 Service Unavailable'')
      else Inl Panic)"

definition http_header_len :: "int \<Rightarrow> nat res" where
  "http_header_len status_code =
     (if status_code = 400 then Inr 61
      else if status_code = 404 then Inr 59
      else if status_code = 413 then Inr 67
      else if status_code = 429 then Inr 67
      else if status_code = 500 then Inr 71
      else if status_code = 503 then Inr 69
      else Inl Panic)"

subsection \<open>http_request.h\<close>

text \<open>The pointers of a header are given by their bytes to the end of the buffer; a null pointer is \<^const>\<open>None\<close>.\<close>

record http_header =
  hdr_key :: "string option"
  hdr_key_length :: nat
  hdr_value :: "string option"
  hdr_value_length :: nat

text \<open>
  The array of headers has a fixed size next to its count. The array of query parameters with its count is the
  list of the parameters in use.
\<close>

record http_request =
  full_url :: string
  headers :: "http_header list"
  header_count :: nat
  req_method :: nat
  query_params :: "string list"
  req_body :: "string option"
  body_length :: nat
  body_length_read :: nat
  length_parsed :: nat
  last_was_value :: bool
  header_end :: bool
  message_begin :: bool
  message_end :: bool
  req_cursor :: nat

definition zero_header :: http_header where
  "zero_header = \<lparr>hdr_key = None, hdr_key_length = 0, hdr_value = None, hdr_value_length = 0\<rparr>"

definition zero_request :: http_request where
  "zero_request = \<lparr>full_url = [], headers = replicate HTTP_MAX_HEADER_COUNT zero_header, header_count = 0, req_method = 0,
     query_params = [], req_body = None, body_length = 0, body_length_read = 0, length_parsed = 0, last_was_value = False,
     header_end = False, message_begin = False, message_end = False, req_cursor = 0\<rparr>"

subsection \<open>http_parser_settings.c\<close>

definition NUL :: char where "NUL = CHR 0x00"

text \<open>\<open>strchr\<close>: the position of the first occurrence before the null character, or null.\<close>

fun strchr :: "string \<Rightarrow> char \<Rightarrow> nat option res" where
  "strchr [] c = Inl Out_Of_Bounds"
| "strchr (x # xs) c =
     (if x = c then Inr (Some 0) else if x = NUL then Inr None else bindr (strchr xs c) (\<lambda>r. Inr (map_option Suc r)))"

text \<open>\<open>memchr\<close>: the position of the first occurrence among the given bytes.\<close>

fun memchr :: "string \<Rightarrow> char \<Rightarrow> nat option" where
  "memchr [] c = None"
| "memchr (x # xs) c = (if x = c then Some 0 else map_option Suc (memchr xs c))"

lemma strchr_bound: "strchr xs c = Inr (Some n) \<Longrightarrow> n < length xs"
  by (induction xs c arbitrary: n rule: strchr.induct) (auto split: if_splits)

text \<open>
  The parameter after the last \<open>&\<close>. Its length \<open>&at[length] - prev\<close> is unsigned, so a negative difference is a
  huge length, which is cut off like any other.
\<close>

definition last_param :: "string \<Rightarrow> int \<Rightarrow> string list \<Rightarrow> string list res" where
  "last_param prev left params =
     (if length params < HTTP_MAX_QUERY_PARAM_COUNT
      then let n = (if 0 \<le> left \<and> nat left < HTTP_MAX_QUERY_PARAM_LENGTH - 1 then nat left else HTTP_MAX_QUERY_PARAM_LENGTH - 1)
           in if n \<le> length prev then Inr (params @ [take n prev]) else Inl Out_Of_Bounds
      else Inr params)"

text \<open>
  The loop over the parameters. The pointer \<open>prev\<close> is the list of the bytes from there on, \<open>left\<close> the number of
  bytes from there to the end of the URL, negative behind it.
\<close>

function query_loop :: "string \<Rightarrow> int \<Rightarrow> string list \<Rightarrow> string list res" where
  "query_loop prev left params =
     bindr (strchr prev CHR ''&'') (\<lambda>cur.
       case cur of
         Some n \<Rightarrow>
           if length params < HTTP_MAX_QUERY_PARAM_COUNT
           then query_loop (drop (Suc n) prev) (left - int n - 1)
                  (params @ [take (min n (HTTP_MAX_QUERY_PARAM_LENGTH - 1)) prev])
           else last_param prev left params
       | None \<Rightarrow> last_param prev left params)"
  by pat_completeness auto
termination
  by (relation "measure (\<lambda>(prev, left, params). length prev)") (auto dest: strchr_bound)

declare query_loop.simps [simp del]

definition http_parser_settings_on_url :: "string \<Rightarrow> nat \<Rightarrow> http_request \<Rightarrow> (int \<times> http_request) res" where
  "http_parser_settings_on_url at len r =
     assertc (\<not> message_end r) (assertc (\<not> header_end r)
       (let query = memchr (take len at) CHR ''?'';
            full_url_length = (case query of None \<Rightarrow> len | Some i \<Rightarrow> i);
            size_to_copy = (if full_url_length < HTTP_MAX_FULL_URL_LENGTH - 1 then full_url_length else HTTP_MAX_FULL_URL_LENGTH - 1);
            r1 = r\<lparr>full_url := take size_to_copy at\<rparr>
        in case query of
             None \<Rightarrow> Inr (0, r1)
           | Some i \<Rightarrow> bindr (query_loop (drop (Suc i) at) (int len - int i - 1) (query_params r))
               (\<lambda>ps. Inr (0, r1\<lparr>query_params := ps\<rparr>))))"

definition http_parser_settings_on_message_begin :: "http_request \<Rightarrow> (int \<times> http_request) res" where
  "http_parser_settings_on_message_begin r =
     assertc (\<not> message_end r) (assertc (\<not> header_end r) (Inr (0, r\<lparr>message_begin := True, last_was_value := True\<rparr>)))"

text \<open>Access to the array of headers; the index \<open>header_count - 1\<close> is out of bounds when the count is zero.\<close>

definition header_at :: "http_request \<Rightarrow> int \<Rightarrow> http_header res" where
  "header_at r i = (if 0 \<le> i \<and> nat i < length (headers r) then Inr (headers r ! nat i) else Inl Out_Of_Bounds)"

definition set_header :: "http_request \<Rightarrow> int \<Rightarrow> (http_header \<Rightarrow> http_header) \<Rightarrow> http_request res" where
  "set_header r i f = bindr (header_at r i) (\<lambda>h. Inr (r\<lparr>headers := (headers r)[nat i := f h]\<rparr>))"

definition http_parser_settings_on_header_field :: "string \<Rightarrow> nat \<Rightarrow> http_request \<Rightarrow> (int \<times> http_request) res" where
  "http_parser_settings_on_header_field at len r =
     assertc (\<not> message_end r) (assertc (\<not> header_end r)
       (if \<not> last_was_value r then
          assertc (header_count r > 0)
            (bindr (header_at r (int (header_count r))) (\<lambda>h.
              if hdr_key_length h + len > HTTP_MAX_HEADER_LENGTH then Inr (- 1, r)
              else bindr (set_header r (int (header_count r)) (\<lambda>h. h\<lparr>hdr_key_length := hdr_key_length h + len\<rparr>)) (\<lambda>r'. Inr (0, r'))))
        else if header_count r \<ge> HTTP_MAX_HEADER_COUNT then Inr (- 1, r)
        else if len > HTTP_MAX_HEADER_LENGTH then Inr (- 1, r)
        else let r1 = r\<lparr>header_count := header_count r + 1\<rparr>
             in bindr (set_header r1 (int (header_count r1) - 1) (\<lambda>h. h\<lparr>hdr_key := Some at, hdr_key_length := len\<rparr>))
                  (\<lambda>r2. Inr (0, r2\<lparr>last_was_value := False\<rparr>))))"

definition http_parser_settings_on_header_value :: "string \<Rightarrow> nat \<Rightarrow> http_request \<Rightarrow> (int \<times> http_request) res" where
  "http_parser_settings_on_header_value at len r =
     assertc (\<not> message_end r) (assertc (\<not> header_end r)
       (if \<not> last_was_value r then
          (if len \<ge> HTTP_MAX_HEADER_VALUE_LENGTH then Inr (- 1, r)
           else bindr (set_header r (int (header_count r) - 1) (\<lambda>h. h\<lparr>hdr_value := Some at, hdr_value_length := len\<rparr>))
             (\<lambda>r1. Inr (0, r1\<lparr>last_was_value := True\<rparr>)))
        else bindr (header_at r (int (header_count r) - 1)) (\<lambda>h.
          assertc (hdr_value_length h > 0)
            (bindr (set_header r (int (header_count r) - 1) (\<lambda>h. h\<lparr>hdr_value_length := hdr_value_length h + len\<rparr>))
              (\<lambda>r1. Inr (0, r1\<lparr>last_was_value := True\<rparr>))))))"

definition HTTP_POST :: nat where "HTTP_POST = 3"
definition HTTP_PUT :: nat where "HTTP_PUT = 4"

text \<open>The method and the content length are fields of the parser.\<close>

definition http_parser_settings_on_header_end :: "nat \<Rightarrow> nat \<Rightarrow> http_request \<Rightarrow> (int \<times> http_request) res" where
  "http_parser_settings_on_header_end parser_method content_length r =
     assertc (\<not> message_end r) (assertc (\<not> header_end r)
       (let r1 = r\<lparr>header_end := True, req_method := parser_method\<rparr>
        in if parser_method = HTTP_PUT \<or> parser_method = HTTP_POST then Inr (0, r1\<lparr>body_length := content_length\<rparr>)
           else Inr (2, r1\<lparr>body_length := 0\<rparr>)))"

definition http_parser_settings_on_body :: "string \<Rightarrow> nat \<Rightarrow> http_request \<Rightarrow> (int \<times> http_request) res" where
  "http_parser_settings_on_body at len r =
     assertc (header_end r) (assertc (\<not> message_end r)
       (if req_body r = None then Inr (0, r\<lparr>req_body := Some at, req_cursor := 0, body_length_read := len\<rparr>)
        else assertc (body_length r > 0) (Inr (0, r\<lparr>body_length_read := body_length_read r + len\<rparr>))))"

definition http_parser_settings_on_msg_end :: "http_request \<Rightarrow> (int \<times> http_request) res" where
  "http_parser_settings_on_msg_end r =
     assertc (header_end r) (assertc (\<not> message_end r) (Inr (0, r\<lparr>message_end := True\<rparr>)))"

subsection \<open>Query parameters\<close>

text \<open>What the query string of a URL means: its parts between the separators.\<close>

fun split_on :: "char \<Rightarrow> string \<Rightarrow> string list" where
  "split_on c [] = [[]]"
| "split_on c (x # xs) = (if x = c then [] # split_on c xs else (x # hd (split_on c xs)) # tl (split_on c xs))"

definition params_of :: "string \<Rightarrow> string list" where
  "params_of q = map (take (HTTP_MAX_QUERY_PARAM_LENGTH - 1)) (split_on CHR ''&'' q)"

lemma split_on_nonempty [simp]: "split_on c xs \<noteq> []"
  by (cases xs) auto

lemma split_on_none: "c \<notin> set xs \<Longrightarrow> split_on c xs = [xs]"
  by (induction xs) auto

lemma split_on_first: "c \<notin> set xs \<Longrightarrow> split_on c (xs @ c # ys) = xs # split_on c ys"
  by (induction xs) auto

lemma strchr_none: "c \<notin> set xs \<Longrightarrow> NUL \<notin> set xs \<Longrightarrow> c \<noteq> NUL \<Longrightarrow> strchr (xs @ NUL # ys) c = Inr None"
  by (induction xs) auto

lemma strchr_first: "c \<notin> set xs \<Longrightarrow> NUL \<notin> set xs \<Longrightarrow> strchr (xs @ c # ys) c = Inr (Some (length xs))"
  by (induction xs) auto

lemma query_loop_next:
  "\<lbrakk>strchr prev CHR ''&'' = Inr (Some n); length params < HTTP_MAX_QUERY_PARAM_COUNT\<rbrakk> \<Longrightarrow>
    query_loop prev left params =
      query_loop (drop (Suc n) prev) (left - int n - 1) (params @ [take (min n (HTTP_MAX_QUERY_PARAM_LENGTH - 1)) prev])"
  by (subst query_loop.simps) simp

lemma query_loop_last:
  "\<lbrakk>strchr prev CHR ''&'' = Inr cur; cur = None \<or> \<not> length params < HTTP_MAX_QUERY_PARAM_COUNT\<rbrakk> \<Longrightarrow>
    query_loop prev left params = last_param prev left params"
  by (subst query_loop.simps) (auto split: option.split)

lemma query_loop_correct:
  assumes "NUL \<notin> set q" "NUL \<notin> set rest" "CHR ''&'' \<notin> set rest" "length ps \<le> HTTP_MAX_QUERY_PARAM_COUNT"
  shows "query_loop (q @ rest @ NUL # junk) (int (length q)) ps = Inr (take HTTP_MAX_QUERY_PARAM_COUNT (ps @ params_of q))"
  using assms
proof (induction "length q" arbitrary: q ps rule: less_induct)
  case less
  have amp: "CHR ''&'' \<noteq> NUL" by (simp add: NUL_def)
  show ?case
  proof (cases "CHR ''&'' \<in> set q")
    case False
    then have "strchr (q @ rest @ NUL # junk) CHR ''&'' = Inr None"
      using strchr_none [of "CHR ''&''" "q @ rest" junk] less.prems amp by simp
    then show ?thesis
      using False less.prems(4) by (auto simp: query_loop_last last_param_def params_of_def split_on_none Let_def)
  next
    case True
    then obtain u v where q: "q = u @ CHR ''&'' # v" "CHR ''&'' \<notin> set u" by (metis split_list_first)
    then have s: "strchr (q @ rest @ NUL # junk) CHR ''&'' = Inr (Some (length u))"
      using strchr_first [of "CHR ''&''" u "v @ rest @ NUL # junk"] less.prems(1) by simp
    show ?thesis
    proof (cases "length ps < HTTP_MAX_QUERY_PARAM_COUNT")
      case True
      let ?p = "take (min (length u) (HTTP_MAX_QUERY_PARAM_LENGTH - 1)) (q @ rest @ NUL # junk)"
      have p: "?p = take (HTTP_MAX_QUERY_PARAM_LENGTH - 1) u" using q by (simp add: min_def)
      have "query_loop (v @ rest @ NUL # junk) (int (length v)) (ps @ [?p]) =
          Inr (take HTTP_MAX_QUERY_PARAM_COUNT ((ps @ [?p]) @ params_of v))"
        using less.prems q True by (intro less.hyps) auto
      moreover have "int (length q) - int (length u) - 1 = int (length v)" using q by simp
      moreover have "drop (Suc (length u)) (q @ rest @ NUL # junk) = v @ rest @ NUL # junk" using q by simp
      ultimately have "query_loop (q @ rest @ NUL # junk) (int (length q)) ps =
          Inr (take HTTP_MAX_QUERY_PARAM_COUNT (ps @ take (HTTP_MAX_QUERY_PARAM_LENGTH - 1) u # params_of v))"
        using query_loop_next [OF s True] p by simp
      then show ?thesis using q by (simp add: params_of_def split_on_first)
    next
      case False
      then show ?thesis using query_loop_last [OF s] less.prems(4) by (simp add: last_param_def)
    qed
  qed
qed

lemma memchr_none: "memchr xs c = None \<longleftrightarrow> c \<notin> set xs"
  by (induction xs) auto

lemma memchr_first: "c \<notin> set xs \<Longrightarrow> memchr (xs @ c # ys) c = Some (length xs)"
  by (induction xs) auto

lemma http_header_len_correct:
  "http_header_len status_code = Inr n \<Longrightarrow> \<exists>h. http_header_build status_code = Inr h \<and> length h = n"
  by (auto simp: http_header_len_def http_header_build_def response_lines_def crlf_def split: if_splits)

subsection \<open>Headers\<close>

text \<open>
  The continuation of a header name works on the entry after the current one. When the array is full this
  is an access outside of the array; otherwise the length of the current name is left too short.
\<close>

lemma header_field_continued:
  assumes "\<not> message_end r" "\<not> header_end r" "\<not> last_was_value r" "0 < header_count r" "length (headers r) = HTTP_MAX_HEADER_COUNT"
  shows "header_count r = HTTP_MAX_HEADER_COUNT \<Longrightarrow> http_parser_settings_on_header_field at len r = Inl Out_Of_Bounds"
    and "\<lbrakk>header_count r < HTTP_MAX_HEADER_COUNT; http_parser_settings_on_header_field at len r = Inr (rc, r')\<rbrakk> \<Longrightarrow>
      headers r' ! (header_count r - 1) = headers r ! (header_count r - 1)"
  using assms by (auto simp: http_parser_settings_on_header_field_def header_at_def set_header_def split: if_splits)

text \<open>A separator behind the URL is taken for one of its query string.\<close>

lemma query_after_url:
  assumes "CHR ''&'' \<notin> set (q @ u @ v)" "NUL \<notin> set (q @ u @ v)" "HTTP_MAX_QUERY_PARAM_LENGTH - 1 \<le> length (v @ NUL # junk)"
  shows "query_loop (q @ u @ CHR ''&'' # v @ NUL # junk) (int (length q)) [] =
    Inr [take (HTTP_MAX_QUERY_PARAM_LENGTH - 1) (q @ u), take (HTTP_MAX_QUERY_PARAM_LENGTH - 1) (v @ NUL # junk)]"
proof -
  let ?m = "HTTP_MAX_QUERY_PARAM_LENGTH - 1" and ?v = "v @ NUL # junk" and ?w = "q @ u @ CHR ''&'' # v @ NUL # junk"
  have s: "strchr ?w CHR ''&'' = Inr (Some (length (q @ u)))"
    using strchr_first [of "CHR ''&''" "q @ u" ?v] assms by simp
  have d: "drop (Suc (length (q @ u))) ?w = ?v" by simp
  have t: "take (min (length (q @ u)) ?m) ?w = take ?m (q @ u)"
    using take_append [of "min (length (q @ u)) ?m" "q @ u" "CHR ''&'' # ?v"] by (simp add: min_def)
  have "query_loop ?w (int (length q)) [] = query_loop ?v (int (length q) - int (length (q @ u)) - 1) [take ?m (q @ u)]"
    using query_loop_next [OF s, of "[]" "int (length q)"] unfolding d t by (simp add: HTTP_MAX_QUERY_PARAM_COUNT_def)
  also have "\<dots> = last_param ?v (int (length q) - int (length (q @ u)) - 1) [take ?m (q @ u)]"
    using strchr_none [of "CHR ''&''" v junk] assms by (intro query_loop_last) (auto simp: NUL_def)
  also have "\<dots> = Inr [take ?m (q @ u), take ?m ?v]"
    using assms(3) by (simp add: last_param_def HTTP_MAX_QUERY_PARAM_COUNT_def Let_def)
  finally show ?thesis .
qed

subsection \<open>Properties\<close>

text \<open>
  The parts of a URL. Take a URL without null characters in a request buffer, such that no \<open>&\<close> follows the URL in
  the bytes that were received so far. Then the callback for URLs succeeds, copies the path before the
  question mark, cut off at 255 characters, and appends as parameters exactly the parts of the query string between \<open>&\<close>
  characters, each cut off at 31 characters, up to 16 of them in total. Where an \<open>&\<close> does follow the URL, in a
  header or in the body, the first parameter of a request is not the query string but runs on to that
  character, and a second parameter is read from behind it.
\<close>

theorem http_url_parts:
  assumes "CHR ''?'' \<notin> set path" and "\<not> message_end r" and "\<not> header_end r"
  shows "(NUL \<notin> set q \<and> NUL \<notin> set rest \<and> CHR ''&'' \<notin> set rest \<and> length (query_params r) \<le> HTTP_MAX_QUERY_PARAM_COUNT \<longrightarrow>
      http_parser_settings_on_url (path @ CHR ''?'' # q @ rest @ NUL # junk) (length (path @ CHR ''?'' # q)) r =
        Inr (0, r\<lparr>full_url := take (HTTP_MAX_FULL_URL_LENGTH - 1) path,
                  query_params := take HTTP_MAX_QUERY_PARAM_COUNT (query_params r @ params_of q)\<rparr>)) \<and>
    http_parser_settings_on_url (path @ rest) (length path) r = Inr (0, r\<lparr>full_url := take (HTTP_MAX_FULL_URL_LENGTH - 1) path\<rparr>) \<and>
    (CHR ''&'' \<notin> set (q @ u @ v) \<and> NUL \<notin> set (q @ u @ v) \<and> HTTP_MAX_QUERY_PARAM_LENGTH - 1 \<le> length (v @ NUL # junk) \<and> query_params r = [] \<longrightarrow>
      http_parser_settings_on_url (path @ CHR ''?'' # q @ u @ CHR ''&'' # v @ NUL # junk) (length (path @ CHR ''?'' # q)) r =
        Inr (0, r\<lparr>full_url := take (HTTP_MAX_FULL_URL_LENGTH - 1) path,
                  query_params := [take (HTTP_MAX_QUERY_PARAM_LENGTH - 1) (q @ u), take (HTTP_MAX_QUERY_PARAM_LENGTH - 1) (v @ NUL # junk)]\<rparr>))"
proof -
  let ?n = "HTTP_MAX_FULL_URL_LENGTH - 1"
  have t: "take (if length path < ?n then length path else ?n) (path @ x) = take ?n path" for x
    by (auto simp: min_def)
  have m: "memchr (take (length (path @ CHR ''?'' # q)) (path @ CHR ''?'' # q @ x)) CHR ''?'' = Some (length path)" for x
    using memchr_first [OF assms(1)] by simp
  have url: "http_parser_settings_on_url (path @ CHR ''?'' # q @ x) (length (path @ CHR ''?'' # q)) r =
      bindr (query_loop (q @ x) (int (length q)) (query_params r)) (\<lambda>ps. Inr (0, r\<lparr>full_url := take ?n path, query_params := ps\<rparr>))" for x
    unfolding http_parser_settings_on_url_def Let_def m option.case t using assms(2,3) by simp
  have "memchr (take (length path) (path @ rest)) CHR ''?'' = None" using assms(1) by (simp add: memchr_none)
  then have "http_parser_settings_on_url (path @ rest) (length path) r = Inr (0, r\<lparr>full_url := take ?n path\<rparr>)"
    unfolding http_parser_settings_on_url_def Let_def using assms(2,3) t [of rest] by simp
  then show ?thesis
    unfolding url using query_loop_correct [of q rest "query_params r" junk] query_after_url [of q u v junk] by simp
qed

end
