(* ===== verification/Http_Session.thy ===== *)
theory Http_Session
  imports Http_Request
begin

text \<open>
  An HTTP session: the socket operations of runtime/include/tcp_session.h, the session of
  runtime/include/http_session.h with its request and response buffers, and the registration of a blocked
  session with epoll from runtime/src/listener_thread.c. What the kernel answers to each \<open>read\<close> and \<open>write\<close>
  is a list that the loops consume; when it is used up, the call has not returned yet and the result is
  \<^const>\<open>None\<close>. The state of the third-party parser has the type variable \<open>'p\<close>, and
  \<open>http_parser_execute\<close>, which calls the callbacks of the request, is an argument. Effects on the
  outside are recorded in order in \<open>trace\<close>.
\<close>

datatype http_session_state =
    HTTP_SESSION_UNINITIALIZED | HTTP_SESSION_INITIALIZED | HTTP_SESSION_RECEIVING_REQUEST
  | HTTP_SESSION_RECEIVE_REQUEST_BLOCKED | HTTP_SESSION_RECEIVED_REQUEST | HTTP_SESSION_EXECUTING
  | HTTP_SESSION_EXECUTION_COMPLETE | HTTP_SESSION_SENDING_RESPONSE_HEADER
  | HTTP_SESSION_SEND_RESPONSE_HEADER_BLOCKED | HTTP_SESSION_SENT_RESPONSE_HEADER
  | HTTP_SESSION_SENDING_RESPONSE_BODY | HTTP_SESSION_SEND_RESPONSE_BODY_BLOCKED | HTTP_SESSION_SENT_RESPONSE_BODY

datatype write_result = Wrote nat | Write_Blocked | Write_Failed nat

text \<open>Bytes that were read, and whether the growing request buffer had to move to hold them.\<close>

datatype read_result = Read string bool | Read_Blocked | Read_Failed nat

datatype io_call = Epoll_Add_In | Epoll_Add_Out | Epoll_Del | Send string | Close_Socket | Session_Free | Perf_Log u64

text \<open>A memory stream is its contents, \<^const>\<open>None\<close> when it is not open.\<close>

record 'p http_session =
  hs_state :: http_session_state
  hs_socket :: int
  http_parser :: 'p
  http_req :: http_request
  request_buffer :: "string option"
  response_header :: "string option"
  response_header_written :: nat
  response_body :: "string option"
  response_body_written :: nat
  hs_tenant :: nat
  hs_route :: "nat option"
  request_arrival_timestamp :: u64
  request_downloaded_timestamp :: u64
  response_takeoff_timestamp :: u64
  response_sent_timestamp :: u64
  trace :: "io_call list"

definition emit :: "io_call \<Rightarrow> 'p http_session \<Rightarrow> 'p http_session" where
  "emit e s = s\<lparr>trace := trace s @ [e]\<rparr>"

definition buffer_of :: "string option \<Rightarrow> string" where
  "buffer_of b = (case b of None \<Rightarrow> [] | Some d \<Rightarrow> d)"

subsection \<open>tcp_session.h\<close>

definition tcp_session_close :: "'p http_session \<Rightarrow> 'p http_session res" where
  "tcp_session_close s =
     assertc (hs_socket s \<noteq> 0) (assertc (hs_socket s \<noteq> 1) (assertc (hs_socket s \<noteq> 2) (Inr (emit Close_Socket s))))"

definition tcp_session_send ::
  "write_result \<Rightarrow> string \<Rightarrow> ('p http_session \<Rightarrow> 'p http_session res) option \<Rightarrow> 'p http_session \<Rightarrow> (int \<times> 'p http_session) res" where
  "tcp_session_send w buffer on_eagain s =
     assertc (length buffer > 0)
       (case w of
          Wrote n \<Rightarrow> Inr (int n, emit (Send (take n buffer)) s)
        | Write_Blocked \<Rightarrow> (case on_eagain of
            None \<Rightarrow> Inr (- EAGAIN, s)
          | Some cb \<Rightarrow> bindr (cb s) (\<lambda>s'. Inr (- EAGAIN, s')))
        | Write_Failed e \<Rightarrow> Inr (- int e, s))"

text \<open>The bytes and the flag of a successful read are part of the result.\<close>

definition tcp_session_recv ::
  "read_result \<Rightarrow> ('p http_session \<Rightarrow> 'p http_session res) option \<Rightarrow> 'p http_session \<Rightarrow> (int \<times> string \<times> bool \<times> 'p http_session) res" where
  "tcp_session_recv r on_eagain s =
     (case r of
        Read bytes moved \<Rightarrow> Inr (int (length bytes), bytes, moved, s)
      | Read_Blocked \<Rightarrow> (case on_eagain of
          None \<Rightarrow> Inr (- EAGAIN, [], False, s)
        | Some cb \<Rightarrow> bindr (cb s) (\<lambda>s'. Inr (- EAGAIN, [], False, s')))
      | Read_Failed e \<Rightarrow> Inr (- int e, [], False, s))"

subsection \<open>http_session.h\<close>

definition http_session_parser_init :: "'p \<Rightarrow> 'p http_session \<Rightarrow> 'p http_session" where
  "http_session_parser_init fresh_parser s = s\<lparr>http_req := zero_request, http_parser := fresh_parser\<rparr>"

text \<open>
  Opening a memory stream either succeeds or returns the positive error number. The callers test for a negative
  result, so a failure goes unnoticed and leaves the stream closed.
\<close>

definition auto_buf_init :: "int option \<Rightarrow> int \<times> string option" where
  "auto_buf_init failure = (case failure of None \<Rightarrow> (0, Some []) | Some errno \<Rightarrow> (errno, None))"

definition http_session_init ::
  "int option \<Rightarrow> int option \<Rightarrow> 'p \<Rightarrow> int \<Rightarrow> nat \<Rightarrow> u64 \<Rightarrow> 'p http_session \<Rightarrow> (int \<times> 'p http_session) res" where
  "http_session_init request_failure header_failure fresh_parser socket_descriptor tenant arrival s =
     assertc (hs_state s = HTTP_SESSION_UNINITIALIZED) (assertc (socket_descriptor \<ge> 0)
       (let s1 = http_session_parser_init fresh_parser
              (s\<lparr>hs_tenant := tenant, hs_route := None, hs_socket := socket_descriptor, request_arrival_timestamp := arrival\<rparr>);
            (rc, rb) = auto_buf_init request_failure;
            s2 = s1\<lparr>request_buffer := rb\<rparr>
        in if rc < 0 then Inr (- 1, s2)
           else Inr (0, s2\<lparr>response_header := snd (auto_buf_init header_failure), hs_state := HTTP_SESSION_INITIALIZED\<rparr>)))"

definition http_session_init_response_body :: "int option \<Rightarrow> 'p http_session \<Rightarrow> (int \<times> 'p http_session) res" where
  "http_session_init_response_body failure s =
     assertc (response_body s = None) (assertc (response_body_written s = 0)
       (let (rc, rb) = auto_buf_init failure;
            s1 = s\<lparr>response_body := rb\<rparr>
        in if rc < 0 then Inr (- 1, s1\<lparr>request_buffer := None\<rparr>) else Inr (0, s1)))"

definition http_session_deinit :: "'p http_session \<Rightarrow> 'p http_session" where
  "http_session_deinit s = s\<lparr>request_buffer := None, response_header := None, response_body := None\<rparr>"

definition http_session_free :: "'p http_session \<Rightarrow> 'p http_session" where
  "http_session_free s = emit Session_Free (http_session_deinit s)"

definition http_session_close :: "'p http_session \<Rightarrow> 'p http_session res" where
  "http_session_close s = tcp_session_close s"

text \<open>Decimal digits, as \<open>%lu\<close> prints a number.\<close>

fun decimal :: "nat \<Rightarrow> string" where
  "decimal n = (if n < 10 then [char_of (48 + n)] else decimal (n div 10) @ [char_of (48 + n mod 10)])"

text \<open>
  The argument \<open>content_type\<close> maps the address of a route to its content type. Writing to a stream that could not
  be opened uses a null handle.
\<close>

definition http_session_set_response_header ::
  "u64 \<Rightarrow> (nat \<Rightarrow> string) \<Rightarrow> int \<Rightarrow> 'p http_session \<Rightarrow> 'p http_session res" where
  "http_session_set_response_header now content_type status_code s =
     assertc (status_code \<ge> 200 \<and> status_code \<le> 599)
       (bindr (http_header_build status_code) (\<lambda>lines.
         case response_header s of
           None \<Rightarrow> Inl Null_Dereference
         | Some header \<Rightarrow>
             (if status_code = 200
              then (case (response_body s, hs_route s) of
                      (Some body, Some route) \<Rightarrow>
                        Inr (s\<lparr>response_header := Some (header @ lines @ ''Content-Type: '' @ content_type route @ crlf @
                               ''Content-Length: '' @ decimal (length body) @ crlf @ HTTP_RESPONSE_TERMINATOR),
                             response_takeoff_timestamp := now\<rparr>)
                    | _ \<Rightarrow> Inl Null_Dereference)
              else Inr (s\<lparr>response_header := Some (header @ lines @ HTTP_RESPONSE_TERMINATOR), response_takeoff_timestamp := now\<rparr>))))"

text \<open>
  The two sending loops. They stop with the answer of the kernel when it is negative and go on after a partial
  write; the rest of the kernel's answers is part of the result.
\<close>

fun header_loop ::
  "('p http_session \<Rightarrow> 'p http_session res) option \<Rightarrow> write_result list \<Rightarrow> 'p http_session \<Rightarrow>
   (int \<times> 'p http_session \<times> write_result list) option res" where
  "header_loop on_eagain [] s =
     (if length (buffer_of (response_header s)) > response_header_written s then Inr None
      else Inr (Some (0, s\<lparr>hs_state := HTTP_SESSION_SENT_RESPONSE_HEADER\<rparr>, [])))"
| "header_loop on_eagain (w # ws) s =
     (if length (buffer_of (response_header s)) > response_header_written s
      then bindr (tcp_session_send w (drop (response_header_written s) (buffer_of (response_header s))) on_eagain s) (\<lambda>(sent, s1).
        if sent < 0 then Inr (Some (sent, s1, ws))
        else header_loop on_eagain ws (s1\<lparr>response_header_written := response_header_written s1 + nat sent\<rparr>))
      else Inr (Some (0, s\<lparr>hs_state := HTTP_SESSION_SENT_RESPONSE_HEADER\<rparr>, w # ws)))"

definition http_session_send_response_header ::
  "('p http_session \<Rightarrow> 'p http_session res) option \<Rightarrow> write_result list \<Rightarrow> 'p http_session \<Rightarrow>
   (int \<times> 'p http_session \<times> write_result list) option res" where
  "http_session_send_response_header on_eagain ws s =
     assertc (hs_state s = HTTP_SESSION_EXECUTION_COMPLETE \<or> hs_state s = HTTP_SESSION_SEND_RESPONSE_HEADER_BLOCKED)
       (header_loop on_eagain ws (s\<lparr>hs_state := HTTP_SESSION_SENDING_RESPONSE_HEADER\<rparr>))"

fun body_loop ::
  "('p http_session \<Rightarrow> 'p http_session res) option \<Rightarrow> write_result list \<Rightarrow> 'p http_session \<Rightarrow>
   (int \<times> 'p http_session \<times> write_result list) option res" where
  "body_loop on_eagain [] s =
     (if response_body_written s < length (buffer_of (response_body s)) then Inr None
      else Inr (Some (0, s\<lparr>hs_state := HTTP_SESSION_SENT_RESPONSE_BODY\<rparr>, [])))"
| "body_loop on_eagain (w # ws) s =
     (if response_body_written s < length (buffer_of (response_body s))
      then bindr (tcp_session_send w (drop (response_body_written s) (buffer_of (response_body s))) on_eagain s) (\<lambda>(sent, s1).
        if sent < 0 then Inr (Some (sent, s1, ws))
        else body_loop on_eagain ws (s1\<lparr>response_body_written := response_body_written s1 + nat sent\<rparr>))
      else Inr (Some (0, s\<lparr>hs_state := HTTP_SESSION_SENT_RESPONSE_BODY\<rparr>, w # ws)))"

definition http_session_send_response_body ::
  "('p http_session \<Rightarrow> 'p http_session res) option \<Rightarrow> write_result list \<Rightarrow> 'p http_session \<Rightarrow>
   (int \<times> 'p http_session \<times> write_result list) option res" where
  "http_session_send_response_body on_eagain ws s =
     assertc (hs_state s = HTTP_SESSION_SENT_RESPONSE_HEADER \<or> hs_state s = HTTP_SESSION_SEND_RESPONSE_BODY_BLOCKED)
       (body_loop on_eagain ws (s\<lparr>hs_state := HTTP_SESSION_SENDING_RESPONSE_BODY\<rparr>))"

text \<open>
  One call of the parser on the bytes that were not parsed yet: the new parser and request, the number of bytes
  it consumed and whether it reported no error.
\<close>

type_synonym 'p parser_execute = "'p \<Rightarrow> http_request \<Rightarrow> string \<Rightarrow> ('p \<times> http_request \<times> nat \<times> bool) res"

definition http_session_parse :: "'p parser_execute \<Rightarrow> int \<Rightarrow> 'p http_session \<Rightarrow> (int \<times> 'p http_session) res" where
  "http_session_parse execute bytes_received s =
     assertc (bytes_received > 0)
       (bindr (execute (http_parser s) (http_req s) (drop (length_parsed (http_req s)) (buffer_of (request_buffer s))))
         (\<lambda>(p, r, parsed, ok).
           if \<not> ok then Inr (- 1, s\<lparr>http_parser := p, http_req := r\<rparr>)
           else Inr (int parsed, s\<lparr>http_parser := p, http_req := r\<lparr>length_parsed := length_parsed r + parsed\<rparr>\<rparr>)))"

text \<open>
  Receiving a request. When the buffer moves, the pointer to the body is computed anew from the length of the
  header; it is null when that length is zero.
\<close>

fun receive_loop ::
  "'p parser_execute \<Rightarrow> ('p http_session \<Rightarrow> 'p http_session res) option \<Rightarrow> read_result list \<Rightarrow> 'p http_session \<Rightarrow>
   (int \<times> 'p http_session \<times> read_result list) option res" where
  "receive_loop execute on_eagain [] s =
     (if message_end (http_req s) then Inr (Some (0, s\<lparr>hs_state := HTTP_SESSION_RECEIVED_REQUEST\<rparr>, [])) else Inr None)"
| "receive_loop execute on_eagain (r # rs) s =
     (if message_end (http_req s) then Inr (Some (0, s\<lparr>hs_state := HTTP_SESSION_RECEIVED_REQUEST\<rparr>, r # rs))
      else bindr (tcp_session_recv r on_eagain s) (\<lambda>(received, bytes, moved, s1).
        if received = - EAGAIN then Inr (Some (- EAGAIN, s1, rs))
        else if received < 0 then Inr (Some (- 1, s1, rs))
        else if received = 0 then Inr (Some (- 1, s1, rs))
        else let header_length = int (length (buffer_of (request_buffer s1))) - int (body_length_read (http_req s1))
             in assertc (\<not> header_end (http_req s1) \<or> header_length > 0)
                  (let buf = buffer_of (request_buffer s1) @ bytes;
                       s2 = s1\<lparr>request_buffer := Some buf\<rparr>;
                       s3 = (if moved
                             then s2\<lparr>http_req := (http_req s2)\<lparr>req_body :=
                                    (if header_length \<noteq> 0 then Some (drop (nat header_length) buf @ [NUL]) else None)\<rparr>\<rparr>
                             else s2)
                   in bindr (http_session_parse execute received s3) (\<lambda>(rc, s4).
                        if rc = - 1 then Inr (Some (- 1, s4, rs)) else receive_loop execute on_eagain rs s4))))"

definition http_session_receive_request ::
  "'p parser_execute \<Rightarrow> ('p http_session \<Rightarrow> 'p http_session res) option \<Rightarrow> read_result list \<Rightarrow> 'p http_session \<Rightarrow>
   (int \<times> 'p http_session \<times> read_result list) option res" where
  "http_session_receive_request execute on_eagain rs s =
     assertc (request_buffer s \<noteq> None)
       (assertc (hs_state s = HTTP_SESSION_INITIALIZED \<or> hs_state s = HTTP_SESSION_RECEIVE_REQUEST_BLOCKED)
         (receive_loop execute on_eagain rs (s\<lparr>hs_state := HTTP_SESSION_RECEIVING_REQUEST\<rparr>)))"

definition http_session_write_response :: "string \<Rightarrow> 'p http_session \<Rightarrow> (int \<times> 'p http_session) res" where
  "http_session_write_response source s =
     (case response_body s of
        None \<Rightarrow> Inl Assertion_Failure
      | Some body \<Rightarrow> Inr (int (length source), s\<lparr>response_body := Some (body @ source)\<rparr>))"

text \<open>What the workers call when a sandbox has finished. The second component of the result are unused answers of the kernel.\<close>

definition http_session_send_response ::
  "u64 \<Rightarrow> ('p http_session \<Rightarrow> 'p http_session res) option \<Rightarrow> write_result list \<Rightarrow> 'p http_session \<Rightarrow>
   ('p http_session \<times> write_result list) option res" where
  "http_session_send_response now on_eagain ws s =
     assertc (hs_state s = HTTP_SESSION_EXECUTION_COMPLETE)
       (bindr (http_session_send_response_header on_eagain ws s) (\<lambda>r1. case r1 of
          None \<Rightarrow> Inr None
        | Some (rc, s1, ws1) \<Rightarrow>
            if rc = - EAGAIN then Inr (Some (s1, ws1))
            else if rc < 0 then bindr (http_session_close s1) (\<lambda>s2. Inr (Some (http_session_free s2, ws1)))
            else assertc (hs_state s1 = HTTP_SESSION_SENT_RESPONSE_HEADER)
              (bindr (http_session_send_response_body on_eagain ws1 s1) (\<lambda>r2. case r2 of
                 None \<Rightarrow> Inr None
               | Some (rc2, s2, ws2) \<Rightarrow>
                   if rc2 = - EAGAIN then Inr (Some (s2, ws2))
                   else if rc2 < 0 then bindr (http_session_close s2) (\<lambda>s3. Inr (Some (http_session_free s3, ws2)))
                   else assertc (hs_state s2 = HTTP_SESSION_SENT_RESPONSE_BODY)
                     (let s3 = emit (Perf_Log now) (s2\<lparr>response_sent_timestamp := now\<rparr>)
                      in bindr (http_session_close s3) (\<lambda>s4. Inr (Some (http_session_free s4, ws2))))))))"

subsection \<open>Sessions in listener_thread.c\<close>

text \<open>Whether the listener has been initialised and whether \<open>epoll_ctl\<close> succeeds are arguments.\<close>

definition listener_thread_register_http_session :: "bool \<Rightarrow> bool \<Rightarrow> 'p http_session \<Rightarrow> 'p http_session res" where
  "listener_thread_register_http_session initialized ctl_ok s =
     (if \<not> initialized then Inl Panic
      else bindr (case hs_state s of
          HTTP_SESSION_RECEIVING_REQUEST \<Rightarrow> Inr (Epoll_Add_In, s\<lparr>hs_state := HTTP_SESSION_RECEIVE_REQUEST_BLOCKED\<rparr>)
        | HTTP_SESSION_SENDING_RESPONSE_HEADER \<Rightarrow> Inr (Epoll_Add_Out, s\<lparr>hs_state := HTTP_SESSION_SEND_RESPONSE_HEADER_BLOCKED\<rparr>)
        | HTTP_SESSION_SENDING_RESPONSE_BODY \<Rightarrow> Inr (Epoll_Add_Out, s\<lparr>hs_state := HTTP_SESSION_SEND_RESPONSE_BODY_BLOCKED\<rparr>)
        | _ \<Rightarrow> Inl Panic) (\<lambda>(e, s1). if ctl_ok then Inr (emit e s1) else Inl Panic))"

definition listener_thread_unregister_http_session :: "bool \<Rightarrow> bool \<Rightarrow> 'p http_session \<Rightarrow> 'p http_session res" where
  "listener_thread_unregister_http_session initialized ctl_ok s =
     (if \<not> initialized then Inl Panic else if ctl_ok then Inr (emit Epoll_Del s) else Inl Panic)"

abbreviation epoll_cb :: "('p http_session \<Rightarrow> 'p http_session res) option" where
  "epoll_cb \<equiv> Some (listener_thread_register_http_session True True)"

text \<open>The assertion of this function assigns the state instead of comparing it.\<close>

definition on_client_response_sent :: "u64 \<Rightarrow> 'p http_session \<Rightarrow> 'p http_session res" where
  "on_client_response_sent now s =
     (let s1 = emit (Perf_Log now) (s\<lparr>hs_state := HTTP_SESSION_SENT_RESPONSE_BODY, response_sent_timestamp := now\<rparr>)
      in bindr (http_session_close s1) (\<lambda>s2. Inr (http_session_free s2)))"

definition on_client_response_body_sending ::
  "u64 \<Rightarrow> write_result list \<Rightarrow> 'p http_session \<Rightarrow> ('p http_session \<times> write_result list) option res" where
  "on_client_response_body_sending now ws s =
     bindr (http_session_send_response_body epoll_cb ws s) (\<lambda>r. case r of
       None \<Rightarrow> Inr None
     | Some (rc, s1, ws1) \<Rightarrow>
         if rc = 0 then bindr (on_client_response_sent now s1) (\<lambda>s2. Inr (Some (s2, ws1)))
         else if rc = - EAGAIN then Inr (Some (s1, ws1))
         else bindr (http_session_close s1) (\<lambda>s2. Inr (Some (http_session_free s2, ws1))))"

definition on_client_response_header_sending ::
  "u64 \<Rightarrow> write_result list \<Rightarrow> 'p http_session \<Rightarrow> ('p http_session \<times> write_result list) option res" where
  "on_client_response_header_sending now ws s =
     bindr (http_session_send_response_header epoll_cb ws s) (\<lambda>r. case r of
       None \<Rightarrow> Inr None
     | Some (rc, s1, ws1) \<Rightarrow>
         if rc = 0 then on_client_response_body_sending now ws1 s1
         else if rc = - EAGAIN then Inr (Some (s1, ws1))
         else bindr (http_session_close s1) (\<lambda>s2. Inr (Some (http_session_free s2, ws1))))"

subsection \<open>What a session has done so far\<close>

text \<open>The bytes that reached the client, the end of the session, and the registrations with epoll that are still open.\<close>

definition sent :: "'p http_session \<Rightarrow> string" where
  "sent s = concat (map (\<lambda>e. case e of Send d \<Rightarrow> d | _ \<Rightarrow> []) (trace s))"

definition finals :: "'p http_session \<Rightarrow> io_call list" where
  "finals s = filter (\<lambda>e. e = Close_Socket \<or> e = Session_Free) (trace s)"

definition polls :: "'p http_session \<Rightarrow> int" where
  "polls s = sum_list (map (\<lambda>e. case e of Epoll_Add_In \<Rightarrow> 1 | Epoll_Add_Out \<Rightarrow> 1 | Epoll_Del \<Rightarrow> - 1 | _ \<Rightarrow> 0) (trace s))"

text \<open>A kernel that always makes progress: every write takes at least a byte or would block.\<close>

definition progress :: "write_result list \<Rightarrow> bool" where
  "progress ws \<longleftrightarrow> (\<forall>w\<in>set ws. w = Write_Blocked \<or> (\<exists>n > 0. w = Wrote n))"

definition writes :: "write_result list \<Rightarrow> nat" where
  "writes ws = length (filter (\<lambda>w. w \<noteq> Write_Blocked) ws)"

text \<open>The parts of a session that sending does not change.\<close>

definition same_data :: "'p http_session \<Rightarrow> 'p http_session \<Rightarrow> bool" where
  "same_data s s' \<longleftrightarrow> response_header s' = response_header s \<and> response_body s' = response_body s \<and> hs_socket s' = hs_socket s \<and>
     finals s' = finals s"

lemma emit_simps [simp]:
  "sent (emit e s) = sent s @ (case e of Send d \<Rightarrow> d | _ \<Rightarrow> [])"
  "finals (emit e s) = finals s @ (if e = Close_Socket \<or> e = Session_Free then [e] else [])"
  "polls (emit e s) = polls s + (case e of Epoll_Add_In \<Rightarrow> 1 | Epoll_Add_Out \<Rightarrow> 1 | Epoll_Del \<Rightarrow> - 1 | _ \<Rightarrow> 0)"
  "hs_state (emit e s) = hs_state s" "response_header (emit e s) = response_header s" "response_body (emit e s) = response_body s"
  "response_header_written (emit e s) = response_header_written s" "response_body_written (emit e s) = response_body_written s"
  "hs_socket (emit e s) = hs_socket s"
  by (simp_all add: emit_def sent_def finals_def polls_def)

lemma update_simps [simp]:
  "sent (s\<lparr>hs_state := y0\<rparr>) = sent s" "sent (s\<lparr>response_header_written := y1\<rparr>) = sent s"
  "sent (s\<lparr>response_body_written := y2\<rparr>) = sent s" "sent (s\<lparr>response_sent_timestamp := y3\<rparr>) = sent s"
  "sent (s\<lparr>response_header := y4\<rparr>) = sent s" "sent (s\<lparr>response_body := y5\<rparr>) = sent s"
  "sent (s\<lparr>request_buffer := y6\<rparr>) = sent s" "finals (s\<lparr>hs_state := y0\<rparr>) = finals s"
  "finals (s\<lparr>response_header_written := y1\<rparr>) = finals s" "finals (s\<lparr>response_body_written := y2\<rparr>) = finals s"
  "finals (s\<lparr>response_sent_timestamp := y3\<rparr>) = finals s" "finals (s\<lparr>response_header := y4\<rparr>) = finals s"
  "finals (s\<lparr>response_body := y5\<rparr>) = finals s" "finals (s\<lparr>request_buffer := y6\<rparr>) = finals s"
  "polls (s\<lparr>hs_state := y0\<rparr>) = polls s" "polls (s\<lparr>response_header_written := y1\<rparr>) = polls s"
  "polls (s\<lparr>response_body_written := y2\<rparr>) = polls s" "polls (s\<lparr>response_sent_timestamp := y3\<rparr>) = polls s"
  "polls (s\<lparr>response_header := y4\<rparr>) = polls s" "polls (s\<lparr>response_body := y5\<rparr>) = polls s"
  "polls (s\<lparr>request_buffer := y6\<rparr>) = polls s"
  by (simp_all add: sent_def finals_def polls_def)

lemma progress_Cons: "progress (w # ws) \<longleftrightarrow> (w = Write_Blocked \<or> (\<exists>n > 0. w = Wrote n)) \<and> progress ws"
  by (simp add: progress_def)

lemma writes_simps [simp]: "writes [] = 0" "writes (Write_Blocked # ws) = writes ws" "writes (Wrote n # ws) = Suc (writes ws)"
  by (simp_all add: writes_def)

lemma eagain_pos [simp]: "0 < EAGAIN" "EAGAIN \<noteq> 0"
  by (simp_all add: EAGAIN_def)

lemma register_sending:
  "hs_state s = HTTP_SESSION_SENDING_RESPONSE_HEADER \<Longrightarrow> listener_thread_register_http_session True True s =
     Inr (emit Epoll_Add_Out (s\<lparr>hs_state := HTTP_SESSION_SEND_RESPONSE_HEADER_BLOCKED\<rparr>))"
  "hs_state s = HTTP_SESSION_SENDING_RESPONSE_BODY \<Longrightarrow> listener_thread_register_http_session True True s =
     Inr (emit Epoll_Add_Out (s\<lparr>hs_state := HTTP_SESSION_SEND_RESPONSE_BODY_BLOCKED\<rparr>))"
  by (simp_all add: listener_thread_register_http_session_def)

text \<open>
  A sending loop under such a kernel, with enough writes for what is left, either sends everything or
  registers the session and returns -EAGAIN, having consumed an answer.
\<close>

lemma header_loop_cases:
  assumes "progress ws" "hs_state s = HTTP_SESSION_SENDING_RESPONSE_HEADER" "buffer_of (response_header s) = h"
    and "length h - response_header_written s \<le> writes ws"
  shows "\<exists>rc s' ws'. header_loop epoll_cb ws s = Inr (Some (rc, s', ws')) \<and> same_data s s' \<and>
    response_body_written s' = response_body_written s \<and> progress ws' \<and>
    sent s' @ drop (response_header_written s') h = sent s @ drop (response_header_written s) h \<and>
    length h - response_header_written s' + writes ws \<le> length h - response_header_written s + writes ws' \<and>
    (rc = 0 \<and> hs_state s' = HTTP_SESSION_SENT_RESPONSE_HEADER \<and> length h \<le> response_header_written s' \<and> polls s' = polls s \<and> length ws' \<le> length ws \<or>
     rc = - EAGAIN \<and> hs_state s' = HTTP_SESSION_SEND_RESPONSE_HEADER_BLOCKED \<and> polls s' = polls s + 1 \<and> length ws' < length ws)"
  using assms
proof (induction ws arbitrary: s)
  case Nil
  then show ?case by (auto simp: same_data_def)
next
  case (Cons w ws)
  show ?case
  proof (cases "length h > response_header_written s")
    case False
    then show ?thesis using Cons.prems by (auto simp: same_data_def)
  next
    case True
    from Cons.prems(1) consider "w = Write_Blocked" | n where "n > 0" "w = Wrote n" by (auto simp: progress_Cons)
    then show ?thesis
    proof cases
      case 1
      let ?s = "emit Epoll_Add_Out (s\<lparr>hs_state := HTTP_SESSION_SEND_RESPONSE_HEADER_BLOCKED\<rparr>)"
      have "header_loop epoll_cb (w # ws) s = Inr (Some (- EAGAIN, ?s, ws))"
        using 1 True Cons.prems(2,3) by (simp add: tcp_session_send_def register_sending)
      then show ?thesis using 1 Cons.prems(1) by (auto simp: same_data_def progress_Cons)
    next
      case 2
      let ?s = "emit (Send (take n (drop (response_header_written s) h))) s"
      let ?s1 = "?s\<lparr>response_header_written := response_header_written s + n\<rparr>"
      have l: "header_loop epoll_cb (w # ws) s = header_loop epoll_cb ws ?s1"
        using 2 True Cons.prems(3) by (simp add: tcp_session_send_def)
      have d: "take n (drop (response_header_written s) h) @ drop (response_header_written s + n) h = drop (response_header_written s) h"
        by (metis append_take_drop_id drop_drop add.commute)
      have "length h - (response_header_written s + n) \<le> writes ws" using Cons.prems(4) 2 by simp
      then obtain rc s' ws' where r: "header_loop epoll_cb ws ?s1 = Inr (Some (rc, s', ws'))" "same_data ?s1 s'"
        "response_body_written s' = response_body_written s" "progress ws'"
        "sent s' @ drop (response_header_written s') h = sent ?s1 @ drop (response_header_written s + n) h"
        "length h - response_header_written s' + writes ws \<le> length h - (response_header_written s + n) + writes ws'"
        "rc = 0 \<and> hs_state s' = HTTP_SESSION_SENT_RESPONSE_HEADER \<and> length h \<le> response_header_written s' \<and> polls s' = polls ?s1 \<and> length ws' \<le> length ws \<or>
         rc = - EAGAIN \<and> hs_state s' = HTTP_SESSION_SEND_RESPONSE_HEADER_BLOCKED \<and> polls s' = polls ?s1 + 1 \<and> length ws' < length ws"
        using Cons.IH [of ?s1] Cons.prems(1,2,3) by (auto simp: progress_Cons)
      have "sent s' @ drop (response_header_written s') h = sent s @ drop (response_header_written s) h" using r(5) d by simp
      moreover have "length h - response_header_written s' + writes (w # ws) \<le> length h - response_header_written s + writes ws'"
        using r(6) 2 True by simp
      moreover have "same_data s s'" using r(2) by (simp add: same_data_def)
      ultimately show ?thesis using l r(1,3,4,7) by auto
    qed
  qed
qed

lemma body_loop_cases:
  assumes "progress ws" "hs_state s = HTTP_SESSION_SENDING_RESPONSE_BODY" "buffer_of (response_body s) = h"
    and "length h - response_body_written s \<le> writes ws"
  shows "\<exists>rc s' ws'. body_loop epoll_cb ws s = Inr (Some (rc, s', ws')) \<and> same_data s s' \<and>
    response_header_written s' = response_header_written s \<and> progress ws' \<and>
    sent s' @ drop (response_body_written s') h = sent s @ drop (response_body_written s) h \<and>
    length h - response_body_written s' + writes ws \<le> length h - response_body_written s + writes ws' \<and>
    (rc = 0 \<and> hs_state s' = HTTP_SESSION_SENT_RESPONSE_BODY \<and> length h \<le> response_body_written s' \<and> polls s' = polls s \<and> length ws' \<le> length ws \<or>
     rc = - EAGAIN \<and> hs_state s' = HTTP_SESSION_SEND_RESPONSE_BODY_BLOCKED \<and> polls s' = polls s + 1 \<and> length ws' < length ws)"
  using assms
proof (induction ws arbitrary: s)
  case Nil
  then show ?case by (auto simp: same_data_def)
next
  case (Cons w ws)
  show ?case
  proof (cases "response_body_written s < length h")
    case False
    then show ?thesis using Cons.prems by (auto simp: same_data_def)
  next
    case True
    from Cons.prems(1) consider "w = Write_Blocked" | n where "n > 0" "w = Wrote n" by (auto simp: progress_Cons)
    then show ?thesis
    proof cases
      case 1
      let ?s = "emit Epoll_Add_Out (s\<lparr>hs_state := HTTP_SESSION_SEND_RESPONSE_BODY_BLOCKED\<rparr>)"
      have "body_loop epoll_cb (w # ws) s = Inr (Some (- EAGAIN, ?s, ws))"
        using 1 True Cons.prems(2,3) by (simp add: tcp_session_send_def register_sending)
      then show ?thesis using 1 Cons.prems(1) by (auto simp: same_data_def progress_Cons)
    next
      case 2
      let ?s = "emit (Send (take n (drop (response_body_written s) h))) s"
      let ?s1 = "?s\<lparr>response_body_written := response_body_written s + n\<rparr>"
      have l: "body_loop epoll_cb (w # ws) s = body_loop epoll_cb ws ?s1"
        using 2 True Cons.prems(3) by (simp add: tcp_session_send_def)
      have d: "take n (drop (response_body_written s) h) @ drop (response_body_written s + n) h = drop (response_body_written s) h"
        by (metis append_take_drop_id drop_drop add.commute)
      have "length h - (response_body_written s + n) \<le> writes ws" using Cons.prems(4) 2 by simp
      then obtain rc s' ws' where r: "body_loop epoll_cb ws ?s1 = Inr (Some (rc, s', ws'))" "same_data ?s1 s'"
        "response_header_written s' = response_header_written s" "progress ws'"
        "sent s' @ drop (response_body_written s') h = sent ?s1 @ drop (response_body_written s + n) h"
        "length h - response_body_written s' + writes ws \<le> length h - (response_body_written s + n) + writes ws'"
        "rc = 0 \<and> hs_state s' = HTTP_SESSION_SENT_RESPONSE_BODY \<and> length h \<le> response_body_written s' \<and> polls s' = polls ?s1 \<and> length ws' \<le> length ws \<or>
         rc = - EAGAIN \<and> hs_state s' = HTTP_SESSION_SEND_RESPONSE_BODY_BLOCKED \<and> polls s' = polls ?s1 + 1 \<and> length ws' < length ws"
        using Cons.IH [of ?s1] Cons.prems(1,2,3) by (auto simp: progress_Cons)
      have "sent s' @ drop (response_body_written s') h = sent s @ drop (response_body_written s) h" using r(5) d by simp
      moreover have "length h - response_body_written s' + writes (w # ws) \<le> length h - response_body_written s + writes ws'"
        using r(6) 2 True by simp
      moreover have "same_data s s'" using r(2) by (simp add: same_data_def)
      ultimately show ?thesis using l r(1,3,4,7) by auto
    qed
  qed
qed

text \<open>
  The handlers. Each call either finishes the session, closing its socket and freeing it once, or leaves it blocked and
  registered, with less to send or fewer answers left.
\<close>

definition blocked :: "'p http_session \<Rightarrow> bool" where
  "blocked s \<longleftrightarrow> hs_state s = HTTP_SESSION_SEND_RESPONSE_HEADER_BLOCKED \<or> hs_state s = HTTP_SESSION_SEND_RESPONSE_BODY_BLOCKED"

text \<open>What is still to be sent in a state of the response.\<close>

definition unsent :: "'p http_session \<Rightarrow> string" where
  "unsent s =
     (if hs_state s = HTTP_SESSION_SENT_RESPONSE_HEADER \<or> hs_state s = HTTP_SESSION_SEND_RESPONSE_BODY_BLOCKED
      then drop (response_body_written s) (buffer_of (response_body s))
      else drop (response_header_written s) (buffer_of (response_header s)) @ drop (response_body_written s) (buffer_of (response_body s)))"

definition handled :: "'p http_session \<Rightarrow> write_result list \<Rightarrow> 'p http_session \<Rightarrow> write_result list \<Rightarrow> bool" where
  "handled s ws s' ws' \<longleftrightarrow> progress ws' \<and>
     (sent s' = sent s @ unsent s \<and> finals s' = finals s @ [Close_Socket, Session_Free] \<and> polls s' = polls s \<or>
      blocked s' \<and> hs_socket s' = hs_socket s \<and> sent s' @ unsent s' = sent s @ unsent s \<and> finals s' = finals s \<and>
        polls s' = polls s + 1 \<and> length (unsent s') \<le> writes ws' \<and> length ws' < length ws)"

lemma close_free:
  assumes "hs_socket s > 2"
  shows "\<exists>s'. on_client_response_sent now s = Inr s' \<and> sent s' = sent s \<and> finals s' = finals s @ [Close_Socket, Session_Free] \<and> polls s' = polls s"
  using assms by (simp add: on_client_response_sent_def Let_def http_session_close_def tcp_session_close_def http_session_free_def
    http_session_deinit_def assertc_def)

lemma body_sending:
  assumes "progress ws" "hs_state s = HTTP_SESSION_SENT_RESPONSE_HEADER \<or> hs_state s = HTTP_SESSION_SEND_RESPONSE_BODY_BLOCKED"
    and "hs_socket s > 2" "length (unsent s) \<le> writes ws"
  shows "\<exists>s' ws'. on_client_response_body_sending now ws s = Inr (Some (s', ws')) \<and> handled s ws s' ws'"
proof -
  let ?b = "buffer_of (response_body s)" and ?s = "s\<lparr>hs_state := HTTP_SESSION_SENDING_RESPONSE_BODY\<rparr>"
  have u: "unsent s = drop (response_body_written s) ?b" using assms(2) by (auto simp: unsent_def)
  obtain rc s1 ws1 where r: "body_loop epoll_cb ws ?s = Inr (Some (rc, s1, ws1))" "same_data ?s s1" "progress ws1"
    "sent s1 @ drop (response_body_written s1) ?b = sent s @ drop (response_body_written s) ?b"
    "length ?b - response_body_written s1 + writes ws \<le> length ?b - response_body_written s + writes ws1"
    "rc = 0 \<and> length ?b \<le> response_body_written s1 \<and> polls s1 = polls s \<or>
     rc = - EAGAIN \<and> hs_state s1 = HTTP_SESSION_SEND_RESPONSE_BODY_BLOCKED \<and> polls s1 = polls s + 1 \<and> length ws1 < length ws"
    using body_loop_cases [of ws ?s ?b] assms(1,4) u by auto
  have e: "on_client_response_body_sending now ws s =
      (if rc = 0 then bindr (on_client_response_sent now s1) (\<lambda>s2. Inr (Some (s2, ws1)))
       else if rc = - EAGAIN then Inr (Some (s1, ws1))
       else bindr (http_session_close s1) (\<lambda>s2. Inr (Some (http_session_free s2, ws1))))"
    using r(1) assms(2) by (auto simp: on_client_response_body_sending_def http_session_send_response_body_def)
  from r(6) show ?thesis
  proof
    assume rc: "rc = 0 \<and> length ?b \<le> response_body_written s1 \<and> polls s1 = polls s"
    moreover obtain s2 where "on_client_response_sent now s1 = Inr s2" "sent s2 = sent s1"
        "finals s2 = finals s1 @ [Close_Socket, Session_Free]" "polls s2 = polls s1"
      using close_free [of s1 now] r(2) assms(3) by (auto simp: same_data_def)
    ultimately show ?thesis using e r(2-4) u by (auto simp: handled_def same_data_def)
  next
    assume rc: "rc = - EAGAIN \<and> hs_state s1 = HTTP_SESSION_SEND_RESPONSE_BODY_BLOCKED \<and> polls s1 = polls s + 1 \<and> length ws1 < length ws"
    then have "unsent s1 = drop (response_body_written s1) ?b" using r(2) by (simp add: unsent_def same_data_def)
    then show ?thesis using e rc r(2-5) u assms(4) by (auto simp: handled_def blocked_def same_data_def)
  qed
qed

lemma header_sending:
  assumes "progress ws" "hs_state s = HTTP_SESSION_EXECUTION_COMPLETE \<or> hs_state s = HTTP_SESSION_SEND_RESPONSE_HEADER_BLOCKED"
    and "hs_socket s > 2" "length (unsent s) \<le> writes ws"
  shows "\<exists>s' ws'. on_client_response_header_sending now ws s = Inr (Some (s', ws')) \<and> handled s ws s' ws'"
proof -
  let ?h = "buffer_of (response_header s)" and ?b = "buffer_of (response_body s)" and ?s = "s\<lparr>hs_state := HTTP_SESSION_SENDING_RESPONSE_HEADER\<rparr>"
  have u: "unsent s = drop (response_header_written s) ?h @ drop (response_body_written s) ?b" using assms(2) by (auto simp: unsent_def)
  obtain rc s1 ws1 where r: "header_loop epoll_cb ws ?s = Inr (Some (rc, s1, ws1))" "same_data ?s s1"
    "response_body_written s1 = response_body_written s" "progress ws1"
    "sent s1 @ drop (response_header_written s1) ?h = sent s @ drop (response_header_written s) ?h"
    "length ?h - response_header_written s1 + writes ws \<le> length ?h - response_header_written s + writes ws1"
    "rc = 0 \<and> hs_state s1 = HTTP_SESSION_SENT_RESPONSE_HEADER \<and> length ?h \<le> response_header_written s1 \<and> polls s1 = polls s \<and> length ws1 \<le> length ws \<or>
     rc = - EAGAIN \<and> hs_state s1 = HTTP_SESSION_SEND_RESPONSE_HEADER_BLOCKED \<and> polls s1 = polls s + 1 \<and> length ws1 < length ws"
    using header_loop_cases [of ws ?s ?h] assms(1,4) u by auto
  have e: "on_client_response_header_sending now ws s =
      (if rc = 0 then on_client_response_body_sending now ws1 s1
       else if rc = - EAGAIN then Inr (Some (s1, ws1))
       else bindr (http_session_close s1) (\<lambda>s2. Inr (Some (http_session_free s2, ws1))))"
    using r(1) assms(2) by (auto simp: on_client_response_header_sending_def http_session_send_response_header_def)
  from r(7) show ?thesis
  proof
    assume rc: "rc = 0 \<and> hs_state s1 = HTTP_SESSION_SENT_RESPONSE_HEADER \<and> length ?h \<le> response_header_written s1 \<and> polls s1 = polls s \<and> length ws1 \<le> length ws"
    then have u1: "unsent s1 = drop (response_body_written s) ?b" using r(2,3) by (simp add: unsent_def same_data_def)
    then have "sent s1 @ unsent s1 = sent s @ unsent s" using r(5) u rc by simp
    moreover have "length (unsent s1) \<le> writes ws1" using u u1 r(6) rc assms(4) by simp
    then obtain s2 ws2 where "on_client_response_body_sending now ws1 s1 = Inr (Some (s2, ws2))" "handled s1 ws1 s2 ws2"
      using body_sending [of ws1 s1 now] rc r(2,4) assms(3) by (auto simp: same_data_def)
    ultimately show ?thesis using e rc r(2) by (auto simp: handled_def same_data_def)
  next
    assume rc: "rc = - EAGAIN \<and> hs_state s1 = HTTP_SESSION_SEND_RESPONSE_HEADER_BLOCKED \<and> polls s1 = polls s + 1 \<and> length ws1 < length ws"
    then have u1: "unsent s1 = drop (response_header_written s1) ?h @ drop (response_body_written s) ?b"
      using r(2,3) by (simp add: unsent_def same_data_def)
    then have "sent s1 @ unsent s1 = sent s @ unsent s" using r(5) u by (metis append.assoc)
    moreover have "length (unsent s1) \<le> writes ws1" using u u1 r(6) assms(4) by simp
    ultimately show ?thesis using e rc r(2,4) by (auto simp: handled_def blocked_def same_data_def)
  qed
qed

end
