(* ===== verification/Wasi_Impl.thy ===== *)
theory Wasi_Impl
  imports Wasi_Serdes Wasm_Memory Http_Session
begin

text \<open>
  The WASI calls that the runtime implements for a function, runtime/src/libc/wasi_impl_serverless.c: the arguments and
  the environment, the clock, reading the body of the request from standard input, writing the body of the
  response to standard output or error, and random bytes. All other calls answer that they are not supported.
  A host pointer into linear memory is an index into its bytes. What the kernel and the C library answer is an
  argument of an operation.
\<close>

definition byte_of :: "char \<Rightarrow> u8" where
  "byte_of c = of_nat (of_char c)"

definition char_of_byte :: "u8 \<Rightarrow> char" where
  "char_of_byte b = char_of (unat b)"

definition WASI_ERRNO_FBIG :: u16 where "WASI_ERRNO_FBIG = 22"
definition WASI_ERRNO_INVAL :: u16 where "WASI_ERRNO_INVAL = 28"
definition WASI_ERRNO_BADF :: u16 where "WASI_ERRNO_BADF = 8"
definition WASI_ERRNO_NOTSUP :: u16 where "WASI_ERRNO_NOTSUP = 58"

definition wasi_unsupported_syscall :: u16 where
  "wasi_unsupported_syscall = WASI_ERRNO_NOTSUP"

text \<open>
  The error numbers of Linux in the order of the WASI error numbers 0 to 75 they are translated to.
\<close>

definition errno_table :: "nat list" where
  "errno_table = [
     0, 7, 13, 98, 99, 97, 11, 114, 9, 74, 16, 125, 10, 103, 111, 104, 35, 89, 33,
     122, 17, 14, 27, 113, 43, 84, 115, 4, 22, 5, 106, 21, 40, 24, 31, 90, 72, 36,
     100, 102, 101, 23, 105, 19, 2, 8, 37, 67, 12, 42, 92, 28, 38, 107, 20, 39, 131,
     88, 95, 25, 6, 75, 130, 1, 32, 71, 93, 91, 34, 30, 29, 3, 116, 110, 26, 18]"

definition wasi_fromerrno :: "nat \<Rightarrow> u16 res" where
  "wasi_fromerrno errno =
     (case find (\<lambda>i. errno_table ! i = errno) [0..<length errno_table] of
        Some i \<Rightarrow> Inr (of_nat i)
      | None \<Rightarrow> Inl Assertion_Failure)"

subsection \<open>Arguments and environment\<close>

text \<open>
  The entries of \<open>argv\<close> and \<open>env\<close> are pointers into the buffer with all strings, here their offsets. A string is
  the list of its characters before the terminating null byte. The sizes are 32-bit sums.
\<close>

record wasi_options =
  opt_argv :: "string list"
  opt_envp :: "string list"

record wasi_context =
  ctx_argc :: u32
  ctx_argv :: "u32 list"
  ctx_argv_buf :: "u8 list"
  ctx_argv_buf_size :: u32
  ctx_envc :: u32
  ctx_env :: "u32 list"
  ctx_env_buf :: "u8 list"
  ctx_env_buf_size :: u32

definition wasi_options_init :: wasi_options where
  "wasi_options_init = \<lparr>opt_argv = [], opt_envp = []\<rparr>"

fun buffer_offsets :: "u32 \<Rightarrow> string list \<Rightarrow> u32 list" where
  "buffer_offsets buf_size [] = []"
| "buffer_offsets buf_size (s # ss) = buf_size # buffer_offsets (buf_size + of_nat (length s + 1)) ss"

fun buffer_size :: "u32 \<Rightarrow> string list \<Rightarrow> u32" where
  "buffer_size buf_size [] = buf_size"
| "buffer_size buf_size (s # ss) = buffer_size (buf_size + of_nat (length s + 1)) ss"

text \<open>\<open>strncpy\<close> pads with null bytes, or cuts the string off.\<close>

definition strncpy_bytes :: "string \<Rightarrow> nat \<Rightarrow> u8 list" where
  "strncpy_bytes s n = map byte_of (take n s) @ replicate (n - length s) 0"

fun copy_strings :: "(string \<times> u32 \<times> nat) list \<Rightarrow> u8 list \<Rightarrow> u8 list res" where
  "copy_strings [] buf = Inr buf"
| "copy_strings ((s, offset, n) # rest) buf =
     (if unat offset + n \<le> length buf
      then copy_strings rest (take (unat offset) buf @ strncpy_bytes s n @ drop (unat offset + n) buf)
      else Inl Out_Of_Bounds)"

text \<open>The arguments tell which allocations succeed; the process exits when one of the buffers cannot be allocated.\<close>

record context_allocs =
  calloc_context :: bool
  calloc_argv :: bool
  calloc_argv_buf :: bool
  calloc_env :: bool
  calloc_env_buf :: bool

definition context_args :: "context_allocs \<Rightarrow> string list \<Rightarrow> (u32 list \<times> u8 list \<times> u32) res" where
  "context_args al args =
     (if args = [] then Inr ([], [], 0)
      else if \<not> calloc_argv al \<or> \<not> calloc_argv_buf al then Inl Panic
      else let offsets = buffer_offsets 0 args;
               argv_buf_size = buffer_size 0 args;
               ns = map (\<lambda>i. unat ((offsets @ [argv_buf_size]) ! (i + 1) - offsets ! i)) [0..<length args]
      in bindr (copy_strings (zip args (zip offsets ns)) (replicate (unat argv_buf_size) 0)) (\<lambda>buf.
         Inr (offsets, buf, argv_buf_size)))"

text \<open>The environment is copied with \<open>strcpy\<close>, each string with its terminator.\<close>

definition context_env :: "context_allocs \<Rightarrow> string list \<Rightarrow> (u32 list \<times> u8 list \<times> u32) res" where
  "context_env al envp =
     (if of_nat (length envp) = (0 :: u32) then Inr ([], [], 0)
      else if \<not> calloc_env al \<or> \<not> calloc_env_buf al then Inl Panic
      else let offsets = buffer_offsets 0 envp;
               env_buf_size = buffer_size 0 envp
      in bindr (copy_strings (zip envp (zip offsets (map (\<lambda>s. length s + 1) envp))) (replicate (unat env_buf_size) 0)) (\<lambda>buf.
         Inr (offsets, buf, env_buf_size)))"

definition wasi_context_init :: "context_allocs \<Rightarrow> wasi_options \<Rightarrow> wasi_context res" where
  "wasi_context_init al options =
     (if \<not> calloc_context al then Inl Null_Dereference
      else bindr (context_args al (opt_argv options)) (\<lambda>(argv, argv_buf, argv_buf_size).
           bindr (context_env al (opt_envp options)) (\<lambda>(env, env_buf, env_buf_size).
           Inr \<lparr>ctx_argc = of_nat (length (opt_argv options)), ctx_argv = argv, ctx_argv_buf = argv_buf,
                ctx_argv_buf_size = argv_buf_size, ctx_envc = of_nat (length (opt_envp options)), ctx_env = env,
                ctx_env_buf = env_buf, ctx_env_buf_size = env_buf_size\<rparr>)))"

text \<open>
  The strings are copied to index \<open>base\<close> of linear memory. The pointers for the caller are host pointers: into linear
  memory for the arguments, but into the buffer of the context for the environment.
\<close>

definition wasi_snapshot_preview1_backing_args_get ::
  "wasi_context option \<Rightarrow> byte_array \<Rightarrow> nat \<Rightarrow> u16 \<times> nat list \<times> byte_array" where
  "wasi_snapshot_preview1_backing_args_get context b base =
     (case context of
        None \<Rightarrow> (WASI_ERRNO_INVAL, [], b)
      | Some c \<Rightarrow>
          (WASI_ERRNO_SUCCESS, map (\<lambda>offset. base + unat offset) (take (unat (ctx_argc c)) (ctx_argv c)),
           if ctx_argc c > 0 then write_range b base (take (unat (ctx_argv_buf_size c)) (ctx_argv_buf c)) else b))"

definition wasi_snapshot_preview1_backing_args_sizes_get :: "wasi_context option \<Rightarrow> u16 \<times> (u32 \<times> u32) option" where
  "wasi_snapshot_preview1_backing_args_sizes_get context =
     (case context of
        None \<Rightarrow> (WASI_ERRNO_INVAL, None)
      | Some c \<Rightarrow> (WASI_ERRNO_SUCCESS, Some (ctx_argc c, ctx_argv_buf_size c)))"

definition wasi_snapshot_preview1_backing_environ_get ::
  "wasi_context option \<Rightarrow> byte_array \<Rightarrow> nat \<Rightarrow> u16 \<times> nat list \<times> byte_array" where
  "wasi_snapshot_preview1_backing_environ_get context b base =
     (case context of
        None \<Rightarrow> (WASI_ERRNO_INVAL, [], b)
      | Some c \<Rightarrow>
          (WASI_ERRNO_SUCCESS, map unat (take (unat (ctx_envc c)) (ctx_env c)),
           write_range b base (take (unat (ctx_env_buf_size c)) (ctx_env_buf c))))"

definition wasi_snapshot_preview1_backing_environ_sizes_get :: "wasi_context option \<Rightarrow> u16 \<times> (u32 \<times> u32) option" where
  "wasi_snapshot_preview1_backing_environ_sizes_get context =
     (case context of
        None \<Rightarrow> (WASI_ERRNO_INVAL, None)
      | Some c \<Rightarrow> (WASI_ERRNO_SUCCESS, Some (ctx_envc c, ctx_env_buf_size c)))"

subsection \<open>Clock\<close>

text \<open>\<open>clock_gettime\<close> answers with an error number, or with seconds and nanoseconds.\<close>

definition wasi_snapshot_preview1_backing_clock_time_get :: "nat + u64 \<times> u64 \<Rightarrow> (u16 \<times> u64 option) res" where
  "wasi_snapshot_preview1_backing_clock_time_get answer =
     (case answer of
        Inl errno \<Rightarrow> bindr (wasi_fromerrno errno) (\<lambda>rc. Inr (rc, None))
      | Inr (tv_sec, tv_nsec) \<Rightarrow> Inr (WASI_ERRNO_SUCCESS, Some (tv_sec * 1000000000 + tv_nsec)))"

subsection \<open>Standard streams\<close>

definition STDIN_FILENO :: u32 where "STDIN_FILENO = 0"
definition STDOUT_FILENO :: u32 where "STDOUT_FILENO = 1"
definition STDERR_FILENO :: u32 where "STDERR_FILENO = 2"

text \<open>
  The difference of the two \<open>int\<close> members is a 32-bit number, compared without sign to the length of a vector. A negative
  amount is a huge number of bytes for \<open>memcpy\<close>.
\<close>

definition bytes_to_read :: "http_request \<Rightarrow> u32" where
  "bytes_to_read r = of_nat (body_length r) - of_nat (req_cursor r)"

fun fd_read_loop :: "http_request \<Rightarrow> byte_array \<Rightarrow> iovec_t list \<Rightarrow> (http_request \<times> byte_array) res" where
  "fd_read_loop r b [] = Inr (r, b)"
| "fd_read_loop r b (v # vs) =
     (if bytes_to_read r = 0 then Inr (r, b)
      else let amount_to_copy = (if iov_buf_len v > bytes_to_read r then bytes_to_read r else iov_buf_len v)
      in if sint amount_to_copy < 0 then Inl Segfault
         else case (req_body r, iov_buf v) of
                (Some body, Some buf) \<Rightarrow>
                  if req_cursor r + unat amount_to_copy \<le> length body
                  then fd_read_loop (r\<lparr>req_cursor := req_cursor r + unat amount_to_copy\<rparr>)
                         (write_range b buf (map byte_of (take (unat amount_to_copy) (drop (req_cursor r) body)))) vs
                  else Inl Out_Of_Bounds
              | _ \<Rightarrow> Inl Null_Dereference)"

definition wasi_snapshot_preview1_backing_fd_read ::
  "u32 \<Rightarrow> iovec_t list \<Rightarrow> http_request \<Rightarrow> byte_array \<Rightarrow> (u16 \<times> u32 option \<times> http_request \<times> byte_array) res" where
  "wasi_snapshot_preview1_backing_fd_read fd iovs r b =
     (if fd = STDIN_FILENO
      then bindr (fd_read_loop r b iovs) (\<lambda>(r', b').
             Inr (WASI_ERRNO_SUCCESS, Some (of_nat (req_cursor r' - req_cursor r)), r', b'))
      else Inr (wasi_unsupported_syscall, None, r, b))"

text \<open>
  The body of the response is a stream in memory. \<open>room\<close> is the number of bytes it still takes before the C library
  runs out of memory; \<open>fwrite\<close> writes what it can and returns how much that was.
\<close>

fun fd_write_loop :: "nat \<Rightarrow> byte_array \<Rightarrow> string \<Rightarrow> u32 \<Rightarrow> iovec_t list \<Rightarrow> (u16 \<times> u32 option \<times> string) res" where
  "fd_write_loop room b out nwritten [] = Inr (WASI_ERRNO_SUCCESS, Some nwritten, out)"
| "fd_write_loop room b out nwritten (v # vs) =
     (case iov_buf v of
        None \<Rightarrow> Inl Null_Dereference
      | Some buf \<Rightarrow>
          let rc = min (unat (iov_buf_len v)) room;
              out' = out @ map char_of_byte (read_range b buf rc)
          in if rc \<noteq> unat (iov_buf_len v) then Inr (WASI_ERRNO_FBIG, None, out')
             else fd_write_loop (room - rc) b out' (nwritten + of_nat rc) vs)"

definition wasi_snapshot_preview1_backing_fd_write ::
  "nat \<Rightarrow> u32 \<Rightarrow> iovec_t list \<Rightarrow> byte_array \<Rightarrow> string \<Rightarrow> (u16 \<times> u32 option \<times> string) res" where
  "wasi_snapshot_preview1_backing_fd_write room fd iovs b out =
     (if fd = STDOUT_FILENO \<or> fd = STDERR_FILENO then fd_write_loop room b out 0 iovs
      else Inr (wasi_unsupported_syscall, None, out))"

definition wasi_snapshot_preview1_backing_fd_prestat_get :: u16 where
  "wasi_snapshot_preview1_backing_fd_prestat_get = WASI_ERRNO_BADF"

subsection \<open>Random bytes\<close>

text \<open>
  The loop over \<open>read\<close>, whose answers are a list: the bytes that were read, or an error. The result of \<open>read\<close> is kept in an
  unsigned variable, so an error is the largest number of 64 bits, the test for an error never holds, and
  every round reads into the start of the buffer. A read delivers at most as many bytes as were asked for. When
  the list is used up the loop has not returned yet.
\<close>

fun urandom_loop :: "u8 list \<Rightarrow> u64 \<Rightarrow> u8 list option list \<Rightarrow> u8 list option" where
  "urandom_loop buf nread answers =
     (if sint nread < int (length buf)
      then case answers of
             [] \<Rightarrow> None
           | Some bytes # rest \<Rightarrow>
               let bs = take (length buf) bytes in urandom_loop (bs @ drop (length bs) buf) (nread + of_nat (length bs)) rest
           | None # rest \<Rightarrow> urandom_loop buf (nread + (- 1)) rest
      else Some buf)"

text \<open>Without the device, \<open>randoms\<close> being what \<open>random\<close> returns: four bytes of each random number, and a remainder modulo 255 for each of the last bytes.\<close>

fun random_fill :: "nat \<Rightarrow> u32 list \<Rightarrow> u8 list option" where
  "random_fill n randoms =
     (if n = 0 then Some []
      else case randoms of
             [] \<Rightarrow> None
           | x # xs \<Rightarrow>
               if n \<ge> 4 then (case random_fill (n - 4) xs of None \<Rightarrow> None | Some bs \<Rightarrow> Some (le_bytes 4 x @ bs))
               else (case random_fill (n - 1) xs of None \<Rightarrow> None | Some bs \<Rightarrow> Some (of_nat (unat x mod 255) # bs)))"

text \<open>\<open>has_udev\<close> is a static variable, which stays false once the device could not be opened.\<close>

definition wasi_snapshot_preview1_backing_random_get ::
  "bool \<Rightarrow> bool \<Rightarrow> u8 list option list \<Rightarrow> u32 list \<Rightarrow> u8 list \<Rightarrow> (u16 \<times> u8 list \<times> bool) option" where
  "wasi_snapshot_preview1_backing_random_get has_udev open_ok answers randoms buf =
     (if has_udev \<and> open_ok
      then map_option (\<lambda>buf'. (WASI_ERRNO_SUCCESS, buf', has_udev)) (urandom_loop buf 0 answers)
      else map_option (\<lambda>buf'. (WASI_ERRNO_SUCCESS, buf', False)) (random_fill (length buf) randoms))"

subsection \<open>Bytes and characters\<close>

lemma char_of_byte_of [simp]: "char_of_byte (byte_of c) = c"
  by (simp add: char_of_byte_def byte_of_def unat_of_nat take_bit_nat_eq_self)

lemma byte_of_char_of [simp]: "byte_of (char_of_byte x) = x"
proof -
  have "unat x < 256" using unsigned_less [of x, where 'a = nat] by simp
  then show ?thesis by (simp add: char_of_byte_def byte_of_def)
qed

lemma map_char_of_byte_of [simp]: "map char_of_byte (map byte_of s) = s"
  by (simp add: o_def)

subsection \<open>The buffer of arguments\<close>

text \<open>The strings one after the other, each with its terminator.\<close>

definition packed :: "string list \<Rightarrow> u8 list" where
  "packed ss = concat (map (\<lambda>s. map byte_of s @ [0]) ss)"

definition strings_size :: "string list \<Rightarrow> nat" where
  "strings_size ss = sum_list (map (\<lambda>s. length s + 1) ss)"

lemma packed_simps [simp]: "packed [] = []" "packed (s # ss) = map byte_of s @ 0 # packed ss"
  by (simp_all add: packed_def)

lemma strings_size_simps [simp]: "strings_size [] = 0" "strings_size (s # ss) = length s + 1 + strings_size ss"
  by (simp_all add: strings_size_def)

lemma length_packed [simp]: "length (packed ss) = strings_size ss"
  by (induction ss) auto

lemma length_buffer_offsets [simp]: "length (buffer_offsets x ss) = length ss"
  by (induction ss arbitrary: x) auto

lemma buffer_size_eq: "buffer_size x ss = x + of_nat (strings_size ss)"
  by (induction ss arbitrary: x) (simp_all add: algebra_simps)

lemma buffer_offsets_nth: "i < length ss \<Longrightarrow> buffer_offsets x ss ! i = x + of_nat (strings_size (take i ss))"
proof (induction ss arbitrary: x i)
  case (Cons s ss)
  then show ?case by (cases i) (simp_all add: algebra_simps)
qed simp

lemma strings_size_append [simp]: "strings_size (xs @ ys) = strings_size xs + strings_size ys"
  by (induction xs) auto

lemma strings_size_take:
  assumes "i < length ss"
  shows "strings_size (take i ss) + length (ss ! i) + 1 + strings_size (drop (Suc i) ss) = strings_size ss"
  using arg_cong [OF id_take_nth_drop [OF assms], of strings_size] by simp

lemma strings_size_mono: "i \<le> length ss \<Longrightarrow> strings_size (take i ss) \<le> strings_size ss"
proof (induction ss arbitrary: i)
  case (Cons s ss)
  then show ?case by (cases i) auto
qed simp

lemma unat_of_nat_u32: "n < 2 ^ 32 \<Longrightarrow> unat (of_nat n :: u32) = n"
  by (simp add: unat_of_nat take_bit_nat_eq_self)

lemma packed_at:
  "i < length ss \<Longrightarrow> take (length (ss ! i) + 1) (drop (strings_size (take i ss)) (packed ss)) = map byte_of (ss ! i) @ [0]"
proof (induction ss arbitrary: i)
  case (Cons s ss)
  then show ?case by (cases i) auto
qed simp

lemma strncpy_bytes_whole [simp]: "strncpy_bytes s (Suc (length s)) = map byte_of s @ [0]"
  by (simp add: strncpy_bytes_def)

lemma copy_strings_packed:
  assumes "length pre + strings_size ss < 2 ^ 32"
  shows "copy_strings (zip ss (zip (buffer_offsets (of_nat (length pre)) ss) (map (\<lambda>s. length s + 1) ss)))
           (pre @ replicate (strings_size ss) 0) = Inr (pre @ packed ss)"
  using assms
proof (induction ss arbitrary: pre)
  case (Cons s ss)
  have u: "unat (of_nat (length pre) :: u32) = length pre" using Cons.prems by (intro unat_of_nat_u32) simp
  have "copy_strings (zip ss (zip (buffer_offsets (of_nat (length (pre @ map byte_of s @ [0]))) ss) (map (\<lambda>s. length s + 1) ss)))
      ((pre @ map byte_of s @ [0]) @ replicate (strings_size ss) 0) = Inr ((pre @ map byte_of s @ [0]) @ packed ss)"
    by (rule Cons.IH) (use Cons.prems in simp)
  then show ?case by (simp add: u add.assoc add.left_commute)
qed simp

lemma argument_lengths:
  assumes "strings_size ss < 2 ^ 32"
  shows "map (\<lambda>i. unat ((buffer_offsets 0 ss @ [buffer_size 0 ss]) ! (i + 1) - buffer_offsets 0 ss ! i)) [0..<length ss] =
    map (\<lambda>s. length s + 1) ss"
proof (rule nth_equalityI)
  fix i assume "i < length (map (\<lambda>i. unat ((buffer_offsets 0 ss @ [buffer_size 0 ss]) ! (i + 1) - buffer_offsets 0 ss ! i)) [0..<length ss])"
  then have i: "i < length ss" by simp
  have n: "(buffer_offsets 0 ss @ [buffer_size 0 ss]) ! (i + 1) = of_nat (strings_size (take (Suc i) ss))"
    using i by (cases "Suc i = length ss") (simp_all add: nth_append buffer_offsets_nth buffer_size_eq)
  have e: "strings_size (take (Suc i) ss) = strings_size (take i ss) + (length (ss ! i) + 1)"
    using i by (simp add: take_Suc_conv_app_nth strings_size_def)
  have "length (ss ! i) + 1 < 2 ^ 32" using strings_size_take [OF i] assms by simp
  moreover have "of_nat (strings_size (take (Suc i) ss)) - buffer_offsets 0 ss ! i = (of_nat (length (ss ! i) + 1) :: u32)"
    using i by (simp add: e buffer_offsets_nth)
  ultimately have "unat (of_nat (strings_size (take (Suc i) ss)) - buffer_offsets 0 ss ! i) = length (ss ! i) + 1"
    by (simp only: unat_of_nat_u32)
  then show "map (\<lambda>i. unat ((buffer_offsets 0 ss @ [buffer_size 0 ss]) ! (i + 1) - buffer_offsets 0 ss ! i)) [0..<length ss] ! i =
      map (\<lambda>s. length s + 1) ss ! i"
    using i n by simp
qed simp

lemma context_args_packed:
  assumes "calloc_argv al" "calloc_argv_buf al" "strings_size args < 2 ^ 32"
  shows "context_args al args = Inr (buffer_offsets 0 args, packed args, of_nat (strings_size args))"
  using assms copy_strings_packed [of "[]" args] argument_lengths [OF assms(3)]
  by (simp add: context_args_def Let_def buffer_size_eq unat_of_nat_u32)

lemma context_env_packed:
  assumes "calloc_env al" "calloc_env_buf al" "strings_size envp < 2 ^ 32"
  shows "context_env al envp = Inr (buffer_offsets 0 envp, packed envp, of_nat (strings_size envp))"
proof (cases "envp = []")
  case False
  have "length envp \<le> strings_size envp" by (induction envp) auto
  then have "length envp < 2 ^ 32" using assms(3) by simp
  then have "(of_nat (length envp) :: u32) \<noteq> 0" using False unat_of_nat_u32 by (metis length_0_conv unsigned_0)
  then show ?thesis
    using False assms copy_strings_packed [of "[]" envp] by (simp add: context_env_def Let_def buffer_size_eq unat_of_nat_u32)
qed (simp add: context_env_def)

lemma wasi_context_init_packed:
  assumes "calloc_context al" "calloc_argv al" "calloc_argv_buf al" "calloc_env al" "calloc_env_buf al"
    "strings_size (opt_argv opt) < 2 ^ 32" "strings_size (opt_envp opt) < 2 ^ 32"
  shows "wasi_context_init al opt = Inr
    \<lparr>ctx_argc = of_nat (length (opt_argv opt)), ctx_argv = buffer_offsets 0 (opt_argv opt), ctx_argv_buf = packed (opt_argv opt),
     ctx_argv_buf_size = of_nat (strings_size (opt_argv opt)), ctx_envc = of_nat (length (opt_envp opt)),
     ctx_env = buffer_offsets 0 (opt_envp opt), ctx_env_buf = packed (opt_envp opt),
     ctx_env_buf_size = of_nat (strings_size (opt_envp opt))\<rparr>"
  using assms by (simp add: wasi_context_init_def context_args_packed context_env_packed)

subsection \<open>Standard streams\<close>

definition iov_span :: "iovec_t \<Rightarrow> nat set" where
  "iov_span v = (case iov_buf v of None \<Rightarrow> {} | Some a \<Rightarrow> {a..<a + unat (iov_buf_len v)})"

definition iov_total :: "iovec_t list \<Rightarrow> nat" where
  "iov_total vs = sum_list (map (\<lambda>v. unat (iov_buf_len v)) vs)"

text \<open>The bytes the vectors cover, in the order of the vectors.\<close>

definition gather :: "byte_array \<Rightarrow> iovec_t list \<Rightarrow> u8 list" where
  "gather b vs = concat (map (\<lambda>v. read_range b (the (iov_buf v)) (unat (iov_buf_len v))) vs)"

definition iovs_disjoint :: "iovec_t list \<Rightarrow> bool" where
  "iovs_disjoint vs \<longleftrightarrow> sorted_wrt (\<lambda>v v'. iov_span v \<inter> iov_span v' = {}) vs"

definition pointers_set :: "iovec_t list \<Rightarrow> bool" where
  "pointers_set vs \<longleftrightarrow> (\<forall>v \<in> set vs. iov_buf v \<noteq> None)"

text \<open>A request whose body has arrived; its length is a number of type \<open>int\<close>.\<close>

definition body_arrived :: "http_request \<Rightarrow> string \<Rightarrow> bool" where
  "body_arrived r body \<longleftrightarrow> req_body r = Some body \<and> body_length r = length body \<and> length body < 2 ^ 31 \<and>
     req_cursor r \<le> length body"

lemma iov_simps [simp]:
  "iov_total [] = 0" "iov_total (v # vs) = unat (iov_buf_len v) + iov_total vs"
  "gather b [] = []" "gather b (v # vs) = read_range b (the (iov_buf v)) (unat (iov_buf_len v)) @ gather b vs"
  "iovs_disjoint []" "iovs_disjoint (v # vs) \<longleftrightarrow> (\<forall>v' \<in> set vs. iov_span v \<inter> iov_span v' = {}) \<and> iovs_disjoint vs"
  "pointers_set []" "pointers_set (v # vs) \<longleftrightarrow> iov_buf v \<noteq> None \<and> pointers_set vs"
  by (simp_all add: iov_total_def gather_def iovs_disjoint_def pointers_set_def)

lemma length_gather [simp]: "length (gather b vs) = iov_total vs"
  by (induction vs) (auto simp: read_range_def)

lemma write_range_same: "a \<notin> {p..<p + length xs} \<Longrightarrow> write_range b p xs a = b a"
  by (auto simp: write_range_def)

lemma read_write_prefix: "length xs \<le> n \<Longrightarrow> take (length xs) (read_range (write_range b p xs) p n) = xs"
  by (auto simp: read_range_def write_range_def intro!: nth_equalityI)

lemma read_range_same: "(\<And>a. a \<in> {p..<p + n} \<Longrightarrow> b a = b' a) \<Longrightarrow> read_range b p n = read_range b' p n"
  by (auto simp: read_range_def)

lemma unread_bytes:
  assumes "body_arrived r body"
  shows "unat (bytes_to_read r) = length body - req_cursor r" "bytes_to_read r = 0 \<longleftrightarrow> req_cursor r = length body"
    "x \<le> bytes_to_read r \<Longrightarrow> 0 \<le> sint x"
proof -
  have c: "req_cursor r \<le> body_length r" "body_length r < 2 ^ 31" "body_length r = length body"
    using assms by (simp_all add: body_arrived_def)
  have "bytes_to_read r = of_nat (body_length r - req_cursor r)" using c by (simp add: bytes_to_read_def of_nat_diff)
  moreover have "unat (of_nat (body_length r - req_cursor r) :: u32) = body_length r - req_cursor r"
    by (rule unat_of_nat_u32) (use c in simp)
  ultimately show u: "unat (bytes_to_read r) = length body - req_cursor r" using c by simp
  then show "bytes_to_read r = 0 \<longleftrightarrow> req_cursor r = length body" using c unat_eq_zero [of "bytes_to_read r"] by auto
  assume "x \<le> bytes_to_read r"
  then have "unat x < 2 ^ 31" using u c by (simp add: word_le_nat_alt)
  then have "\<not> bit (unat x) 31" by (simp add: bit_iff_odd)
  then show "0 \<le> sint x" using bit_last_iff [of x] by (simp add: bit_simps not_less)
qed

lemma gather_after_copy:
  assumes "iov_buf v = Some p" "length xs = k" "k \<le> unat (iov_buf_len v)" "k < unat (iov_buf_len v) \<Longrightarrow> m = 0"
    and same: "\<And>a. a \<in> iov_span v \<Longrightarrow> b' a = write_range b p xs a"
  shows "take (k + m) (gather b' (v # vs)) = xs @ take m (gather b' vs)"
proof -
  let ?l = "unat (iov_buf_len v)"
  have "read_range b' p ?l = read_range (write_range b p xs) p ?l"
    using same assms(1) by (intro read_range_same) (simp add: iov_span_def)
  then have "gather b' (v # vs) = read_range (write_range b p xs) p ?l @ gather b' vs" using assms(1) by simp
  then show ?thesis using assms(2-4) read_write_prefix [of xs ?l b p] by (cases "k = ?l") auto
qed

lemma fd_read_loop_ok:
  assumes "body_arrived r body" "pointers_set vs"
  shows "\<exists>b'. fd_read_loop r b vs = Inr (r\<lparr>req_cursor := req_cursor r + min (iov_total vs) (length body - req_cursor r)\<rparr>, b') \<and>
     (\<forall>a. a \<notin> (\<Union>v \<in> set vs. iov_span v) \<longrightarrow> b' a = b a) \<and>
     (iovs_disjoint vs \<longrightarrow> take (min (iov_total vs) (length body - req_cursor r)) (gather b' vs) =
        map byte_of (take (min (iov_total vs) (length body - req_cursor r)) (drop (req_cursor r) body)))"
  using assms
proof (induction vs arbitrary: r b)
  case (Cons v vs)
  note u = unread_bytes [OF Cons.prems(1)]
  obtain p where p: "iov_buf v = Some p" using Cons.prems(2) by auto
  define k where "k = (if iov_buf_len v > bytes_to_read r then bytes_to_read r else iov_buf_len v)"
  define c where "c = req_cursor r"
  define l where "l = unat (iov_buf_len v)"
  have k: "unat k = min l (length body - c)" "\<not> sint k < 0"
    using u(1) u(3) [of k] by (auto simp: k_def c_def l_def word_less_nat_alt word_le_nat_alt)
  have body: "req_body r = Some body" "c \<le> length body" using Cons.prems(1) by (simp_all add: body_arrived_def c_def)
  show ?case
  proof (cases "c = length body")
    case True
    then show ?thesis using u(2) by (simp add: c_def)
  next
    case False
    define xs where "xs = map byte_of (take (unat k) (drop c body))"
    have xs: "length xs = unat k" using k body by (simp add: xs_def)
    have "body_arrived (r\<lparr>req_cursor := c + unat k\<rparr>) body" "pointers_set vs"
      using Cons.prems k body by (auto simp: body_arrived_def)
    from Cons.IH [OF this, of "write_range b p xs"] obtain b' where b':
      "fd_read_loop (r\<lparr>req_cursor := c + unat k\<rparr>) (write_range b p xs) vs =
        Inr (r\<lparr>req_cursor := c + unat k + min (iov_total vs) (length body - (c + unat k))\<rparr>, b')"
      "\<forall>a. a \<notin> (\<Union>v \<in> set vs. iov_span v) \<longrightarrow> b' a = write_range b p xs a"
      "iovs_disjoint vs \<longrightarrow> take (min (iov_total vs) (length body - (c + unat k))) (gather b' vs) =
        map byte_of (take (min (iov_total vs) (length body - (c + unat k))) (drop (c + unat k) body))"
      by auto
    have n: "unat k + min (iov_total vs) (length body - (c + unat k)) = min (iov_total (v # vs)) (length body - c)"
      using k by (auto simp: l_def min_def)
    have "c + unat k \<le> length body" using k(1) body by simp
    then have "fd_read_loop r b (v # vs) = fd_read_loop (r\<lparr>req_cursor := c + unat k\<rparr>) (write_range b p xs) vs"
      using False u(2) k(2) body p by (simp add: Let_def c_def [symmetric] k_def [symmetric] xs_def [symmetric])
    then have run: "fd_read_loop r b (v # vs) = Inr (r\<lparr>req_cursor := c + min (iov_total (v # vs)) (length body - c)\<rparr>, b')"
      using b'(1) by (simp only: add.assoc n)
    have span: "iov_span v = {p..<p + l}" by (simp add: iov_span_def p l_def)
    have same: "b' a = b a" if "a \<notin> (\<Union>v \<in> set (v # vs). iov_span v)" for a
      using that b'(2) k xs span by (auto intro!: write_range_same)
    have "take (min (iov_total (v # vs)) (length body - c)) (gather b' (v # vs)) =
        map byte_of (take (min (iov_total (v # vs)) (length body - c)) (drop c body))" if d: "iovs_disjoint (v # vs)"
    proof -
      have "b' a = write_range b p xs a" if "a \<in> iov_span v" for a
        using that d b'(2) by (metis UN_iff disjoint_iff iov_simps(6))
      then have "take (unat k + min (iov_total vs) (length body - (c + unat k))) (gather b' (v # vs)) =
          xs @ take (min (iov_total vs) (length body - (c + unat k))) (gather b' vs)"
        using p xs k by (intro gather_after_copy) (auto simp: l_def)
      also have "\<dots> = map byte_of (take (unat k + min (iov_total vs) (length body - (c + unat k))) (drop c body))"
        using d b'(3) by (simp add: xs_def take_add add.commute)
      finally show ?thesis by (simp only: n)
    qed
    with run same show ?thesis by (simp add: c_def)
  qed
qed simp

lemma fd_write_loop_ok:
  assumes "pointers_set vs"
  shows "fd_write_loop room b out nwritten vs = Inr (
     if iov_total vs \<le> room then (WASI_ERRNO_SUCCESS, Some (nwritten + of_nat (iov_total vs)), out @ map char_of_byte (gather b vs))
     else (WASI_ERRNO_FBIG, None, out @ take room (map char_of_byte (gather b vs))))"
  using assms
proof (induction vs arbitrary: room out nwritten)
  case (Cons v vs)
  then obtain p where p: "iov_buf v = Some p" by auto
  have t: "read_range b p k = take k (read_range b p n)" if "k \<le> n" for k n
    using that by (simp add: read_range_def take_map)
  show ?case
  proof (cases "unat (iov_buf_len v) \<le> room")
    case True
    then show ?thesis using Cons p by (simp add: Let_def add.assoc min_absorb1 le_diff_conv2 add.commute take_map)
  next
    case False
    then show ?thesis using p t [of room "unat (iov_buf_len v)"] by (simp add: Let_def min_absorb2 take_map read_range_def)
  qed
qed simp

subsection \<open>Error numbers and random bytes\<close>

lemma errno_table_facts: "distinct errno_table" "length errno_table = 76"
  by (simp_all add: errno_table_def)

lemma find_index:
  assumes "distinct xs" "i < length xs"
  shows "find (\<lambda>j. xs ! j = xs ! i) [0..<length xs] = Some i"
  using assms by (auto simp: find_Some_iff nth_eq_iff_index_eq intro!: exI [of _ i])

lemma wasi_fromerrno_table: "i < 76 \<Longrightarrow> wasi_fromerrno (errno_table ! i) = Inr (of_nat i)"
  using find_index [OF errno_table_facts(1)] by (simp add: wasi_fromerrno_def errno_table_facts)

lemma wasi_fromerrno_unknown: "errno \<notin> set errno_table \<Longrightarrow> wasi_fromerrno errno = Inl Assertion_Failure"
  by (auto simp: wasi_fromerrno_def find_None_iff in_set_conv_nth split: option.splits dest!: find_Some_iff [THEN iffD1])

declare urandom_loop.simps [simp del] random_fill.simps [simp del]

lemma sint_of_int_small: "- (2 ^ 63) \<le> k \<Longrightarrow> k < 2 ^ 63 \<Longrightarrow> sint (of_int k :: u64) = k"
  by (simp add: sint_sbintrunc' signed_take_bit_int_eq_self)

lemma sint_of_nat: "n < 2 ^ 63 \<Longrightarrow> sint (of_nat n :: u64) = int n"
  using sint_of_int_small [of "int n"] by simp

lemma urandom_loop_read:
  assumes "n < length buf" "length buf < 2 ^ 32" "length bs \<le> length buf"
  shows "urandom_loop buf (of_nat n) (Some bs # rest) = urandom_loop (bs @ drop (length bs) buf) (of_nat (n + length bs)) rest"
  using assms by (subst urandom_loop.simps) (simp add: sint_of_nat)

lemma urandom_loop_done:
  assumes "length buf \<le> n" "n < 2 ^ 63"
  shows "urandom_loop buf (of_nat n) answers = Some buf"
  using assms by (subst urandom_loop.simps) (simp add: sint_of_nat)

lemma urandom_loop_errors:
  assumes "buf \<noteq> []" "m + k < 2 ^ 63"
  shows "urandom_loop buf (- of_nat m) (replicate k None) = None"
  using assms(2)
proof (induction k arbitrary: m)
  case 0
  have "0 < length buf" using assms(1) by simp
  then have "sint (- of_nat m :: u64) < int (length buf)" using "0.prems" sint_of_int_small [of "- int m"] by (simp del: length_greater_0_conv)
  then show ?case by (subst urandom_loop.simps) simp
next
  case (Suc k)
  have "0 < length buf" using assms(1) by simp
  then have "sint (- of_nat m :: u64) < int (length buf)" using Suc.prems sint_of_int_small [of "- int m"] by (simp del: length_greater_0_conv)
  moreover have "urandom_loop buf (- of_nat (Suc m)) (replicate k None) = None" using Suc.prems by (intro Suc.IH) simp
  ultimately show ?case by (subst urandom_loop.simps) (simp add: algebra_simps)
qed

lemma urandom_loop_length: "urandom_loop buf nread answers = Some buf' \<Longrightarrow> length buf' = length buf"
proof (induction answers arbitrary: buf nread)
  case Nil
  then show ?case by (simp add: urandom_loop.simps [of buf] split: if_splits)
next
  case (Cons x xs)
  show ?case
  proof (cases "sint nread < int (length buf)")
    case True
    then show ?thesis
      using Cons.prems Cons.IH by (cases x) (subst (asm) urandom_loop.simps, fastforce simp: Let_def min_def)+
  next
    case False
    then show ?thesis using Cons.prems by (simp add: urandom_loop.simps [of buf])
  qed
qed

lemma random_fill_exact: "random_fill n randoms = Some bs \<Longrightarrow> length bs = n"
proof (induction randoms arbitrary: n bs)
  case Nil
  then show ?case by (simp add: random_fill.simps [of n] split: if_splits)
next
  case (Cons x xs)
  then show ?case by (fastforce simp: random_fill.simps [of n] split: if_splits option.splits)
qed

lemma random_get_length:
  "wasi_snapshot_preview1_backing_random_get has_udev open_ok answers randoms buf = Some (rc, buf', u) \<Longrightarrow> length buf' = length buf"
  by (auto simp: wasi_snapshot_preview1_backing_random_get_def urandom_loop_length random_fill_exact split: if_splits)

lemma random_fill_length:
  "n \<le> length randoms \<Longrightarrow> \<exists>bs. random_fill n randoms = Some bs \<and> length bs = n"
proof (induction randoms arbitrary: n)
  case Nil
  then show ?case by (simp add: random_fill.simps)
next
  case (Cons x xs)
  have "n - 4 \<le> length xs" "n - 1 \<le> length xs" using Cons.prems by auto
  from Cons.IH [OF this(1)] Cons.IH [OF this(2)] show ?case
    by (cases "n = 0") (auto simp: random_fill.simps [of _ "x # xs"])
qed

subsection \<open>Properties\<close>



end
