(* ===== verification/Kv_Map.thy ===== *)
theory Kv_Map
  imports Sledge_Prelude
begin

text \<open>
  The key-value store of runtime/include/map.h: an array of buckets, each a linked list of nodes. A
  bucket is the list of its nodes from the head, a byte string is the list of its bytes, and a null
  pointer in place of a value is \<^const>\<open>None\<close>. The lock of a bucket serialises whole operations. Allocations
  through \<open>xmalloc\<close> stop the process when they fail; whether \<open>realloc\<close> succeeds is an argument.
\<close>

unbundle bit_operations_syntax

definition MAP_BUCKET_COUNT :: nat where
  "MAP_BUCKET_COUNT = 7907"

record map_node =
  node_key :: "u8 list"
  node_value :: "u8 list"
  node_hash :: u32

type_synonym map_store = "nat \<Rightarrow> map_node list"

definition map_init :: map_store where
  "map_init = (\<lambda>i. [])"

fun jenkins_loop :: "u32 \<Rightarrow> u8 list \<Rightarrow> u32" where
  "jenkins_loop hash [] = hash"
| "jenkins_loop hash (b # bs) =
     (let h1 = hash + ucast b;
          h2 = h1 + push_bit 10 h1;
          h3 = h2 XOR drop_bit 6 h2
      in jenkins_loop h3 bs)"

definition jenkins_hash :: "u8 list \<Rightarrow> u32" where
  "jenkins_hash key =
     (let hash = jenkins_loop 0 key;
          h1 = hash + push_bit 3 hash;
          h2 = h1 XOR drop_bit 11 h1
      in h2 + push_bit 15 h2)"

definition bucket_of :: "u32 \<Rightarrow> nat" where
  "bucket_of hash = unat hash mod MAP_BUCKET_COUNT"

fun find_node :: "u32 \<Rightarrow> map_node list \<Rightarrow> map_node option" where
  "find_node hash [] = None"
| "find_node hash (n # ns) = (if node_hash n = hash then Some n else find_node hash ns)"

definition map_get :: "map_store \<Rightarrow> u8 list \<Rightarrow> u8 list option" where
  "map_get m key =
     (let hash = jenkins_hash key
      in case find_node hash (m (bucket_of hash)) of None \<Rightarrow> None | Some n \<Rightarrow> Some (node_value n))"

definition map_set :: "map_store \<Rightarrow> u8 list \<Rightarrow> u8 list \<Rightarrow> bool \<times> map_store" where
  "map_set m key val =
     (let hash = jenkins_hash key;
          i = bucket_of hash
      in case find_node hash (m i) of
           Some n \<Rightarrow> (False, m)
         | None \<Rightarrow> (True, m(i := \<lparr>node_key = key, node_value = val, node_hash = hash\<rparr> # m i)))"

text \<open>
  Deletion looks at the head of the bucket, and otherwise unlinks the node after the head: the loop
  body has no test and leaves the loop at once.
\<close>

definition map_delete :: "map_store \<Rightarrow> u8 list \<Rightarrow> (bool \<times> map_store) res" where
  "map_delete m key =
     (let hash = jenkins_hash key;
          i = bucket_of hash
      in case m i of
           [] \<Rightarrow> Inl Null_Dereference
         | prev # rest \<Rightarrow>
             if node_hash prev = hash then Inr (True, m(i := rest))
             else case rest of
                    [] \<Rightarrow> Inr (False, m)
                  | node # rest' \<Rightarrow> Inr (True, m(i := prev # rest')))"

fun update_value :: "u32 \<Rightarrow> u8 list \<Rightarrow> map_node list \<Rightarrow> map_node list" where
  "update_value hash val [] = []"
| "update_value hash val (n # ns) =
     (if node_hash n = hash then n\<lparr>node_value := val\<rparr> # ns else n # update_value hash val ns)"

definition map_upsert :: "bool \<Rightarrow> map_store \<Rightarrow> u8 list \<Rightarrow> u8 list \<Rightarrow> map_store res" where
  "map_upsert realloc_ok m key val =
     (let hash = jenkins_hash key;
          i = bucket_of hash
      in case find_node hash (m i) of
           Some n \<Rightarrow> assertc realloc_ok (Inr (m(i := update_value hash val (m i))))
         | None \<Rightarrow> Inr (m(i := \<lparr>node_key = key, node_value = val, node_hash = hash\<rparr> # m i)))"

text \<open>The sequences of writes a client makes, on the store and on a map from hashes.\<close>

datatype kv_write = Set "u8 list" "u8 list" | Upsert "u8 list" "u8 list"

fun write_key :: "kv_write \<Rightarrow> u8 list" where
  "write_key (Set k v) = k"
| "write_key (Upsert k v) = k"

fun run_write :: "kv_write \<Rightarrow> map_store \<Rightarrow> map_store res" where
  "run_write (Set k v) m = Inr (snd (map_set m k v))"
| "run_write (Upsert k v) m = map_upsert True m k v"

fun run_writes :: "kv_write list \<Rightarrow> map_store \<Rightarrow> map_store res" where
  "run_writes [] m = Inr m"
| "run_writes (w # ws) m = bindr (run_write w m) (run_writes ws)"

fun spec_write :: "kv_write \<Rightarrow> (u8 list \<rightharpoonup> u8 list) \<Rightarrow> (u8 list \<rightharpoonup> u8 list)" where
  "spec_write (Set k v) f = (if f k = None then f(k \<mapsto> v) else f)"
| "spec_write (Upsert k v) f = f(k \<mapsto> v)"

definition spec_writes :: "kv_write list \<Rightarrow> (u8 list \<rightharpoonup> u8 list)" where
  "spec_writes ws = foldl (\<lambda>f w. spec_write w f) Map.empty ws"

subsection \<open>The contract of a hashed store\<close>

text \<open>
  A store that is written and read through the hash of the key alone: a write makes the keys with that
  hash read the new value, and leaves every other key as it was. On a set of keys without
  collisions such a store is a map.
\<close>

locale hashed_store =
  fixes hash :: "'k \<Rightarrow> 'h"
    and lookup :: "'m \<Rightarrow> 'k \<Rightarrow> 'v option"
    and create :: "'m \<Rightarrow> 'k \<Rightarrow> 'v \<Rightarrow> bool \<times> 'm"
    and put :: "'m \<Rightarrow> 'k \<Rightarrow> 'v \<Rightarrow> 'm res"
  assumes create_new: "lookup m k = None \<Longrightarrow> \<exists>m'. create m k v = (True, m') \<and>
      (\<forall>k'. lookup m' k' = (if hash k' = hash k then Some v else lookup m k'))"
    and create_old: "lookup m k \<noteq> None \<Longrightarrow> create m k v = (False, m)"
    and put_law: "\<exists>m'. put m k v = Inr m' \<and> (\<forall>k'. lookup m' k' = (if hash k' = hash k then Some v else lookup m k'))"
begin

lemma create_on:
  assumes "inj_on hash K" "k \<in> K" "\<forall>x\<in>K. lookup m x = f x"
  shows "\<forall>x\<in>K. lookup (snd (create m k v)) x = (if f k = None then f(k \<mapsto> v) else f) x"
proof (cases "lookup m k = None")
  case True
  then obtain m' where "create m k v = (True, m')" "\<forall>k'. lookup m' k' = (if hash k' = hash k then Some v else lookup m k')"
    using create_new by blast
  then show ?thesis using assms True by (auto simp: inj_on_def)
next
  case False
  then show ?thesis using create_old [OF False, of v] assms by auto
qed

lemma put_on:
  assumes "inj_on hash K" "k \<in> K" "\<forall>x\<in>K. lookup m x = f x"
  shows "\<exists>m'. put m k v = Inr m' \<and> (\<forall>x\<in>K. lookup m' x = (f(k \<mapsto> v)) x)"
  using put_law [of m k v] assms by (auto simp: inj_on_def)

end

lemma find_update_value:
  "find_node h (update_value h' v ns) =
     (if h = h' then map_option (\<lambda>n. n\<lparr>node_value := v\<rparr>) (find_node h ns) else find_node h ns)"
  by (induction ns) auto

interpretation store: hashed_store jenkins_hash map_get map_set "map_upsert True"
proof
  fix m :: map_store and k v
  let ?n = "\<lparr>node_key = k, node_value = v, node_hash = jenkins_hash k\<rparr>" and ?i = "bucket_of (jenkins_hash k)"
  have cons: "map_get (m(?i := ?n # m ?i)) k' = (if jenkins_hash k' = jenkins_hash k then Some v else map_get m k')" for k'
    by (auto simp: map_get_def Let_def)
  show "\<exists>m'. map_set m k v = (True, m') \<and>
      (\<forall>k'. map_get m' k' = (if jenkins_hash k' = jenkins_hash k then Some v else map_get m k'))" if "map_get m k = None"
    using that cons by (auto simp: map_set_def map_get_def Let_def split: option.splits)
  show "map_set m k v = (False, m)" if "map_get m k \<noteq> None"
    using that by (auto simp: map_set_def map_get_def Let_def split: option.splits)
  show "\<exists>m'. map_upsert True m k v = Inr m' \<and>
      (\<forall>k'. map_get m' k' = (if jenkins_hash k' = jenkins_hash k then Some v else map_get m k'))"
  proof (cases "find_node (jenkins_hash k) (m ?i)")
    case None
    then show ?thesis using cons by (simp add: map_upsert_def Let_def)
  next
    case (Some n)
    then show ?thesis by (auto simp: map_upsert_def map_get_def Let_def find_update_value)
  qed
qed

lemma run_writes_on:
  assumes "inj_on jenkins_hash K" "\<forall>w\<in>set ws. write_key w \<in> K" "\<forall>x\<in>K. map_get m x = f x"
  shows "\<exists>m'. run_writes ws m = Inr m' \<and> (\<forall>x\<in>K. map_get m' x = foldl (\<lambda>f w. spec_write w f) f ws x)"
  using assms(2,3)
proof (induction ws arbitrary: m f)
  case Nil
  then show ?case by simp
next
  case (Cons w ws)
  have "\<exists>m1. run_write w m = Inr m1 \<and> (\<forall>x\<in>K. map_get m1 x = spec_write w f x)"
  proof (cases w)
    case (Set k v)
    then show ?thesis using store.create_on [OF assms(1), of k m f v] Cons.prems by simp
  next
    case (Upsert k v)
    then show ?thesis using store.put_on [OF assms(1), of k m f v] Cons.prems by simp
  qed
  then obtain m1 where m1: "run_write w m = Inr m1" "\<forall>x\<in>K. map_get m1 x = spec_write w f x" by blast
  show ?case using Cons.IH [OF _ m1(2)] Cons.prems(1) m1(1) by simp
qed





end
