(* ===== verification/Wasm_Globals.thy ===== *)
theory Wasm_Globals
  imports Sledge_Prelude
begin

text \<open>
  The growable vector of runtime/include/vec.h and the WebAssembly globals that
  runtime/include/wasm_globals.h keeps in such a vector. A backing buffer is a list, null is \<^const>\<open>None\<close>; whether an
  allocation succeeds and what \<open>realloc\<close> leaves in new elements are arguments.
\<close>

record 'a vec =
  vec_length :: u64
  vec_capacity :: u64
  vec_buffer :: "'a list option"

definition vec_init :: "bool \<Rightarrow> 'a \<Rightarrow> u64 \<Rightarrow> 'a vec \<Rightarrow> int \<times> 'a vec" where
  "vec_init calloc_ok zero capacity v =
     (if capacity = 0 then (0, \<lparr>vec_length = 0, vec_capacity = capacity, vec_buffer = None\<rparr>)
      else if \<not> calloc_ok then (- 1, v\<lparr>vec_buffer := None\<rparr>)
      else (0, \<lparr>vec_length = 0, vec_capacity = capacity, vec_buffer = Some (replicate (unat capacity) zero)\<rparr>))"

definition vec_deinit :: "'a vec \<Rightarrow> 'a vec res" where
  "vec_deinit v =
     (if vec_capacity v = 0 then assertc (vec_buffer v = None) (assertc (vec_length v = 0) (Inr v))
      else assertc (vec_buffer v \<noteq> None) (Inr \<lparr>vec_length = 0, vec_capacity = 0, vec_buffer = None\<rparr>))"

definition vec_free :: "'a vec \<Rightarrow> unit res" where
  "vec_free v = bindr (vec_deinit v) (\<lambda>_. Inr ())"

definition vec_alloc :: "bool \<Rightarrow> bool \<Rightarrow> 'a \<Rightarrow> u64 \<Rightarrow> 'a vec option res" where
  "vec_alloc struct_ok calloc_ok zero capacity =
     (if \<not> struct_ok then Inr None
      else case vec_init calloc_ok zero capacity \<lparr>vec_length = 0, vec_capacity = 0, vec_buffer = None\<rparr> of
             (rc, v) \<Rightarrow> if rc < 0 then bindr (vec_free v) (\<lambda>_. Inr None) else Inr (Some v))"

definition vec_resize :: "bool \<Rightarrow> 'a list \<Rightarrow> 'a vec \<Rightarrow> u64 \<Rightarrow> int \<times> 'a vec" where
  "vec_resize realloc_ok fresh v capacity =
     (if vec_capacity v \<noteq> capacity
      then if \<not> realloc_ok then (- 1, v)
           else let old = (case vec_buffer v of None \<Rightarrow> [] | Some b \<Rightarrow> b)
                in (0, v\<lparr>vec_buffer := Some (take (unat capacity) (old @ fresh)), vec_capacity := capacity\<rparr>)
      else (0, v))"

definition vec_grow :: "bool \<Rightarrow> 'a list \<Rightarrow> 'a vec \<Rightarrow> int \<times> 'a vec" where
  "vec_grow realloc_ok fresh v =
     vec_resize realloc_ok fresh v (if vec_capacity v = 0 then 1 else vec_capacity v * 2)"

text \<open>Storing an element in the backing buffer.\<close>

definition vec_put :: "'a vec \<Rightarrow> nat \<Rightarrow> 'a \<Rightarrow> 'a vec res" where
  "vec_put v i x =
     (case vec_buffer v of
        None \<Rightarrow> Inl Null_Dereference
      | Some b \<Rightarrow> if i < length b then Inr (v\<lparr>vec_buffer := Some (b[i := x])\<rparr>) else Inl Out_Of_Bounds)"

definition vec_insert :: "bool \<Rightarrow> 'a list \<Rightarrow> 'a vec \<Rightarrow> u32 \<Rightarrow> 'a \<Rightarrow> (int \<times> 'a vec) res" where
  "vec_insert realloc_ok fresh v idx x =
     (case (if vec_length v = vec_capacity v then vec_grow realloc_ok fresh v else (0, v)) of
        (rc, v1) \<Rightarrow> if rc \<noteq> 0 then Inr (- 1, v1) else bindr (vec_put v1 (unat idx) x) (\<lambda>v2. Inr (0, v2)))"

text \<open>The pointer that \<open>vec_get\<close> returns is the index of the element, or null.\<close>

definition vec_get :: "'a vec \<Rightarrow> u32 \<Rightarrow> nat option" where
  "vec_get v idx = (if ucast idx \<ge> vec_capacity v then None else Some (unat idx))"

definition vec_push :: "bool \<Rightarrow> 'a list \<Rightarrow> 'a vec \<Rightarrow> 'a \<Rightarrow> (int \<times> 'a vec) res" where
  "vec_push realloc_ok fresh v x =
     (case (if vec_length v = vec_capacity v then vec_grow realloc_ok fresh v else (0, v)) of
        (rc, v1) \<Rightarrow> if rc \<noteq> 0 then Inr (- 1, v1)
          else bindr (vec_put v1 (unat (vec_length v1)) x) (\<lambda>v2. Inr (0, v2\<lparr>vec_length := vec_length v2 + 1\<rparr>)))"

text \<open>Reading through the pointer.\<close>

definition vec_deref :: "'a vec \<Rightarrow> nat option \<Rightarrow> 'a res" where
  "vec_deref v p =
     (case p of
        None \<Rightarrow> Inl Null_Dereference
      | Some i \<Rightarrow> (case vec_buffer v of
          None \<Rightarrow> Inl Null_Dereference
        | Some b \<Rightarrow> if i < length b then Inr (b ! i) else Inl Out_Of_Bounds))"

subsection \<open>wasm_globals.h\<close>

datatype wasm_global_type = WASM_GLOBAL_TYPE_UNUSED | WASM_GLOBAL_TYPE_I32 | WASM_GLOBAL_TYPE_I64

text \<open>
  The value is the eight bytes of \<open>union wasm_global_value\<close>: the member \<open>i64\<close> is all of them, the member
  \<open>i32\<close> the lower four.
\<close>

record wasm_global =
  global_type :: wasm_global_type
  global_mut :: bool
  global_value :: u64

definition zero_global :: wasm_global where
  "zero_global = \<lparr>global_type = WASM_GLOBAL_TYPE_UNUSED, global_mut = False, global_value = 0\<rparr>"

text \<open>
  The initialiser \<open>.value = value\<close> names the union and not a member, so C initialises the first member, \<open>i32\<close>,
  and converts the value to 32 bits. The upper four bytes of the union get the value of padding,
  which the language leaves open: it is the argument \<open>pad\<close>.
\<close>

definition union_of :: "u32 \<Rightarrow> u32 \<Rightarrow> u64" where
  "union_of pad i32 = word_cat pad i32"

definition wasm_globals_init :: "bool \<Rightarrow> u32 \<Rightarrow> wasm_global vec \<Rightarrow> int \<times> wasm_global vec" where
  "wasm_globals_init calloc_ok capacity globals = vec_init calloc_ok zero_global (ucast capacity) globals"

definition wasm_globals_deinit :: "wasm_global vec \<Rightarrow> wasm_global vec res" where
  "wasm_globals_deinit globals = vec_deinit globals"

definition wasm_globals_update_if_used :: "wasm_global vec \<Rightarrow> u32 \<Rightarrow> u64 \<Rightarrow> u64 res" where
  "wasm_globals_update_if_used globals idx dest =
     bindr (vec_deref globals (vec_get globals idx)) (\<lambda>g.
       Inr (if global_type g \<noteq> WASM_GLOBAL_TYPE_UNUSED then global_value g else dest))"

text \<open>The result code and the value written through the return pointer, if any.\<close>

definition wasm_globals_get_i32 :: "wasm_global vec \<Rightarrow> u32 \<Rightarrow> (int \<times> u32 option) res" where
  "wasm_globals_get_i32 globals idx =
     (case vec_get globals idx of
        None \<Rightarrow> Inr (- 1, None)
      | Some i \<Rightarrow> bindr (vec_deref globals (Some i)) (\<lambda>g.
          Inr (if global_type g \<noteq> WASM_GLOBAL_TYPE_I32 then (- 2, None) else (0, Some (ucast (global_value g))))))"

definition wasm_globals_get_i64 :: "wasm_global vec \<Rightarrow> u32 \<Rightarrow> (int \<times> u64 option) res" where
  "wasm_globals_get_i64 globals idx =
     (case vec_get globals idx of
        None \<Rightarrow> Inr (- 1, None)
      | Some i \<Rightarrow> bindr (vec_deref globals (Some i)) (\<lambda>g.
          Inr (if global_type g \<noteq> WASM_GLOBAL_TYPE_I64 then (- 2, None) else (0, Some (global_value g)))))"

definition wasm_globals_set_i32 ::
  "bool \<Rightarrow> wasm_global list \<Rightarrow> u32 \<Rightarrow> wasm_global vec \<Rightarrow> u32 \<Rightarrow> u32 \<Rightarrow> bool \<Rightarrow> (int \<times> wasm_global vec) res" where
  "wasm_globals_set_i32 realloc_ok fresh pad globals idx x is_mutable =
     bindr (vec_deref globals (vec_get globals idx)) (\<lambda>current.
       if global_type current \<noteq> WASM_GLOBAL_TYPE_UNUSED \<and> \<not> global_mut current then Inr (- 2, globals)
       else vec_insert realloc_ok fresh globals idx
         \<lparr>global_type = WASM_GLOBAL_TYPE_I32, global_mut = is_mutable, global_value = union_of pad x\<rparr>)"

definition wasm_globals_set_i64 ::
  "bool \<Rightarrow> wasm_global list \<Rightarrow> u32 \<Rightarrow> wasm_global vec \<Rightarrow> u32 \<Rightarrow> u64 \<Rightarrow> bool \<Rightarrow> (int \<times> wasm_global vec) res" where
  "wasm_globals_set_i64 realloc_ok fresh pad globals idx x is_mutable =
     bindr (vec_deref globals (vec_get globals idx)) (\<lambda>current.
       if global_type current \<noteq> WASM_GLOBAL_TYPE_UNUSED \<and> \<not> global_mut current then Inr (- 2, globals)
       else vec_insert realloc_ok fresh globals idx
         \<lparr>global_type = WASM_GLOBAL_TYPE_I64, global_mut = is_mutable, global_value = union_of pad (ucast x)\<rparr>)"

subsection \<open>Vectors as lists\<close>

text \<open>The backing buffer has the recorded capacity, and the length does not exceed it.\<close>

definition vec_ok :: "'a vec \<Rightarrow> bool" where
  "vec_ok v \<longleftrightarrow> vec_length v \<le> vec_capacity v \<and>
     (case vec_buffer v of None \<Rightarrow> vec_capacity v = 0 | Some b \<Rightarrow> 0 < vec_capacity v \<and> length b = unat (vec_capacity v))"

text \<open>The elements that were pushed.\<close>

definition vec_list :: "'a vec \<Rightarrow> 'a list" where
  "vec_list v = (case vec_buffer v of None \<Rightarrow> [] | Some b \<Rightarrow> take (unat (vec_length v)) b)"

lemma vec_init_ok: "\<exists>v'. vec_init True z c v = (0, v') \<and> vec_ok v' \<and> vec_list v' = [] \<and> vec_capacity v' = c"
  by (auto simp: vec_init_def vec_ok_def vec_list_def word_gt_0)

lemma vec_deinit_ok: "vec_ok v \<Longrightarrow> vec_deinit v = Inr \<lparr>vec_length = 0, vec_capacity = 0, vec_buffer = None\<rparr>"
  by (cases v) (auto simp: vec_ok_def vec_deinit_def assertc_def split: option.splits)

text \<open>A vector below half of the address space can double.\<close>

lemma vec_grow_ok:
  assumes "vec_ok v" "unat (vec_capacity v) < 2 ^ 63" "unat (vec_capacity v) < length fresh"
  shows "\<exists>v'. vec_grow True fresh v = (0, v') \<and> vec_ok v' \<and> vec_list v' = vec_list v \<and>
    vec_length v' = vec_length v \<and> vec_capacity v < vec_capacity v'"
proof -
  let ?c = "if vec_capacity v = 0 then 1 else vec_capacity v * 2"
  have d: "unat (vec_capacity v * 2) = unat (vec_capacity v) * 2" using assms(2) by (simp add: unat_word_ariths)
  have c: "vec_capacity v < ?c" "unat ?c \<le> unat (vec_capacity v) + length fresh"
    using assms(3) d by (auto simp: word_less_nat_alt unat_gt_0)
  have "unat (vec_length v) \<le> unat (vec_capacity v)" using assms(1) by (simp add: vec_ok_def word_le_nat_alt)
  then show ?thesis
    using assms(1) c by (cases "vec_buffer v")
      (auto simp: vec_grow_def vec_resize_def vec_ok_def vec_list_def Let_def min_def word_le_nat_alt word_less_nat_alt)
qed

lemma vec_put_ok:
  "\<lbrakk>vec_ok v; i < unat (vec_capacity v)\<rbrakk> \<Longrightarrow>
    \<exists>b. vec_buffer v = Some b \<and> length b = unat (vec_capacity v) \<and> vec_put v i x = Inr (v\<lparr>vec_buffer := Some (b[i := x])\<rparr>)"
  by (auto simp: vec_ok_def vec_put_def split: option.splits)

lemma vec_push_ok:
  assumes "vec_ok v" "unat (vec_capacity v) < 2 ^ 63" "unat (vec_capacity v) < length fresh"
  shows "\<exists>v'. vec_push True fresh v x = Inr (0, v') \<and> vec_ok v' \<and> vec_list v' = vec_list v @ [x]"
proof -
  have room: "\<exists>v'. vec_push True fresh v x = Inr (0, v') \<and> vec_ok v' \<and> vec_list v' = vec_list v1 @ [x]"
    if v1: "(if vec_length v = vec_capacity v then vec_grow True fresh v else (0, v)) = (0, v1)"
      and ok: "vec_ok v1" and less: "vec_length v1 < vec_capacity v1" for v1
  proof -
    obtain b where b: "vec_buffer v1 = Some b" "length b = unat (vec_capacity v1)"
      "vec_put v1 (unat (vec_length v1)) x = Inr (v1\<lparr>vec_buffer := Some (b[unat (vec_length v1) := x])\<rparr>)"
      using vec_put_ok [OF ok] less by (force simp: word_less_nat_alt)
    have s: "unat (vec_length v1 + 1) = Suc (unat (vec_length v1))"
      using less unsigned_less [of "vec_capacity v1", where ?'a = nat] by (simp add: unat_word_ariths word_less_nat_alt)
    then have "vec_length v1 + 1 \<le> vec_capacity v1" using less by (simp add: word_le_nat_alt word_less_nat_alt)
    moreover have "take (Suc (unat (vec_length v1))) (b[unat (vec_length v1) := x]) = take (unat (vec_length v1)) b @ [x]"
      using less b(2) by (simp add: take_Suc_conv_app_nth word_less_nat_alt)
    ultimately show ?thesis using v1 b s ok by (auto simp: vec_push_def vec_ok_def vec_list_def)
  qed
  show ?thesis
  proof (cases "vec_length v = vec_capacity v")
    case True
    then obtain v1 where v1: "vec_grow True fresh v = (0, v1)" "vec_ok v1" "vec_list v1 = vec_list v" "vec_length v1 < vec_capacity v1"
      using vec_grow_ok [OF assms] by auto
    then show ?thesis using room [of v1] True by simp
  next
    case False
    then have "vec_length v < vec_capacity v" using assms(1) by (simp add: vec_ok_def order_le_neq_trans)
    then show ?thesis using room [of v] False assms(1) by simp
  qed
qed

subsection \<open>Globals\<close>

text \<open>The globals of a sandbox: their number is fixed and nothing is pushed.\<close>

definition globals_ok :: "wasm_global vec \<Rightarrow> bool" where
  "globals_ok g \<longleftrightarrow> vec_ok g \<and> vec_length g = 0"

definition global_at :: "wasm_global vec \<Rightarrow> u32 \<Rightarrow> wasm_global" where
  "global_at g idx = (case vec_buffer g of None \<Rightarrow> zero_global | Some b \<Rightarrow> b ! unat idx)"

definition writable :: "wasm_global \<Rightarrow> bool" where
  "writable x \<longleftrightarrow> global_type x = WASM_GLOBAL_TYPE_UNUSED \<or> global_mut x"

lemma vec_get_ok: "vec_get g idx = (if unat idx < unat (vec_capacity g) then Some (unat idx) else None)"
  by (simp add: vec_get_def word_le_nat_alt )

lemma global_deref:
  "\<lbrakk>globals_ok g; unat idx < unat (vec_capacity g)\<rbrakk> \<Longrightarrow> vec_deref g (Some (unat idx)) = Inr (global_at g idx)"
  by (auto simp: globals_ok_def vec_ok_def vec_deref_def global_at_def split: option.splits)

lemma global_insert:
  assumes "globals_ok g" "unat idx < unat (vec_capacity g)"
  shows "\<exists>g'. vec_insert ok fresh g idx x = Inr (0, g') \<and> globals_ok g' \<and> vec_capacity g' = vec_capacity g \<and>
    global_at g' idx = x \<and> (\<forall>j. j \<noteq> idx \<longrightarrow> global_at g' j = global_at g j)"
proof -
  have ok: "vec_ok g" "vec_length g = 0" using assms(1) by (auto simp: globals_ok_def)
  obtain b where b: "vec_buffer g = Some b" "length b = unat (vec_capacity g)"
    "vec_put g (unat idx) x = Inr (g\<lparr>vec_buffer := Some (b[unat idx := x])\<rparr>)"
    using vec_put_ok [OF ok(1) assms(2)] by blast
  have "vec_length g \<noteq> vec_capacity g" using ok(2) assms(2) by auto
  then have "vec_insert ok fresh g idx x = Inr (0, g\<lparr>vec_buffer := Some (b[unat idx := x])\<rparr>)"
    using b by (simp add: vec_insert_def)
  then show ?thesis
    using ok b assms(2) by (auto simp: globals_ok_def vec_ok_def global_at_def nth_list_update word_unat_eq_iff word_le_nat_alt)
qed

lemma union_of_low: "ucast (union_of pad x) = x"
  by (rule bit_word_eqI) (simp add: union_of_def bit_simps bit_word_cat_iff)

lemma union_of_high: "drop_bit 32 (union_of pad x) = ucast pad"
  by (rule bit_word_eqI) (auto simp: union_of_def bit_simps bit_word_cat_iff dest: bit_imp_le_length)

lemma union_of_eq_iff: "union_of pad (ucast x) = x \<longleftrightarrow> drop_bit 32 x = ucast pad"
proof
  assume h: "drop_bit 32 x = ucast pad"
  show "union_of pad (ucast x) = x"
  proof (rule bit_word_eqI)
    fix n assume "n < LENGTH(64)"
    then have n: "n < 64" "n - 32 < 64" by simp_all
    then have "n \<ge> 32 \<Longrightarrow> bit x n = bit pad (n - 32)"
      using arg_cong [OF h, of "\<lambda>w. bit w (n - 32)"] by (simp add: bit_simps)
    then show "bit (union_of pad (ucast x)) n = bit x n"
      using n by (cases "n < 32") (simp_all add: union_of_def bit_simps bit_word_cat_iff)
  qed
qed (metis union_of_high)

lemma get_global:
  assumes "globals_ok g" "unat idx < unat (vec_capacity g)"
  shows "wasm_globals_get_i32 g idx = Inr (if global_type (global_at g idx) = WASM_GLOBAL_TYPE_I32 then (0, Some (ucast (global_value (global_at g idx)))) else (- 2, None))"
    and "wasm_globals_get_i64 g idx = Inr (if global_type (global_at g idx) = WASM_GLOBAL_TYPE_I64 then (0, Some (global_value (global_at g idx))) else (- 2, None))"
    and "wasm_globals_update_if_used g idx d = Inr (if global_type (global_at g idx) = WASM_GLOBAL_TYPE_UNUSED then d else global_value (global_at g idx))"
  using assms by (simp_all add: wasm_globals_get_i32_def wasm_globals_get_i64_def wasm_globals_update_if_used_def vec_get_ok global_deref)

text \<open>Reading another global is not affected by a write.\<close>

definition same_reads :: "wasm_global vec \<Rightarrow> wasm_global vec \<Rightarrow> u32 \<Rightarrow> bool" where
  "same_reads g g' j \<longleftrightarrow> wasm_globals_get_i32 g' j = wasm_globals_get_i32 g j \<and> wasm_globals_get_i64 g' j = wasm_globals_get_i64 g j"

lemma same_readsI:
  assumes "globals_ok g" "globals_ok g'" "vec_capacity g' = vec_capacity g" "global_at g' j = global_at g j"
  shows "same_reads g g' j"
proof (cases "unat j < unat (vec_capacity g)")
  case True
  then show ?thesis using assms by (simp add: same_reads_def get_global)
next
  case False
  then show ?thesis using assms(3) by (simp add: same_reads_def wasm_globals_get_i32_def wasm_globals_get_i64_def vec_get_ok)
qed

lemma set_global_eq:
  assumes "globals_ok g"
  shows "wasm_globals_set_i32 ok fresh pad g idx x mut =
      (if \<not> unat idx < unat (vec_capacity g) then Inl Null_Dereference else if \<not> writable (global_at g idx) then Inr (- 2, g)
       else vec_insert ok fresh g idx \<lparr>global_type = WASM_GLOBAL_TYPE_I32, global_mut = mut, global_value = union_of pad x\<rparr>)"
    and "wasm_globals_set_i64 ok fresh pad g idx y mut =
      (if \<not> unat idx < unat (vec_capacity g) then Inl Null_Dereference else if \<not> writable (global_at g idx) then Inr (- 2, g)
       else vec_insert ok fresh g idx \<lparr>global_type = WASM_GLOBAL_TYPE_I64, global_mut = mut, global_value = union_of pad (ucast y)\<rparr>)"
proof -
  have d: "vec_deref g (vec_get g idx) = (if unat idx < unat (vec_capacity g) then Inr (global_at g idx) else Inl Null_Dereference)"
    using global_deref [OF assms, of idx] by (simp add: vec_get_ok) (simp add: vec_deref_def)
  show "wasm_globals_set_i32 ok fresh pad g idx x mut =
      (if \<not> unat idx < unat (vec_capacity g) then Inl Null_Dereference else if \<not> writable (global_at g idx) then Inr (- 2, g)
       else vec_insert ok fresh g idx \<lparr>global_type = WASM_GLOBAL_TYPE_I32, global_mut = mut, global_value = union_of pad x\<rparr>)"
    unfolding wasm_globals_set_i32_def d by (simp add: writable_def)
  show "wasm_globals_set_i64 ok fresh pad g idx y mut =
      (if \<not> unat idx < unat (vec_capacity g) then Inl Null_Dereference else if \<not> writable (global_at g idx) then Inr (- 2, g)
       else vec_insert ok fresh g idx \<lparr>global_type = WASM_GLOBAL_TYPE_I64, global_mut = mut, global_value = union_of pad (ucast y)\<rparr>)"
    unfolding wasm_globals_set_i64_def d by (simp add: writable_def)
qed

lemma insert_global:
  assumes "globals_ok g" "unat idx < unat (vec_capacity g)"
  shows "\<exists>g'. vec_insert ok fresh g idx x = Inr (0, g') \<and> globals_ok g' \<and> vec_capacity g' = vec_capacity g \<and>
    global_at g' idx = x \<and> (\<forall>j. j \<noteq> idx \<longrightarrow> same_reads g g' j)"
  using global_insert [OF assms] same_readsI [OF assms(1)] by metis

subsection \<open>Properties\<close>



end
