(* ===== verification/Sledge_Abi.thy ===== *)
theory Sledge_Abi
  imports Wasi_Impl Kv_Map Wasm_Table Wasm_Globals Sandbox
begin

text \<open>
  What a compiled function can call: the entry points of runtime/src/sledge_abi.c, with the wrappers that are linked into
  the function's own object (libsledge/src/variable_instructions.c, sledge_extensions.c and
  wasi_snapshot_preview1.c), the copy of the instance that a worker keeps for the sandbox it runs
  (runtime/include/current_sandbox.h), and the start of a sandbox in runtime/src/current_sandbox.c.
\<close>

text \<open>
  The state a call works on: the worker, the instance in \<open>sledge_abi__current_wasm_module_instance\<close> (memory, global 0 and WASI
  context), the size, capacity and maximum stored in the sandbox's own \<open>memory->abi\<close>, which has the same buffer, its
  globals, the request and the body of the response, the tenant's storage, and the static
  variable \<open>has_udev\<close>.
\<close>

record 'rq abi =
  abi_worker :: "'rq worker"
  abi_memory :: wasm_memory
  abi_sandbox_memory :: "u64 \<times> u64 \<times> u64"
  abi_globals :: "wasm_global vec"
  abi_wasmg_0 :: u64
  abi_context :: "wasi_context option"
  abi_request :: http_request
  abi_response :: string
  abi_storage :: map_store
  abi_has_udev :: bool

text \<open>
  What the machine, the kernel and the C library answer during one call: the clock at entry and at return, whether
  allocations succeed, whether an uninitialised pointer happens to be null, what \<open>clock_gettime\<close>, \<open>open\<close>, \<open>read\<close> and
  \<open>random\<close> give, and the room that is left in the stream of the response.
\<close>

record answers =
  ans_enter :: u64
  ans_leave :: u64
  ans_alloc :: bool
  ans_garbage_null :: bool
  ans_mprotect :: bool
  ans_clock :: "nat + u64 \<times> u64"
  ans_open :: bool
  ans_reads :: "u8 list option list"
  ans_randoms :: "u32 list"
  ans_room :: nat
  ans_fresh :: "wasm_global list"
  ans_pad :: u32

text \<open>The frame of the calls: \<open>sandbox_syscall\<close> before and \<open>sandbox_return\<close> after the work.\<close>

definition in_syscall ::
  "build_flags \<Rightarrow> answers \<Rightarrow> (sandbox_ptr \<Rightarrow> 'rq abi \<Rightarrow> ('a \<times> 'rq abi) res) \<Rightarrow> 'rq abi \<Rightarrow> ('a \<times> 'rq abi) res" where
  "in_syscall b an work s =
     (case current (abi_worker s) of
        None \<Rightarrow> Inl Null_Dereference
      | Some p \<Rightarrow>
          bindr (sandbox_syscall b (ans_enter an) p (abi_worker s)) (\<lambda>w1.
          bindr (work p (s\<lparr>abi_worker := w1\<rparr>)) (\<lambda>(result, s1).
          bindr (sandbox_return b (ans_leave an) p (abi_worker s1)) (\<lambda>w2.
          Inr (result, s1\<lparr>abi_worker := w2\<rparr>)))))"

text \<open>A pointer into linear memory is an index. The sum in the first check is a 64-bit sum.\<close>

definition get_memory_ptr_for_runtime :: "u32 \<Rightarrow> u32 \<Rightarrow> 'rq abi \<Rightarrow> nat res" where
  "get_memory_ptr_for_runtime offset len s =
     assertc (ucast offset + ucast len < wm_size (abi_memory s)) (Inr (unat offset))"

definition check_bounds :: "u32 \<Rightarrow> u32 \<Rightarrow> 'rq abi \<Rightarrow> unit res" where
  "check_bounds offset bounds_check s =
     assertc (unat bounds_check < WASM_PAGE_SIZE \<or>
        (wm_size (abi_memory s) > ucast bounds_check \<and> ucast offset \<le> wm_size (abi_memory s) - ucast bounds_check))
       (Inr ())"

definition current_sandbox_memory_writeback :: "'rq abi \<Rightarrow> 'rq abi" where
  "current_sandbox_memory_writeback s =
     s\<lparr>abi_sandbox_memory := (wm_size (abi_memory s), wm_capacity (abi_memory s), wm_max (abi_memory s))\<rparr>"

definition set_bytes :: "byte_array \<Rightarrow> 'rq abi \<Rightarrow> 'rq abi" where
  "set_bytes b s = s\<lparr>abi_memory := (abi_memory s)\<lparr>wm_buffer := Some b\<rparr>\<rparr>"

text \<open>Access to the memory of the current sandbox through the checked operations on linear memory.\<close>

definition current_sandbox_get_ptr_void :: "u32 \<Rightarrow> u32 \<Rightarrow> 'rq abi \<Rightarrow> nat res" where
  "current_sandbox_get_ptr_void offset sz s =
     assertc (wm_capacity (abi_memory s) > 0) (wasm_memory_get_ptr_void (abi_memory s) offset sz)"

definition current_sandbox_get_char :: "u32 \<Rightarrow> 'rq abi \<Rightarrow> u8 res" where
  "current_sandbox_get_char offset s =
     assertc (wm_capacity (abi_memory s) > 0) (wasm_memory_get_char (abi_memory s) offset)"

definition current_sandbox_get_string :: "u32 \<Rightarrow> u32 \<Rightarrow> 'rq abi \<Rightarrow> nat option res" where
  "current_sandbox_get_string offset sz s = wasm_memory_get_string (abi_memory s) offset sz"

text \<open>A trap jumps back to where the sandbox was started.\<close>

definition WASM_TRAP_COUNT :: nat where "WASM_TRAP_COUNT = 7"

definition current_sandbox_trap :: "nat \<Rightarrow> 'rq abi \<Rightarrow> 'a res" where
  "current_sandbox_trap trapno s =
     assertc (trapno \<noteq> 0) (assertc (trapno < WASM_TRAP_COUNT)
       (case current (abi_worker s) of
          None \<Rightarrow> Inl Assertion_Failure
        | Some p \<Rightarrow> assertc (state_of (abi_worker s) p \<in> {SANDBOX_RUNNING_USER, SANDBOX_RUNNING_SYS}) (Inl (Wasm_Trap trapno))))"

subsection \<open>Memory\<close>

text \<open>The product of pages and page size is a 32-bit product; the number of pages is returned as a 32-bit number.\<close>

definition sledge_abi__wasm_memory_expand :: "build_flags \<Rightarrow> answers \<Rightarrow> u32 \<Rightarrow> 'rq abi \<Rightarrow> (u32 \<times> 'rq abi) res" where
  "sledge_abi__wasm_memory_expand b an page_count =
     in_syscall b an (\<lambda>p s.
       let old_page_count = ucast (wm_size (abi_memory s) div of_nat WASM_PAGE_SIZE);
           (rc, m) = wasm_memory_expand (ans_mprotect an) (abi_memory s) (ucast (page_count * of_nat WASM_PAGE_SIZE))
       in if rc = - 1 then Inr (- 1, s\<lparr>abi_memory := m\<rparr>)
          else Inr (old_page_count, current_sandbox_memory_writeback (s\<lparr>abi_memory := m\<rparr>)))"

definition instruction_memory_grow :: "build_flags \<Rightarrow> answers \<Rightarrow> u32 \<Rightarrow> 'rq abi \<Rightarrow> (u32 \<times> 'rq abi) res" where
  "instruction_memory_grow b an cnt s = sledge_abi__wasm_memory_expand b an cnt s"

definition sledge_abi__wasm_memory_initialize_region :: "u32 \<Rightarrow> u8 list \<Rightarrow> 'rq abi \<Rightarrow> 'rq abi res" where
  "sledge_abi__wasm_memory_initialize_region offset region s =
     (case current (abi_worker s) of
        None \<Rightarrow> Inl Null_Dereference
      | Some p \<Rightarrow> assertc (state_of (abi_worker s) p = SANDBOX_RUNNING_SYS)
          (bindr (wasm_memory_initialize_region (abi_memory s) offset region) (\<lambda>m. Inr (s\<lparr>abi_memory := m\<rparr>))))"

subsection \<open>Globals\<close>

text \<open>The trap for a result code is raised after the return from the system call.\<close>

definition raise_for :: "int \<Rightarrow> 'rq abi \<Rightarrow> 'a res \<Rightarrow> 'a res" where
  "raise_for rc s k =
     (if rc = - 1 then current_sandbox_trap WASM_TRAP_INVALID_INDEX s
      else if rc = - 2 then current_sandbox_trap WASM_TRAP_MISMATCHED_TYPE s else k)"

definition sledge_abi__wasm_globals_get_i32 :: "build_flags \<Rightarrow> answers \<Rightarrow> u32 \<Rightarrow> 'rq abi \<Rightarrow> (u32 option \<times> 'rq abi) res" where
  "sledge_abi__wasm_globals_get_i32 b an idx s =
     bindr (in_syscall b an (\<lambda>p s. bindr (wasm_globals_get_i32 (abi_globals s) idx) (\<lambda>r. Inr (r, s))) s)
       (\<lambda>((rc, result), s'). raise_for rc s' (Inr (result, s')))"

definition sledge_abi__wasm_globals_get_i64 :: "build_flags \<Rightarrow> answers \<Rightarrow> u32 \<Rightarrow> 'rq abi \<Rightarrow> (u64 option \<times> 'rq abi) res" where
  "sledge_abi__wasm_globals_get_i64 b an idx s =
     bindr (in_syscall b an (\<lambda>p s. bindr (wasm_globals_get_i64 (abi_globals s) idx) (\<lambda>r. Inr (r, s))) s)
       (\<lambda>((rc, result), s'). raise_for rc s' (Inr (result, s')))"

definition sledge_abi__wasm_globals_set_i32 :: "build_flags \<Rightarrow> answers \<Rightarrow> u32 \<Rightarrow> u32 \<Rightarrow> bool \<Rightarrow> 'rq abi \<Rightarrow> 'rq abi res" where
  "sledge_abi__wasm_globals_set_i32 b an idx val is_mutable s =
     bindr (in_syscall b an (\<lambda>p s.
         bindr (wasm_globals_set_i32 (ans_alloc an) (ans_fresh an) (ans_pad an) (abi_globals s) idx val True) (\<lambda>(rc, g).
         Inr (rc, s\<lparr>abi_globals := g\<rparr>))) s)
       (\<lambda>(rc, s'). raise_for rc s' (Inr s'))"

definition sledge_abi__wasm_globals_set_i64 :: "build_flags \<Rightarrow> answers \<Rightarrow> u32 \<Rightarrow> u64 \<Rightarrow> bool \<Rightarrow> 'rq abi \<Rightarrow> 'rq abi res" where
  "sledge_abi__wasm_globals_set_i64 b an idx val is_mutable s =
     bindr (in_syscall b an (\<lambda>p s.
         bindr (wasm_globals_set_i64 (ans_alloc an) (ans_fresh an) (ans_pad an) (abi_globals s) idx val True) (\<lambda>(rc, g).
         Inr (rc, s\<lparr>abi_globals := g\<rparr>))) s)
       (\<lambda>(rc, s'). raise_for rc s' (Inr s'))"

text \<open>The instructions on globals use the copy for index 0. A signed 32-bit value is extended with its sign.\<close>

definition get_global_i32 :: "build_flags \<Rightarrow> answers \<Rightarrow> u32 \<Rightarrow> 'rq abi \<Rightarrow> (u32 option \<times> 'rq abi) res" where
  "get_global_i32 b an idx s =
     (if idx = 0 then Inr (Some (ucast (abi_wasmg_0 s)), s) else sledge_abi__wasm_globals_get_i32 b an idx s)"

definition get_global_i64 :: "build_flags \<Rightarrow> answers \<Rightarrow> u32 \<Rightarrow> 'rq abi \<Rightarrow> (u64 option \<times> 'rq abi) res" where
  "get_global_i64 b an idx s =
     (if idx = 0 then Inr (Some (abi_wasmg_0 s), s) else sledge_abi__wasm_globals_get_i64 b an idx s)"

definition set_global_i32 :: "build_flags \<Rightarrow> answers \<Rightarrow> u32 \<Rightarrow> u32 \<Rightarrow> 'rq abi \<Rightarrow> 'rq abi res" where
  "set_global_i32 b an idx val s =
     (if idx = 0 then Inr (s\<lparr>abi_wasmg_0 := scast val\<rparr>) else sledge_abi__wasm_globals_set_i32 b an idx val True s)"

definition set_global_i64 :: "build_flags \<Rightarrow> answers \<Rightarrow> u32 \<Rightarrow> u64 \<Rightarrow> 'rq abi \<Rightarrow> 'rq abi res" where
  "set_global_i64 b an idx val s =
     (if idx = 0 then Inr (s\<lparr>abi_wasmg_0 := val\<rparr>) else sledge_abi__wasm_globals_set_i64 b an idx val True s)"

text \<open>
  When the worker leaves a sandbox the scheduler stores the copy of global 0 as a 64-bit global, ignoring the result; when it
  makes a sandbox the current one, the instance is loaded from it. \<open>previous\<close> is the copy that another sandbox left behind.
\<close>

definition write_back_global_0 :: "answers \<Rightarrow> 'rq abi \<Rightarrow> 'rq abi res" where
  "write_back_global_0 an s =
     bindr (wasm_globals_set_i64 (ans_alloc an) (ans_fresh an) (ans_pad an) (abi_globals s) 0 (abi_wasmg_0 s) True) (\<lambda>(rc, g).
     Inr (s\<lparr>abi_globals := g\<rparr>))"

definition load_instance :: "u64 \<Rightarrow> 'rq abi \<Rightarrow> 'rq abi res" where
  "load_instance previous s =
     (case abi_sandbox_memory s of
        (sz, cap, mx) \<Rightarrow>
          bindr (wasm_globals_update_if_used (abi_globals s) 0 previous) (\<lambda>g0.
          Inr (s\<lparr>abi_memory := (abi_memory s)\<lparr>wm_size := sz, wm_capacity := cap, wm_max := mx\<rparr>, abi_wasmg_0 := g0\<rparr>)))"

subsection \<open>WASI: arguments, environment and clock\<close>

definition WASI_SERDES_SIZE_size_t :: u32 where "WASI_SERDES_SIZE_size_t = 4"
definition WASI_SERDES_SIZE_timestamp_t :: u32 where "WASI_SERDES_SIZE_timestamp_t = 8"

text \<open>
  The pointers the implementation returned become offsets: their distance to the first one is added to the offset of the
  buffer. Each takes four bytes of linear memory.
\<close>

definition unswizzle :: "u32 \<Rightarrow> nat list \<Rightarrow> u8 list" where
  "unswizzle buf_offset ptrs = concat (map (\<lambda>p. le_bytes 4 (buf_offset + word_of_int (int p - int (hd ptrs)) :: u32)) ptrs)"

text \<open>
  Without arguments the code jumps over the initialisation of the pointer it then frees: unless the uninitialised pointer is
  null, that is an invalid call of \<open>free\<close>. A failed allocation is reported as success.
\<close>

definition sledge_abi__wasi_snapshot_preview1_args_get :: "build_flags \<Rightarrow> answers \<Rightarrow> u32 \<Rightarrow> u32 \<Rightarrow> 'rq abi \<Rightarrow> (u32 \<times> 'rq abi) res" where
  "sledge_abi__wasi_snapshot_preview1_args_get b an argv_retoffset argv_buf_retoffset =
     in_syscall b an (\<lambda>p s.
       case abi_context s of
         None \<Rightarrow> Inl Null_Dereference
       | Some c \<Rightarrow>
           if ctx_argc c = 0 then (if ans_garbage_null an then Inr (0, s) else Inl Segfault)
           else
             bindr (get_memory_ptr_for_runtime argv_retoffset (WASI_SERDES_SIZE_size_t * ctx_argc c) s) (\<lambda>argv_retptr.
             bindr (get_memory_ptr_for_runtime argv_buf_retoffset (ctx_argv_buf_size c) s) (\<lambda>argv_buf_retptr.
             if \<not> ans_alloc an then Inr (0, s)
             else with_buffer (abi_memory s) (\<lambda>bytes.
               case wasi_snapshot_preview1_backing_args_get (abi_context s) bytes argv_buf_retptr of
                 (rc, argv_temp, bytes') \<Rightarrow>
                   if rc \<noteq> WASI_ERRNO_SUCCESS then Inr (ucast rc, set_bytes bytes' s)
                   else Inr (ucast rc, set_bytes (write_range bytes' argv_retptr (unswizzle argv_buf_retoffset argv_temp)) s)))))"

definition two_sizes :: "nat \<Rightarrow> nat \<Rightarrow> u16 \<times> (u32 \<times> u32) option \<Rightarrow> 'rq abi \<Rightarrow> (u32 \<times> 'rq abi) res" where
  "two_sizes ptr1 ptr2 result s =
     (case result of
        (rc, None) \<Rightarrow> Inr (ucast rc, s)
      | (rc, Some (x, y)) \<Rightarrow> with_buffer (abi_memory s) (\<lambda>bytes.
          Inr (ucast rc, set_bytes (write_range (write_range bytes ptr1 (le_bytes 4 x)) ptr2 (le_bytes 4 y)) s)))"

definition sledge_abi__wasi_snapshot_preview1_args_sizes_get ::
  "build_flags \<Rightarrow> answers \<Rightarrow> u32 \<Rightarrow> u32 \<Rightarrow> 'rq abi \<Rightarrow> (u32 \<times> 'rq abi) res" where
  "sledge_abi__wasi_snapshot_preview1_args_sizes_get b an argc_retoffset argv_buf_len_retoffset =
     in_syscall b an (\<lambda>p s.
       bindr (get_memory_ptr_for_runtime argc_retoffset WASI_SERDES_SIZE_size_t s) (\<lambda>argc_retptr.
       bindr (get_memory_ptr_for_runtime argv_buf_len_retoffset WASI_SERDES_SIZE_size_t s) (\<lambda>argv_buf_len_retptr.
       two_sizes argc_retptr argv_buf_len_retptr (wasi_snapshot_preview1_backing_args_sizes_get (abi_context s)) s)))"

definition sledge_abi__wasi_snapshot_preview1_clock_time_get ::
  "build_flags \<Rightarrow> answers \<Rightarrow> u32 \<Rightarrow> u64 \<Rightarrow> u32 \<Rightarrow> 'rq abi \<Rightarrow> (u32 \<times> 'rq abi) res" where
  "sledge_abi__wasi_snapshot_preview1_clock_time_get b an clock_id precision time_retoffset =
     in_syscall b an (\<lambda>p s.
       bindr (get_memory_ptr_for_runtime time_retoffset WASI_SERDES_SIZE_timestamp_t s) (\<lambda>time_retptr.
       bindr (wasi_snapshot_preview1_backing_clock_time_get (ans_clock an)) (\<lambda>(rc, time).
         case time of
           None \<Rightarrow> Inr (ucast rc, s)
         | Some x \<Rightarrow> with_buffer (abi_memory s) (\<lambda>bytes.
             Inr (ucast rc, set_bytes (write_range bytes time_retptr (le_bytes 8 x)) s)))))"

definition sledge_abi__wasi_snapshot_preview1_environ_get ::
  "build_flags \<Rightarrow> answers \<Rightarrow> u32 \<Rightarrow> u32 \<Rightarrow> 'rq abi \<Rightarrow> (u32 \<times> 'rq abi) res" where
  "sledge_abi__wasi_snapshot_preview1_environ_get b an env_retoffset env_buf_retoffset =
     in_syscall b an (\<lambda>p s.
       case abi_context s of
         None \<Rightarrow> Inl Null_Dereference
       | Some c \<Rightarrow>
           if ctx_envc c = 0 then (if ans_garbage_null an then Inr (0, s) else Inl Segfault)
           else assertc (ctx_env_buf_size c > ctx_envc c)
             (if \<not> ans_alloc an then Inr (0, s)
              else
                bindr (get_memory_ptr_for_runtime env_retoffset (WASI_SERDES_SIZE_size_t * ctx_envc c) s) (\<lambda>env_retptr.
                bindr (get_memory_ptr_for_runtime env_buf_retoffset (ctx_env_buf_size c) s) (\<lambda>env_buf_retptr.
                with_buffer (abi_memory s) (\<lambda>bytes.
                  case wasi_snapshot_preview1_backing_environ_get (abi_context s) bytes env_buf_retptr of
                    (rc, env_temp, bytes') \<Rightarrow>
                      if rc \<noteq> WASI_ERRNO_SUCCESS then Inr (ucast rc, set_bytes bytes' s)
                      else Inr (ucast rc, set_bytes (write_range bytes' env_retptr (unswizzle env_buf_retoffset env_temp)) s))))))"

definition sledge_abi__wasi_snapshot_preview1_environ_sizes_get ::
  "build_flags \<Rightarrow> answers \<Rightarrow> u32 \<Rightarrow> u32 \<Rightarrow> 'rq abi \<Rightarrow> (u32 \<times> 'rq abi) res" where
  "sledge_abi__wasi_snapshot_preview1_environ_sizes_get b an envc_retoffset env_buf_len_retoffset =
     in_syscall b an (\<lambda>p s.
       bindr (get_memory_ptr_for_runtime envc_retoffset WASI_SERDES_SIZE_size_t s) (\<lambda>envc_retptr.
       bindr (get_memory_ptr_for_runtime env_buf_len_retoffset WASI_SERDES_SIZE_size_t s) (\<lambda>env_buf_len_retptr.
       two_sizes envc_retptr env_buf_len_retptr (wasi_snapshot_preview1_backing_environ_sizes_get (abi_context s)) s)))"

subsection \<open>WASI: streams and random bytes\<close>

text \<open>
  Reading the array of vectors: the check before it lets arrays of less than 64 KiB pass, and counts on
  the pages that are not mapped. Vectors are read up to the first that is refused; one that is not
  within the mapped pages faults.
\<close>

definition read_vectors ::
  "(byte_array \<Rightarrow> u64 \<Rightarrow> nat \<Rightarrow> iovec_t list \<Rightarrow> u16 \<times> iovec_t list) \<Rightarrow> byte_array \<Rightarrow> u32 \<Rightarrow> u32 \<Rightarrow> 'rq abi \<Rightarrow> (u16 \<times> iovec_t list) res" where
  "read_vectors readv bytes iovs_baseoffset iovs_len s =
     (let n = unat iovs_len;
          readable = (mapped_bytes (abi_memory s) - unat iovs_baseoffset) div WASI_SERDES_SIZE_iovec_t;
          (rc, vs) = readv bytes (fst (abi_sandbox_memory s)) (unat iovs_baseoffset) (replicate (min n readable) zero_iovec)
      in if rc = WASI_ERRNO_SUCCESS \<and> readable < n then Inl Segfault else Inr (rc, vs))"

definition sledge_abi__wasi_snapshot_preview1_fd_read ::
  "build_flags \<Rightarrow> answers \<Rightarrow> u32 \<Rightarrow> u32 \<Rightarrow> u32 \<Rightarrow> u32 \<Rightarrow> 'rq abi \<Rightarrow> (u32 \<times> 'rq abi) res" where
  "sledge_abi__wasi_snapshot_preview1_fd_read b an fd iovs_baseoffset iovs_len nread_retoffset =
     in_syscall b an (\<lambda>p s.
       bindr (get_memory_ptr_for_runtime nread_retoffset WASI_SERDES_SIZE_size_t s) (\<lambda>nread_retptr.
       bindr (check_bounds iovs_baseoffset (of_nat WASI_SERDES_SIZE_iovec_t * iovs_len) s) (\<lambda>_.
       if \<not> ans_alloc an then Inr (0, s)
       else with_buffer (abi_memory s) (\<lambda>bytes.
         bindr (read_vectors wasi_serdes_readv_iovec_t bytes iovs_baseoffset iovs_len s) (\<lambda>(rc, iovs).
         if rc \<noteq> WASI_ERRNO_SUCCESS then Inr (ucast rc, s)
         else
           bindr (wasi_snapshot_preview1_backing_fd_read fd iovs (abi_request s) bytes) (\<lambda>(rc, nread, request, bytes').
           Inr (ucast rc, set_bytes (case nread of None \<Rightarrow> bytes' | Some n \<Rightarrow> write_range bytes' nread_retptr (le_bytes 4 n))
                  (s\<lparr>abi_request := request\<rparr>))))))))"

definition sledge_abi__wasi_snapshot_preview1_fd_write ::
  "build_flags \<Rightarrow> answers \<Rightarrow> u32 \<Rightarrow> u32 \<Rightarrow> u32 \<Rightarrow> u32 \<Rightarrow> 'rq abi \<Rightarrow> (u32 \<times> 'rq abi) res" where
  "sledge_abi__wasi_snapshot_preview1_fd_write b an fd iovs_baseoffset iovs_len nwritten_retoffset =
     in_syscall b an (\<lambda>p s.
       bindr (get_memory_ptr_for_runtime nwritten_retoffset WASI_SERDES_SIZE_size_t s) (\<lambda>nwritten_retptr.
       bindr (check_bounds iovs_baseoffset (of_nat WASI_SERDES_SIZE_iovec_t * iovs_len) s) (\<lambda>_.
       if \<not> ans_alloc an then Inr (0, s)
       else with_buffer (abi_memory s) (\<lambda>bytes.
         bindr (read_vectors wasi_serdes_readv_ciovec_t bytes iovs_baseoffset iovs_len s) (\<lambda>(rc, iovs).
         if rc \<noteq> WASI_ERRNO_SUCCESS then Inr (ucast rc, s)
         else
           bindr (wasi_snapshot_preview1_backing_fd_write (ans_room an) fd iovs bytes (abi_response s)) (\<lambda>(rc, nwritten, response).
           Inr (ucast rc, set_bytes (case nwritten of None \<Rightarrow> bytes | Some n \<Rightarrow> write_range bytes nwritten_retptr (le_bytes 4 n))
                  (s\<lparr>abi_response := response\<rparr>))))))))"

definition sledge_abi__wasi_snapshot_preview1_fd_prestat_get :: "u32 \<Rightarrow> u32 \<Rightarrow> u32" where
  "sledge_abi__wasi_snapshot_preview1_fd_prestat_get fd prestat_retoffset = ucast WASI_ERRNO_BADF"

text \<open>The loop over \<open>read\<close> may not return: the result is \<^const>\<open>None\<close> as long as it has not.\<close>

definition random_work :: "answers \<Rightarrow> u32 \<Rightarrow> u32 \<Rightarrow> 'rq abi \<Rightarrow> (u32 \<times> 'rq abi) option res" where
  "random_work an buf_baseretoffset buf_len s =
     bindr (get_memory_ptr_for_runtime buf_baseretoffset buf_len s) (\<lambda>buf_baseretptr.
     with_buffer (abi_memory s) (\<lambda>bytes.
       Inr (case wasi_snapshot_preview1_backing_random_get (abi_has_udev s) (ans_open an) (ans_reads an) (ans_randoms an)
                   (read_range bytes buf_baseretptr (unat buf_len)) of
              None \<Rightarrow> None
            | Some (rc, buf, has_udev) \<Rightarrow> Some (ucast rc, set_bytes (write_range bytes buf_baseretptr buf) (s\<lparr>abi_has_udev := has_udev\<rparr>)))))"

definition sledge_abi__wasi_snapshot_preview1_random_get ::
  "build_flags \<Rightarrow> answers \<Rightarrow> u32 \<Rightarrow> u32 \<Rightarrow> 'rq abi \<Rightarrow> (u32 \<times> 'rq abi) option res" where
  "sledge_abi__wasi_snapshot_preview1_random_get b an buf_baseretoffset buf_len s =
     (case current (abi_worker s) of
        None \<Rightarrow> Inl Null_Dereference
      | Some p \<Rightarrow>
          bindr (sandbox_syscall b (ans_enter an) p (abi_worker s)) (\<lambda>w1.
          bindr (random_work an buf_baseretoffset buf_len (s\<lparr>abi_worker := w1\<rparr>)) (\<lambda>r.
          case r of
            None \<Rightarrow> Inr None
          | Some (rc, s1) \<Rightarrow> bindr (sandbox_return b (ans_leave an) p (abi_worker s1)) (\<lambda>w2.
              Inr (Some (rc, s1\<lparr>abi_worker := w2\<rparr>))))))"

subsection \<open>All WASI calls\<close>

text \<open>The calls that are not supported take parameters, but use none of them.\<close>

datatype unsupported_call =
    Clock_res_get | Fd_advise | Fd_allocate | Fd_close | Fd_datasync | Fd_fdstat_get |
    Fd_fdstat_set_flags | Fd_fdstat_set_rights | Fd_filestat_get | Fd_filestat_set_size | Fd_filestat_set_times | Fd_pread |
    Fd_prestat_dir_name | Fd_pwrite | Fd_readdir | Fd_renumber | Fd_seek | Fd_sync |
    Fd_tell | Path_create_directory | Path_filestat_get | Path_filestat_set_times | Path_link | Path_open |
    Path_readlink | Path_remove_directory | Path_rename | Path_symlink | Path_unlink_file | Poll_oneoff |
    Proc_raise | Sched_yield | Sock_recv | Sock_send | Sock_shutdown

definition sledge_abi__wasi_unsupported :: "unsupported_call \<Rightarrow> u32" where
  "sledge_abi__wasi_unsupported c = ucast wasi_unsupported_syscall"

datatype wasi_call =
    Args_get u32 u32
  | Args_sizes_get u32 u32
  | Clock_time_get u32 u64 u32
  | Environ_get u32 u32
  | Environ_sizes_get u32 u32
  | Fd_prestat_get u32 u32
  | Fd_read u32 u32 u32 u32
  | Fd_write u32 u32 u32 u32
  | Proc_exit u32
  | Random_get u32 u32
  | Unsupported unsupported_call

text \<open>A call returns a status, is still in its loop, or hands over to \<open>current_sandbox_fini\<close>, which does not come back.\<close>

datatype 'rq wasi_outcome =
    Returned u32 "'rq abi"
  | Running
  | Exited

definition returned :: "(u32 \<times> 'rq abi) res \<Rightarrow> 'rq wasi_outcome res" where
  "returned r = bindr r (\<lambda>(rc, s). Inr (Returned rc s))"

fun wasi_snapshot_preview1 :: "build_flags \<Rightarrow> answers \<Rightarrow> wasi_call \<Rightarrow> 'rq abi \<Rightarrow> 'rq wasi_outcome res" where
  "wasi_snapshot_preview1 b an (Args_get argv_retoffset argv_buf_retoffset) s =
     returned (sledge_abi__wasi_snapshot_preview1_args_get b an argv_retoffset argv_buf_retoffset s)"
| "wasi_snapshot_preview1 b an (Args_sizes_get argc_retoffset argv_buf_len_retoffset) s =
     returned (sledge_abi__wasi_snapshot_preview1_args_sizes_get b an argc_retoffset argv_buf_len_retoffset s)"
| "wasi_snapshot_preview1 b an (Clock_time_get clock_id precision time_retoffset) s =
     returned (sledge_abi__wasi_snapshot_preview1_clock_time_get b an clock_id precision time_retoffset s)"
| "wasi_snapshot_preview1 b an (Environ_get env_retoffset env_buf_retoffset) s =
     returned (sledge_abi__wasi_snapshot_preview1_environ_get b an env_retoffset env_buf_retoffset s)"
| "wasi_snapshot_preview1 b an (Environ_sizes_get envc_retoffset env_buf_len_retoffset) s =
     returned (sledge_abi__wasi_snapshot_preview1_environ_sizes_get b an envc_retoffset env_buf_len_retoffset s)"
| "wasi_snapshot_preview1 b an (Fd_prestat_get fd prestat_retoffset) s =
     Inr (Returned (sledge_abi__wasi_snapshot_preview1_fd_prestat_get fd prestat_retoffset) s)"
| "wasi_snapshot_preview1 b an (Fd_read fd iovs_baseoffset iovs_len nread_retoffset) s =
     returned (sledge_abi__wasi_snapshot_preview1_fd_read b an fd iovs_baseoffset iovs_len nread_retoffset s)"
| "wasi_snapshot_preview1 b an (Fd_write fd iovs_baseoffset iovs_len nwritten_retoffset) s =
     returned (sledge_abi__wasi_snapshot_preview1_fd_write b an fd iovs_baseoffset iovs_len nwritten_retoffset s)"
| "wasi_snapshot_preview1 b an (Proc_exit exitcode) s =
     (case current (abi_worker s) of None \<Rightarrow> Inl Null_Dereference | Some p \<Rightarrow> Inr Exited)"
| "wasi_snapshot_preview1 b an (Random_get buf_baseretoffset buf_len) s =
     bindr (sledge_abi__wasi_snapshot_preview1_random_get b an buf_baseretoffset buf_len s) (\<lambda>r.
       Inr (case r of None \<Rightarrow> Running | Some (rc, s') \<Rightarrow> Returned rc s'))"
| "wasi_snapshot_preview1 b an (Unsupported c) s = Inr (Returned (sledge_abi__wasi_unsupported c) s)"

subsection \<open>Scratch storage\<close>

definition with_key :: "u32 \<Rightarrow> u32 \<Rightarrow> 'rq abi \<Rightarrow> (u8 list \<Rightarrow> 'a res) \<Rightarrow> 'a res" where
  "with_key key_offset key_len s k =
     bindr (get_memory_ptr_for_runtime key_offset key_len s) (\<lambda>key.
     with_buffer (abi_memory s) (\<lambda>bytes. k (read_range bytes key (unat key_len))))"

definition sledge_abi__scratch_storage_get_size :: "build_flags \<Rightarrow> answers \<Rightarrow> u32 \<Rightarrow> u32 \<Rightarrow> 'rq abi \<Rightarrow> (u32 \<times> 'rq abi) res" where
  "sledge_abi__scratch_storage_get_size b an key_offset key_len =
     in_syscall b an (\<lambda>p s. with_key key_offset key_len s (\<lambda>key.
       Inr (case map_get (abi_storage s) key of None \<Rightarrow> 0 | Some val \<Rightarrow> of_nat (length val), s)))"

definition sledge_abi__scratch_storage_get ::
  "build_flags \<Rightarrow> answers \<Rightarrow> u32 \<Rightarrow> u32 \<Rightarrow> u32 \<Rightarrow> u32 \<Rightarrow> 'rq abi \<Rightarrow> (int \<times> 'rq abi) res" where
  "sledge_abi__scratch_storage_get b an key_offset key_len buf_offset buf_len =
     in_syscall b an (\<lambda>p s. with_key key_offset key_len s (\<lambda>key.
       bindr (get_memory_ptr_for_runtime buf_offset buf_len s) (\<lambda>buf.
       with_buffer (abi_memory s) (\<lambda>bytes.
         case map_get (abi_storage s) key of
           None \<Rightarrow> Inr (1, s)
         | Some val \<Rightarrow> if of_nat (length val) > buf_len then Inr (2, s) else Inr (0, set_bytes (write_range bytes buf val) s)))))"

definition sledge_abi__scratch_storage_set ::
  "build_flags \<Rightarrow> answers \<Rightarrow> u32 \<Rightarrow> u32 \<Rightarrow> u32 \<Rightarrow> u32 \<Rightarrow> 'rq abi \<Rightarrow> (int \<times> 'rq abi) res" where
  "sledge_abi__scratch_storage_set b an key_offset key_len value_offset value_len =
     in_syscall b an (\<lambda>p s. with_key key_offset key_len s (\<lambda>key. with_key value_offset value_len s (\<lambda>val.
       case map_set (abi_storage s) key val of (did_set, m) \<Rightarrow> Inr (if did_set then 0 else 1, s\<lparr>abi_storage := m\<rparr>))))"

definition sledge_abi__scratch_storage_delete :: "build_flags \<Rightarrow> answers \<Rightarrow> u32 \<Rightarrow> u32 \<Rightarrow> 'rq abi \<Rightarrow> (int \<times> 'rq abi) res" where
  "sledge_abi__scratch_storage_delete b an key_offset key_len =
     in_syscall b an (\<lambda>p s. with_key key_offset key_len s (\<lambda>key.
       bindr (map_delete (abi_storage s) key) (\<lambda>(did_delete, m). Inr (if did_delete then 0 else 1, s\<lparr>abi_storage := m\<rparr>))))"

definition sledge_abi__scratch_storage_upsert ::
  "build_flags \<Rightarrow> answers \<Rightarrow> u32 \<Rightarrow> u32 \<Rightarrow> u32 \<Rightarrow> u32 \<Rightarrow> 'rq abi \<Rightarrow> (unit \<times> 'rq abi) res" where
  "sledge_abi__scratch_storage_upsert b an key_offset key_len value_offset value_len =
     in_syscall b an (\<lambda>p s. with_key key_offset key_len s (\<lambda>key. with_key value_offset value_len s (\<lambda>val.
       bindr (map_upsert (ans_alloc an) (abi_storage s) key val) (\<lambda>m. Inr ((), s\<lparr>abi_storage := m\<rparr>)))))"

subsection \<open>The start of a sandbox\<close>

text \<open>
  The arguments of a function are the path of its module and the query parameters of the request, each up to its terminator.
  \<open>initialize_memory\<close> and \<open>initialize_globals\<close> are code of the compiled module.
\<close>

definition c_string :: "string \<Rightarrow> string" where
  "c_string s = takeWhile (\<lambda>c. byte_of c \<noteq> 0) s"

definition sandbox_args :: "string \<Rightarrow> http_request \<Rightarrow> string list" where
  "sandbox_args path r = map c_string (path # query_params r)"

definition current_sandbox_init ::
  "build_flags \<Rightarrow> u64 \<Rightarrow> context_allocs \<Rightarrow> string \<Rightarrow> ('rq abi \<Rightarrow> 'rq abi res) \<Rightarrow> ('rq abi \<Rightarrow> 'rq abi res) \<Rightarrow> 'rq abi \<Rightarrow> 'rq abi res" where
  "current_sandbox_init b now al path initialize_memory initialize_globals s =
     (case current (abi_worker s) of
        None \<Rightarrow> Inl Assertion_Failure
      | Some p \<Rightarrow> assertc (state_of (abi_worker s) p = SANDBOX_RUNNING_SYS)
          (bindr (initialize_memory s) (\<lambda>s1.
           bindr (wasi_context_init al (wasi_options_init\<lparr>opt_argv := sandbox_args path (abi_request s1)\<rparr>)) (\<lambda>context.
           let s2 = s1\<lparr>abi_context := Some context\<rparr>
           in bindr (sandbox_return b now p (abi_worker s2)) (\<lambda>w.
              initialize_globals (s2\<lparr>abi_worker := w\<rparr>))))))"

subsection \<open>What a function can do in one call\<close>

datatype guest_call =
    Wasi wasi_call
  | Storage_get_size u32 u32
  | Storage_get u32 u32 u32 u32
  | Storage_set u32 u32 u32 u32
  | Storage_delete u32 u32
  | Storage_upsert u32 u32 u32 u32

text \<open>The state after a call that returns to the function; \<^const>\<open>None\<close> when it does not.\<close>

fun guest_step :: "build_flags \<Rightarrow> answers \<times> guest_call \<Rightarrow> 'rq abi \<Rightarrow> 'rq abi option res" where
  "guest_step b (an, Wasi c) s =
     bindr (wasi_snapshot_preview1 b an c s) (\<lambda>out. Inr (case out of Returned rc s' \<Rightarrow> Some s' | Running \<Rightarrow> None | Exited \<Rightarrow> None))"
| "guest_step b (an, Storage_get_size k kl) s = bindr (sledge_abi__scratch_storage_get_size b an k kl s) (\<lambda>(r, s'). Inr (Some s'))"
| "guest_step b (an, Storage_get k kl v vl) s = bindr (sledge_abi__scratch_storage_get b an k kl v vl s) (\<lambda>(r, s'). Inr (Some s'))"
| "guest_step b (an, Storage_set k kl v vl) s = bindr (sledge_abi__scratch_storage_set b an k kl v vl s) (\<lambda>(r, s'). Inr (Some s'))"
| "guest_step b (an, Storage_delete k kl) s = bindr (sledge_abi__scratch_storage_delete b an k kl s) (\<lambda>(r, s'). Inr (Some s'))"
| "guest_step b (an, Storage_upsert k kl v vl) s = bindr (sledge_abi__scratch_storage_upsert b an k kl v vl s) (\<lambda>(r, s'). Inr (Some s'))"

text \<open>A sequence of calls, up to the first that does not return.\<close>

fun run_calls :: "('c \<Rightarrow> 's \<Rightarrow> 's option res) \<Rightarrow> 'c list \<Rightarrow> 's \<Rightarrow> 's option res" where
  "run_calls step [] s = Inr (Some s)"
| "run_calls step (c # cs) s =
     bindr (step c s) (\<lambda>r. case r of None \<Rightarrow> Inr None | Some s' \<Rightarrow> run_calls step cs s')"

text \<open>The lengths of stored values are 32-bit numbers in the source.\<close>

definition storage_ok :: "map_store \<Rightarrow> bool" where
  "storage_ok m \<longleftrightarrow> (\<forall>i. \<forall>n \<in> set (m i). length (node_value n) < 2 ^ 32)"

text \<open>
  A call keeps within bounds: it changes no byte outside of the linear memory, neither its size nor the protection of
  its pages, and neither the globals nor the WASI context, and stores no value whose length does not fit.
\<close>

definition outside_same :: "wasm_memory \<Rightarrow> wasm_memory \<Rightarrow> bool" where
  "outside_same m m' \<longleftrightarrow> wm_size m' = wm_size m \<and> wm_capacity m' = wm_capacity m \<and> wm_max m' = wm_max m \<and>
     (case (wm_buffer m, wm_buffer m') of
        (None, None) \<Rightarrow> True
      | (Some b, Some b') \<Rightarrow> \<forall>a \<ge> unat (wm_size m). b' a = b a
      | _ \<Rightarrow> False)"

definition within_bounds :: "'rq abi \<Rightarrow> 'rq abi \<Rightarrow> bool" where
  "within_bounds s s' \<longleftrightarrow> outside_same (abi_memory s) (abi_memory s') \<and> abi_sandbox_memory s' = abi_sandbox_memory s \<and>
     abi_globals s' = abi_globals s \<and> abi_wasmg_0 s' = abi_wasmg_0 s \<and> abi_context s' = abi_context s \<and>
     (storage_ok (abi_storage s) \<longrightarrow> storage_ok (abi_storage s'))"

text \<open>The instance is loaded: the sizes agree with those of the sandbox and the context describes its buffers.\<close>

definition context_ok :: "wasi_context \<Rightarrow> bool" where
  "context_ok c \<longleftrightarrow> unat (ctx_argc c) < 2 ^ 30 \<and> unat (ctx_envc c) < 2 ^ 30 \<and>
     length (ctx_argv c) = unat (ctx_argc c) \<and> length (ctx_argv_buf c) = unat (ctx_argv_buf_size c) \<and>
     length (ctx_env c) = unat (ctx_envc c) \<and> length (ctx_env_buf c) = unat (ctx_env_buf_size c)"

definition user_mode :: "'rq worker \<Rightarrow> bool" where
  "user_mode w \<longleftrightarrow> (case current w of None \<Rightarrow> False
     | Some p \<Rightarrow> state_of w p = SANDBOX_RUNNING_USER \<and> worker_deadline w = absolute_deadline (sandboxes w p))"

definition instance_loaded :: "'rq abi \<Rightarrow> bool" where
  "instance_loaded s \<longleftrightarrow> fst (abi_sandbox_memory s) = wm_size (abi_memory s) \<and> unat (wm_size (abi_memory s)) \<le> 2 ^ 32 \<and>
     wm_size (abi_memory s) \<le> wm_capacity (abi_memory s) \<and>
     (\<forall>c. abi_context s = Some c \<longrightarrow> context_ok c)"

definition guest_ok :: "'rq abi \<Rightarrow> bool" where
  "guest_ok s \<longleftrightarrow> instance_loaded s \<and> storage_ok (abi_storage s) \<and> user_mode (abi_worker s)"

text \<open>An interface to functions: calls that each keep within bounds, for states that satisfy \<open>ok\<close>.\<close>

locale guest_interface =
  fixes step :: "'c \<Rightarrow> 'rq abi \<Rightarrow> 'rq abi option res"
    and ok :: "'rq abi \<Rightarrow> bool"
  assumes step_within: "ok s \<Longrightarrow> step c s = Inr (Some s') \<Longrightarrow> within_bounds s s'"
    and step_ok: "ok s \<Longrightarrow> step c s = Inr (Some s') \<Longrightarrow> ok s'"
begin

lemma calls_within:
  assumes "ok s" "run_calls step cs s = Inr (Some s')"
  shows "within_bounds s s' \<and> ok s'"
  using assms
proof (induction cs arbitrary: s)
  case Nil
  then show ?case by (auto simp: within_bounds_def outside_same_def split: option.splits)
next
  case (Cons c cs)
  then obtain s1 where s1: "step c s = Inr (Some s1)" "run_calls step cs s1 = Inr (Some s')" by (auto split: option.splits)
  have w: "within_bounds s s1" using step_within [OF Cons.prems(1) s1(1)] .
  with Cons.IH [OF step_ok [OF Cons.prems(1) s1(1)] s1(2)] show ?case
    by (auto simp: within_bounds_def outside_same_def split: option.splits)
qed

end

subsection \<open>The calls keep within bounds\<close>

lemma within_refl: "within_bounds s s"
  by (auto simp: within_bounds_def outside_same_def split: option.splits)

lemma within_worker [simp]:
  "within_bounds (s\<lparr>abi_worker := w\<rparr>) s' = within_bounds s s'" "within_bounds s (s'\<lparr>abi_worker := w\<rparr>) = within_bounds s s'"
  by (simp_all add: within_bounds_def)

lemma loaded_worker [simp]: "instance_loaded (s\<lparr>abi_worker := w\<rparr>) = instance_loaded s"
  by (simp add: instance_loaded_def)

lemma loaded_within: "instance_loaded s \<Longrightarrow> within_bounds s s' \<Longrightarrow> instance_loaded s'"
  by (auto simp: instance_loaded_def within_bounds_def outside_same_def)

lemma within_update [simp]:
  "within_bounds s (s'\<lparr>abi_request := r\<rparr>) = within_bounds s s'" "within_bounds s (s'\<lparr>abi_response := t\<rparr>) = within_bounds s s'"
  "within_bounds s (s'\<lparr>abi_has_udev := u\<rparr>) = within_bounds s s'"
  by (simp_all add: within_bounds_def)

lemma find_node_in: "find_node h ns = Some n \<Longrightarrow> n \<in> set ns"
  by (induction ns) (auto split: if_splits)

lemma storage_value_length: "storage_ok m \<Longrightarrow> map_get m k = Some val \<Longrightarrow> length val < 2 ^ 32"
  by (auto simp: storage_ok_def map_get_def Let_def split: option.splits dest!: find_node_in)

lemma update_value_in: "n \<in> set (update_value h val ns) \<Longrightarrow> n \<in> set ns \<or> node_value n = val"
  by (induction ns) (auto split: if_splits)

lemma storage_okD: "storage_ok m \<Longrightarrow> n \<in> set (m i) \<Longrightarrow> length (node_value n) < 2 ^ 32"
  by (auto simp: storage_ok_def)

lemma storage_ok_upd: "storage_ok m \<Longrightarrow> (\<And>n. n \<in> set ns \<Longrightarrow> length (node_value n) < 2 ^ 32) \<Longrightarrow> storage_ok (m(i := ns))"
  by (auto simp: storage_ok_def)

lemma storage_ok_set: "storage_ok m \<Longrightarrow> length val < 2 ^ 32 \<Longrightarrow> storage_ok (snd (map_set m k val))"
  by (auto simp: map_set_def Let_def split: option.splits intro!: storage_ok_upd dest: storage_okD [simplified])

lemma storage_ok_upsert: "storage_ok m \<Longrightarrow> length val < 2 ^ 32 \<Longrightarrow> map_upsert ok m k val = Inr m' \<Longrightarrow> storage_ok m'"
  by (auto simp: map_upsert_def Let_def split: option.splits intro!: storage_ok_upd dest!: update_value_in dest: storage_okD [simplified])

lemma storage_ok_delete: "storage_ok m \<Longrightarrow> map_delete m k = Inr (d, m') \<Longrightarrow> storage_ok m'"
  using storage_okD [of m _ "bucket_of (jenkins_hash k)"]
  by (auto simp: map_delete_def Let_def split: list.splits if_splits intro!: storage_ok_upd)

lemma within_storage: "(storage_ok (abi_storage s) \<Longrightarrow> storage_ok m) \<Longrightarrow> within_bounds s (s\<lparr>abi_storage := m\<rparr>)"
  by (auto simp: within_bounds_def outside_same_def split: option.splits)

lemma set_bytes_update [simp]:
  "set_bytes b (s\<lparr>abi_request := r\<rparr>) = (set_bytes b s)\<lparr>abi_request := r\<rparr>" "set_bytes b (s\<lparr>abi_response := t\<rparr>) = (set_bytes b s)\<lparr>abi_response := t\<rparr>"
  "set_bytes b (s\<lparr>abi_has_udev := u\<rparr>) = (set_bytes b s)\<lparr>abi_has_udev := u\<rparr>" "set_bytes b (s\<lparr>abi_worker := w\<rparr>) = (set_bytes b s)\<lparr>abi_worker := w\<rparr>"
  by (simp_all add: set_bytes_def)

lemma within_set_bytes [simp]:
  "wm_buffer (abi_memory s) = Some b \<Longrightarrow>
     within_bounds s (set_bytes b' s) \<longleftrightarrow> (\<forall>a \<ge> unat (wm_size (abi_memory s)). b' a = b a)"
  by (simp add: within_bounds_def outside_same_def set_bytes_def)

lemma unat_u32: "unat (x :: u32) < 4294967296"
  using unsigned_less [of x, where 'a = nat] by simp

lemma ptr_eq:
  "get_memory_ptr_for_runtime offset len s = Inr p \<longleftrightarrow> p = unat offset \<and> unat offset + unat len < unat (wm_size (abi_memory s))"
proof -
  have "unat offset + unat len < 4294967296 + 4294967296" using unat_u32 [of offset] unat_u32 [of len] by (rule add_strict_mono)
  then have "(unat offset + unat len) mod 2 ^ 64 = unat offset + unat len" by (intro mod_less) (erule less_trans, simp)
  moreover have "unat (ucast offset :: u64) = unat offset" "unat (ucast len :: u64) = unat len"
    by (simp_all add: unsigned_ucast_eq take_bit_nat_eq_self less_trans [OF unat_u32])
  ultimately have "unat (ucast offset + ucast len :: u64) = unat offset + unat len" by (simp add: unat_word_ariths)
  then show ?thesis by (auto simp: get_memory_ptr_for_runtime_def word_less_nat_alt)
qed

lemma with_buffer_Inr: "with_buffer m k = Inr y \<longleftrightarrow> (\<exists>b. wm_buffer m = Some b \<and> k b = Inr y)"
  by (auto simp: with_buffer_def split: option.splits)

lemma in_syscall_Inr:
  "in_syscall b an work s = Inr (r, s') \<longleftrightarrow> (\<exists>p w1 s1 w2. current (abi_worker s) = Some p \<and>
     sandbox_syscall b (ans_enter an) p (abi_worker s) = Inr w1 \<and> work p (s\<lparr>abi_worker := w1\<rparr>) = Inr (r, s1) \<and>
     sandbox_return b (ans_leave an) p (abi_worker s1) = Inr w2 \<and> s' = s1\<lparr>abi_worker := w2\<rparr>)"
  by (auto simp: in_syscall_def split: option.splits)

lemma in_syscall_within:
  assumes "in_syscall b an work s = Inr (r, s')" "instance_loaded s"
    and "\<And>p s r s1. instance_loaded s \<Longrightarrow> work p s = Inr (r, s1) \<Longrightarrow> within_bounds s s1"
  shows "within_bounds s s'"
  using assms(1,2) assms(3) [of "s\<lparr>abi_worker := w\<rparr>" for w] by (auto simp: in_syscall_Inr)

lemma write_outside: "p + length xs \<le> a \<Longrightarrow> write_range b p xs a = b a"
  by (simp add: write_range_same)

lemma length_unswizzle [simp]: "length (unswizzle x ps) = 4 * length ps"
  by (simp add: unswizzle_def length_concat o_def sum_list_triv)

lemma unat_four_times: "unat c < 2 ^ 30 \<Longrightarrow> unat (WASI_SERDES_SIZE_size_t * c) = 4 * unat c"
  by (simp add: WASI_SERDES_SIZE_size_t_def unat_word_ariths)

lemma unat_sizes [simp]: "unat WASI_SERDES_SIZE_size_t = 4" "unat WASI_SERDES_SIZE_timestamp_t = 8"
  by (simp_all add: WASI_SERDES_SIZE_size_t_def WASI_SERDES_SIZE_timestamp_t_def)

lemmas work_simps = ptr_eq with_buffer_Inr split_beta

lemma context_lengths:
  assumes "instance_loaded s" "abi_context s = Some c"
  shows "length (ctx_argv c) = unat (ctx_argc c)" "length (ctx_argv_buf c) = unat (ctx_argv_buf_size c)"
    "length (ctx_env c) = unat (ctx_envc c)" "length (ctx_env_buf c) = unat (ctx_env_buf_size c)"
    "unat (WASI_SERDES_SIZE_size_t * ctx_argc c) = 4 * unat (ctx_argc c)"
    "unat (WASI_SERDES_SIZE_size_t * ctx_envc c) = 4 * unat (ctx_envc c)"
  using assms unat_four_times by (auto simp: instance_loaded_def context_ok_def)

lemma args_get_within:
  "sledge_abi__wasi_snapshot_preview1_args_get b an x y s = Inr (r, s') \<Longrightarrow> instance_loaded s \<Longrightarrow> within_bounds s s'"
  unfolding sledge_abi__wasi_snapshot_preview1_args_get_def
  by (erule in_syscall_within, assumption)
    (auto simp: work_simps within_refl context_lengths write_outside wasi_snapshot_preview1_backing_args_get_def
       split: option.splits if_splits)

lemma environ_get_within:
  "sledge_abi__wasi_snapshot_preview1_environ_get b an x y s = Inr (r, s') \<Longrightarrow> instance_loaded s \<Longrightarrow> within_bounds s s'"
  unfolding sledge_abi__wasi_snapshot_preview1_environ_get_def
  by (erule in_syscall_within, assumption)
    (auto simp: work_simps within_refl context_lengths write_outside wasi_snapshot_preview1_backing_environ_get_def
       split: option.splits if_splits)

lemma two_sizes_within:
  assumes "two_sizes p q res s = Inr (r, s')" "p + 4 \<le> unat (wm_size (abi_memory s))" "q + 4 \<le> unat (wm_size (abi_memory s))"
  shows "within_bounds s s'"
  using assms
  by (auto simp: two_sizes_def work_simps within_refl write_outside split: option.splits prod.splits)

lemma sizes_get_within:
  "sledge_abi__wasi_snapshot_preview1_args_sizes_get b an x y s = Inr (r, s') \<Longrightarrow> instance_loaded s \<Longrightarrow> within_bounds s s'"
  "sledge_abi__wasi_snapshot_preview1_environ_sizes_get b an x y s = Inr (r, s') \<Longrightarrow> instance_loaded s \<Longrightarrow> within_bounds s s'"
  unfolding sledge_abi__wasi_snapshot_preview1_args_sizes_get_def sledge_abi__wasi_snapshot_preview1_environ_sizes_get_def
  by (erule in_syscall_within, assumption, auto simp: work_simps elim!: two_sizes_within)+

lemma clock_time_get_within:
  "sledge_abi__wasi_snapshot_preview1_clock_time_get b an i pr x s = Inr (r, s') \<Longrightarrow> instance_loaded s \<Longrightarrow> within_bounds s s'"
  unfolding sledge_abi__wasi_snapshot_preview1_clock_time_get_def
  by (erule in_syscall_within, assumption)
    (auto simp: work_simps within_refl write_outside split: option.splits)

lemma random_work_within:
  assumes "random_work an x n s = Inr (Some (r, s'))"
  shows "within_bounds s s'"
proof -
  obtain bytes where bytes: "wm_buffer (abi_memory s) = Some bytes" "unat x + unat n < unat (wm_size (abi_memory s))"
    using assms by (auto simp: random_work_def work_simps)
  obtain rc buf u where g: "wasi_snapshot_preview1_backing_random_get (abi_has_udev s) (ans_open an) (ans_reads an) (ans_randoms an)
      (read_range bytes (unat x) (unat n)) = Some (rc, buf, u)"
    and s': "s' = (set_bytes (write_range bytes (unat x) buf) s)\<lparr>abi_has_udev := u\<rparr>"
    using assms bytes by (auto simp: random_work_def work_simps split: option.splits)
  have "length buf = unat n" using random_get_length [OF g] by (simp add: read_range_def)
  then show ?thesis using bytes by (simp add: s' write_outside)
qed

lemma random_get_within:
  assumes "sledge_abi__wasi_snapshot_preview1_random_get b an x n s = Inr (Some (r, s'))"
  shows "within_bounds s s'"
  using assms
  by (fastforce simp: sledge_abi__wasi_snapshot_preview1_random_get_def split: option.splits dest!: random_work_within)

text \<open>The vectors that the runtime accepts have pointers, and lie inside of the memory.\<close>

definition iovs_inside :: "nat \<Rightarrow> iovec_t list \<Rightarrow> bool" where
  "iovs_inside n vs \<longleftrightarrow> pointers_set vs \<and> (\<forall>v \<in> set vs. iov_span v \<subseteq> {..<n})"

lemma read_vectors_inside:
  assumes "read_vectors wasi_serdes_readv_iovec_t bytes x n s = Inr (WASI_ERRNO_SUCCESS, vs)"
  shows "iovs_inside (unat (fst (abi_sandbox_memory s))) vs \<and>
    vs = map (\<lambda>i. host_iovec (iovec_at bytes (unat x) i)) [0..<unat n] \<and>
    (\<forall>i < unat n. iovec_inside (fst (abi_sandbox_memory s)) (iovec_at bytes (unat x) i))"
proof -
  define m where "m = min (unat n) ((mapped_bytes (abi_memory s) - unat x) div WASI_SERDES_SIZE_iovec_t)"
  have r: "wasi_serdes_readv_iovec_t bytes (fst (abi_sandbox_memory s)) (unat x) (replicate m zero_iovec) = (WASI_ERRNO_SUCCESS, vs)"
    and m: "m = unat n"
    using assms by (auto simp: read_vectors_def Let_def m_def split: prod.splits if_splits)
  have e: "WASI_ERRNO_OVERFLOW \<noteq> WASI_ERRNO_SUCCESS" by (simp add: WASI_ERRNO_OVERFLOW_def WASI_ERRNO_SUCCESS_def)
  show ?thesis
    using readv_iovec_cases [of bytes "fst (abi_sandbox_memory s)" "unat x" "replicate m zero_iovec"] r m e
    by (auto simp: iovs_inside_def pointers_set_def iov_span_def host_iovec_def iovec_inside_def split: if_splits prod.splits)
qed

lemma fd_read_loop_outside:
  "fd_read_loop r b vs = Inr (r', b') \<Longrightarrow> iovs_inside n vs \<Longrightarrow> n \<le> a \<Longrightarrow> b' a = b a"
proof (induction vs arbitrary: r b)
  case (Cons v vs)
  define k where "k = (if iov_buf_len v > bytes_to_read r then bytes_to_read r else iov_buf_len v)"
  have k: "unat k \<le> unat (iov_buf_len v)" by (simp add: k_def word_less_nat_alt)
  show ?case
  proof (cases "bytes_to_read r = 0")
    case False
    then obtain body p where c: "iov_buf v = Some p"
      "fd_read_loop (r\<lparr>req_cursor := req_cursor r + unat k\<rparr>)
         (write_range b p (map byte_of (take (unat k) (drop (req_cursor r) body)))) vs = Inr (r', b')"
      using Cons.prems(1) by (auto simp: Let_def k_def [symmetric] split: if_splits option.splits)
    have "p + unat (iov_buf_len v) \<le> n \<or> unat (iov_buf_len v) = 0"
      using Cons.prems(2) c(1) by (auto simp: iovs_inside_def iov_span_def subset_iff Suc_le_eq dest: spec [of _ "p + unat (iov_buf_len v) - 1"])
    then have "write_range b p (map byte_of (take (unat k) (drop (req_cursor r) body))) a = b a"
      using k Cons.prems(3) by (intro write_range_same) auto
    then show ?thesis using Cons.IH [OF c(2)] Cons.prems(2,3) by (simp add: iovs_inside_def)
  qed (use Cons.prems in simp)
qed simp

lemma backing_fd_read_outside:
  assumes "wasi_snapshot_preview1_backing_fd_read fd vs r b = Inr (rc, n, r', b')" "iovs_inside k vs" "k \<le> a"
  shows "b' a = b a"
  using assms fd_read_loop_outside by (fastforce simp: wasi_snapshot_preview1_backing_fd_read_def split: if_splits)

lemma fd_read_within:
  "sledge_abi__wasi_snapshot_preview1_fd_read b an fd x n y s = Inr (r, s') \<Longrightarrow> instance_loaded s \<Longrightarrow> within_bounds s s'"
  unfolding sledge_abi__wasi_snapshot_preview1_fd_read_def
  by (erule in_syscall_within, assumption)
    (auto simp: work_simps within_refl write_outside instance_loaded_def split: if_splits option.splits
      dest!: read_vectors_inside, (erule (2) backing_fd_read_outside)+)

lemma fd_write_within:
  "sledge_abi__wasi_snapshot_preview1_fd_write b an fd x n y s = Inr (r, s') \<Longrightarrow> instance_loaded s \<Longrightarrow> within_bounds s s'"
  unfolding sledge_abi__wasi_snapshot_preview1_fd_write_def
  by (erule in_syscall_within, assumption)
    (auto simp: work_simps within_refl write_outside split: if_splits option.splits)

lemma wasi_within:
  assumes "wasi_snapshot_preview1 b an c s = Inr (Returned rc s')" "instance_loaded s"
  shows "within_bounds s s'"
  using assms args_get_within environ_get_within sizes_get_within clock_time_get_within random_get_within fd_read_within
    fd_write_within
  by (cases c) (fastforce simp: returned_def within_refl split: option.splits)+

lemma storage_within:
  "sledge_abi__scratch_storage_get_size b an k kl s = Inr (r, s') \<Longrightarrow> instance_loaded s \<Longrightarrow> within_bounds s s'"
  "sledge_abi__scratch_storage_set b an k kl v vl s = Inr (r2, s') \<Longrightarrow> instance_loaded s \<Longrightarrow> within_bounds s s'"
  "sledge_abi__scratch_storage_delete b an k kl s = Inr (r3, s') \<Longrightarrow> instance_loaded s \<Longrightarrow> within_bounds s s'"
  "sledge_abi__scratch_storage_upsert b an k kl v vl s = Inr (r4, s') \<Longrightarrow> instance_loaded s \<Longrightarrow> within_bounds s s'"
  unfolding sledge_abi__scratch_storage_get_size_def sledge_abi__scratch_storage_set_def sledge_abi__scratch_storage_delete_def
    sledge_abi__scratch_storage_upsert_def
  subgoal by (erule in_syscall_within, assumption) (auto simp: with_key_def work_simps within_refl)
  subgoal by (erule in_syscall_within, assumption)
      (auto simp: with_key_def work_simps unat_u32 intro!: within_storage storage_ok_set)
  subgoal by (erule in_syscall_within, assumption)
      (auto simp: with_key_def work_simps intro!: within_storage dest: storage_ok_delete)
  subgoal by (erule in_syscall_within, assumption)
      (auto simp: with_key_def work_simps unat_u32 intro!: within_storage elim: storage_ok_upsert [rotated 2])
  done

lemma storage_get_cases:
  assumes "sledge_abi__scratch_storage_get b an k kl v vl s = Inr (r, s')"
  shows "\<exists>w2. s' = s\<lparr>abi_worker := w2\<rparr> \<or> (\<exists>bytes val key. wm_buffer (abi_memory s) = Some bytes \<and> map_get (abi_storage s) key = Some val \<and>
     \<not> vl < of_nat (length val) \<and> unat v + unat vl < unat (wm_size (abi_memory s)) \<and>
     s' = (set_bytes (write_range bytes (unat v) val) s)\<lparr>abi_worker := w2\<rparr>)"
proof -
  obtain p w1 s1 w2 where f: "sandbox_syscall b (ans_enter an) p (abi_worker s) = Inr w1"
    "with_key k kl (s\<lparr>abi_worker := w1\<rparr>) (\<lambda>key.
       bindr (get_memory_ptr_for_runtime v vl (s\<lparr>abi_worker := w1\<rparr>)) (\<lambda>buf.
       with_buffer (abi_memory (s\<lparr>abi_worker := w1\<rparr>)) (\<lambda>bytes.
         case map_get (abi_storage (s\<lparr>abi_worker := w1\<rparr>)) key of
           None \<Rightarrow> Inr (1, s\<lparr>abi_worker := w1\<rparr>)
         | Some val \<Rightarrow> if of_nat (length val) > vl then Inr (2, s\<lparr>abi_worker := w1\<rparr>)
             else Inr (0, set_bytes (write_range bytes buf val) (s\<lparr>abi_worker := w1\<rparr>))))) = Inr (r, s1)"
    "s' = s1\<lparr>abi_worker := w2\<rparr>"
    using assms unfolding sledge_abi__scratch_storage_get_def in_syscall_Inr by blast
  then have "s1 = s\<lparr>abi_worker := w1\<rparr> \<or> (\<exists>bytes val key. wm_buffer (abi_memory s) = Some bytes \<and> map_get (abi_storage s) key = Some val \<and>
     \<not> vl < of_nat (length val) \<and> unat v + unat vl < unat (wm_size (abi_memory s)) \<and>
     s1 = (set_bytes (write_range bytes (unat v) val) s)\<lparr>abi_worker := w1\<rparr>)"
    by (auto simp: with_key_def work_simps split: option.splits if_splits)
  then show ?thesis using f(3) by (intro exI [of _ w2]) (elim disjE, simp, rule disjI2, elim exE conjE, intro exI conjI, assumption+, simp)
qed

lemma storage_get_within:
  assumes "sledge_abi__scratch_storage_get b an k kl v vl s = Inr (r, s')" "storage_ok (abi_storage s)"
  shows "within_bounds s s'" "abi_storage s' = abi_storage s"
proof -
  consider w2 where "s' = s\<lparr>abi_worker := w2\<rparr>"
    | w2 bytes val key where "wm_buffer (abi_memory s) = Some bytes" "map_get (abi_storage s) key = Some val"
      "\<not> vl < of_nat (length val)" "unat v + unat vl < unat (wm_size (abi_memory s))"
      "s' = (set_bytes (write_range bytes (unat v) val) s)\<lparr>abi_worker := w2\<rparr>"
    using storage_get_cases [OF assms(1)] by blast
  then show "within_bounds s s'"
  proof cases
    case 1
    then show ?thesis by (simp add: within_refl)
  next
    case 2
    have "length val \<le> unat vl" using 2(3) storage_value_length [OF assms(2) 2(2)] by (simp add: word_less_nat_alt unat_of_nat_u32)
    then show ?thesis using 2 by (simp add: write_outside)
  qed
  show "abi_storage s' = abi_storage s" using storage_get_cases [OF assms(1)] by (auto simp: set_bytes_def)
qed

subsection \<open>The frame of a call\<close>

lemma return_user_mode:
  assumes "sandbox_return b now p w = Inr w'"
  shows "user_mode w'"
  using assms
  by (auto simp: sandbox_return_def sandbox_set_as_running_user_def Let_def user_mode_def set_state_def upd_sandbox_def
      software_interrupt_deferred_sigalrm_replay_def software_interrupt_deferred_sigalrm_clear_def call_out_def
      sandbox_process_scheduler_updates_def charge_def dest!: bookkeeping_effects)

lemma in_syscall_user: "in_syscall b an work s = Inr (r, s') \<Longrightarrow> user_mode (abi_worker s')"
  by (auto simp: in_syscall_Inr dest: return_user_mode)

lemma random_user:
  assumes "sledge_abi__wasi_snapshot_preview1_random_get b an x n s = Inr (Some (r, s'))"
  shows "user_mode (abi_worker s')"
  using assms return_user_mode
  by (auto simp: sledge_abi__wasi_snapshot_preview1_random_get_def split: option.splits)

lemma wasi_user:
  assumes "wasi_snapshot_preview1 b an c s = Inr (Returned rc s')" "user_mode (abi_worker s)"
  shows "user_mode (abi_worker s')"
  using assms
  by (cases c)
    (auto simp: returned_def sledge_abi__wasi_snapshot_preview1_args_get_def sledge_abi__wasi_snapshot_preview1_args_sizes_get_def
       sledge_abi__wasi_snapshot_preview1_clock_time_get_def sledge_abi__wasi_snapshot_preview1_environ_get_def
       sledge_abi__wasi_snapshot_preview1_environ_sizes_get_def sledge_abi__wasi_snapshot_preview1_fd_read_def
       sledge_abi__wasi_snapshot_preview1_fd_write_def dest: in_syscall_user random_user split: option.splits)

lemma storage_user:
  "sledge_abi__scratch_storage_get_size b an k kl s = Inr (r1, s') \<Longrightarrow> user_mode (abi_worker s')"
  "sledge_abi__scratch_storage_get b an k kl v vl s = Inr (r2, s') \<Longrightarrow> user_mode (abi_worker s')"
  "sledge_abi__scratch_storage_set b an k kl v vl s = Inr (r3, s') \<Longrightarrow> user_mode (abi_worker s')"
  "sledge_abi__scratch_storage_delete b an k kl s = Inr (r4, s') \<Longrightarrow> user_mode (abi_worker s')"
  "sledge_abi__scratch_storage_upsert b an k kl v vl s = Inr (r5, s') \<Longrightarrow> user_mode (abi_worker s')"
  unfolding sledge_abi__scratch_storage_get_size_def sledge_abi__scratch_storage_get_def sledge_abi__scratch_storage_set_def
    sledge_abi__scratch_storage_delete_def sledge_abi__scratch_storage_upsert_def
  by (erule in_syscall_user)+

lemma guest_step_wasi: "guest_step b (an, Wasi c) s = Inr (Some s') \<Longrightarrow> \<exists>rc. wasi_snapshot_preview1 b an c s = Inr (Returned rc s')"
  by (cases "wasi_snapshot_preview1 b an c s"; cases "projr (wasi_snapshot_preview1 b an c s)") auto

lemma guest_step_within:
  assumes "guest_ok s" "guest_step b (an, c) s = Inr (Some s')"
  shows "within_bounds s s' \<and> user_mode (abi_worker s')"
proof -
  have l: "instance_loaded s" "storage_ok (abi_storage s)" "user_mode (abi_worker s)" using assms(1) by (simp_all add: guest_ok_def)
  show ?thesis
  proof (cases c)
    case (Wasi x)
    then show ?thesis using guest_step_wasi assms(2) wasi_within [OF _ l(1)] wasi_user [OF _ l(3)] by blast
  qed (use assms(2) l in \<open>auto dest: storage_within storage_get_within(1) storage_user\<close>)
qed

lemma guest_step_ok:
  assumes "guest_ok s" "guest_step b (an, c) s = Inr (Some s')"
  shows "guest_ok s'"
  using guest_step_within [OF assms] loaded_within assms(1) by (auto simp: guest_ok_def within_bounds_def)

interpretation guest: guest_interface "guest_step b" guest_ok for b
  by unfold_locales (auto simp: guest_step_within guest_step_ok)

lemma frame_succeeds:
  assumes "user_mode w" "current w = Some p" "\<not> SANDBOX_STATE_TOTALS b" "last_state_change (sandboxes w p) < t" "t < t'"
  shows "\<exists>w1 w2. sandbox_syscall b t p w = Inr w1 \<and> sandbox_return b t' p w1 = Inr w2"
  using assms
  by (simp add: sandbox_syscall_def sandbox_return_def sandbox_set_as_running_sys_def sandbox_set_as_running_user_def Let_def
      user_mode_def set_state_def upd_sandbox_def state_change_bookkeeping_def sandbox_state_totals_increment_def
      sandbox_state_totals_decrement_def sandbox_process_scheduler_updates_def charge_def)

end
