(* ===== verification/Guest_Calls.thy ===== *)
theory Guest_Calls
  imports Sledge_Abi
begin

text \<open>
  What a function gets out of the calls of the ABI: its arguments, the body of the request, the response it writes,
  memory it asks for, and its globals across a preemption; and that no sequence of calls reaches outside of its memory.
\<close>

subsection \<open>Calls return\<close>

text \<open>The function is running and the clock advances during the call.\<close>

definition ready :: "build_flags \<Rightarrow> answers \<Rightarrow> 'rq abi \<Rightarrow> bool" where
  "ready b an s \<longleftrightarrow> user_mode (abi_worker s) \<and> \<not> SANDBOX_STATE_TOTALS b \<and> ans_enter an < ans_leave an \<and>
     (\<forall>p. current (abi_worker s) = Some p \<longrightarrow> last_state_change (sandboxes (abi_worker s) p) < ans_enter an)"

lemma in_syscall_returns:
  assumes "ready b an s" and work: "\<And>p w. work p (s\<lparr>abi_worker := w\<rparr>) = Inr (r, s1\<lparr>abi_worker := w\<rparr>)"
  shows "\<exists>w. in_syscall b an work s = Inr (r, s1\<lparr>abi_worker := w\<rparr>) \<and> user_mode w"
proof -
  obtain p where p: "current (abi_worker s) = Some p" using assms(1) by (auto simp: ready_def user_mode_def split: option.splits)
  then obtain w1 w2 where w: "sandbox_syscall b (ans_enter an) p (abi_worker s) = Inr w1" "sandbox_return b (ans_leave an) p w1 = Inr w2"
    using frame_succeeds [of "abi_worker s" p b "ans_enter an" "ans_leave an"] assms(1) by (auto simp: ready_def)
  then have "in_syscall b an work s = Inr (r, s1\<lparr>abi_worker := w2\<rparr>)" using p work [of p w1] by (auto simp: in_syscall_Inr)
  then show ?thesis using return_user_mode [OF w(2)] by blast
qed

lemma ptr_ok:
  "unat offset + unat len < unat (wm_size (abi_memory s)) \<Longrightarrow> get_memory_ptr_for_runtime offset len s = Inr (unat offset)"
  by (simp add: ptr_eq)

lemma ptr_worker [simp]: "get_memory_ptr_for_runtime offset len (s\<lparr>abi_worker := w\<rparr>) = get_memory_ptr_for_runtime offset len s"
  by (simp add: get_memory_ptr_for_runtime_def)

subsection \<open>Arguments\<close>

lemma context_of_init:
  assumes "wasi_context_init al (wasi_options_init\<lparr>opt_argv := args\<rparr>) = Inr c" "strings_size args < 2 ^ 32"
  shows "ctx_argc c = of_nat (length args)" "ctx_argv c = buffer_offsets 0 args" "ctx_argv_buf c = packed args"
    "ctx_argv_buf_size c = of_nat (strings_size args)"
proof -
  have "context_args al args = Inr (buffer_offsets 0 args, packed args, of_nat (strings_size args))"
  proof (cases "args = []")
    case False
    then have "calloc_argv al" "calloc_argv_buf al"
      using assms(1) by (auto simp: wasi_context_init_def context_args_def wasi_options_init_def split: if_splits)
    then show ?thesis using assms(2) by (rule context_args_packed)
  qed (simp add: context_args_def)
  then have "c = \<lparr>ctx_argc = of_nat (length args), ctx_argv = buffer_offsets 0 args, ctx_argv_buf = packed args,
      ctx_argv_buf_size = of_nat (strings_size args), ctx_envc = 0, ctx_env = [], ctx_env_buf = [], ctx_env_buf_size = 0\<rparr>"
    using assms(1) by (auto simp: wasi_context_init_def wasi_options_init_def context_env_def split: if_splits)
  then show "ctx_argc c = of_nat (length args)" "ctx_argv c = buffer_offsets 0 args" "ctx_argv_buf c = packed args"
    "ctx_argv_buf_size c = of_nat (strings_size args)" by simp_all
qed

lemma unswizzle_offsets:
  assumes "offs \<noteq> []" "hd offs = (0 :: u32)"
  shows "unswizzle y (map (\<lambda>off. n + unat off) offs) = concat (map (\<lambda>off. le_bytes 4 (y + off)) offs)"
proof -
  have "hd (map (\<lambda>off. n + unat off) offs) = n" using assms by (cases offs) auto
  then show ?thesis by (simp add: unswizzle_def o_def)
qed

lemma read_inside_write:
  "k + n \<le> length xs \<Longrightarrow> read_range (write_range b a xs) (a + k) n = take n (drop k xs)"
  by (auto simp: read_range_def write_range_def intro!: nth_equalityI)

lemma words_at: "i < length ws \<Longrightarrow> take 4 (drop (4 * i) (concat (map (le_bytes 4) ws))) = le_bytes 4 (ws ! i)"
proof (induction ws arbitrary: i)
  case (Cons w ws)
  then show ?case by (cases i) simp_all
qed simp

lemma length_words [simp]: "length (concat (map (le_bytes 4) ws)) = 4 * length ws"
  by (induction ws) simp_all

text \<open>The bytes after the strings and then the pointers to them were written.\<close>

definition args_image :: "byte_array \<Rightarrow> u32 \<Rightarrow> u32 \<Rightarrow> string list \<Rightarrow> byte_array" where
  "args_image bytes x y args =
     write_range (write_range bytes (unat y) (packed args)) (unat x) (concat (map (\<lambda>off. le_bytes 4 (y + off)) (buffer_offsets 0 args)))"

lemma args_image_reads:
  assumes i: "i < length args" and y: "unat y + strings_size args < 2 ^ 32"
    and d: "unat x + 4 * length args \<le> unat y \<or> unat y + strings_size args \<le> unat x"
  shows "read_range (args_image bytes x y args) (unat (of_le (read_range (args_image bytes x y args) (unat x + 4 * i) 4) :: u32))
    (length (args ! i) + 1) = map byte_of (args ! i) @ [0]"
proof -
  let ?k = "strings_size (take i args)"
  let ?ws = "map (\<lambda>off. y + off) (buffer_offsets 0 args)"
  have ws: "concat (map (\<lambda>off. le_bytes 4 (y + off)) (buffer_offsets 0 args)) = concat (map (le_bytes 4) ?ws)"
    by (simp add: o_def)
  have k: "?k + (length (args ! i) + 1) \<le> strings_size args" using strings_size_take [OF i] by simp
  have "read_range (args_image bytes x y args) (unat x + 4 * i) 4 = le_bytes 4 (?ws ! i)"
    unfolding args_image_def ws using i by (subst read_inside_write) (simp_all add: words_at del: map_map)
  then have p: "of_le (read_range (args_image bytes x y args) (unat x + 4 * i) 4) = y + of_nat ?k"
    using i by (simp add: of_le_bytes buffer_offsets_nth)
  have "unat (y + of_nat ?k) = unat y + ?k"
    using k y by (simp add: unat_word_ariths unat_of_nat_u32)
  then have "read_range (args_image bytes x y args) (unat (y + of_nat ?k)) (length (args ! i) + 1) =
      read_range (write_range bytes (unat y) (packed args)) (unat y + ?k) (length (args ! i) + 1)"
    unfolding args_image_def ws using d k i by (subst read_write_disjoint) (auto simp del: map_map)
  also have "\<dots> = take (length (args ! i) + 1) (drop ?k (packed args))" using k by (intro read_inside_write) simp
  finally show ?thesis unfolding p using packed_at [OF i] by simp
qed

lemma args_get_returns:
  assumes "ready b an s" "ans_alloc an" "abi_context s = Some c" "wasi_context_init al (wasi_options_init\<lparr>opt_argv := args\<rparr>) = Inr c"
    and "args \<noteq> []" and m: "wm_buffer (abi_memory s) = Some bytes" "unat (wm_size (abi_memory s)) \<le> 2 ^ 32"
    and x: "unat x + 4 * length args < unat (wm_size (abi_memory s))" and y: "unat y + strings_size args < unat (wm_size (abi_memory s))"
  shows "\<exists>w. sledge_abi__wasi_snapshot_preview1_args_get b an x y s = Inr (0, (set_bytes (args_image bytes x y args) s)\<lparr>abi_worker := w\<rparr>) \<and> user_mode w"
  unfolding sledge_abi__wasi_snapshot_preview1_args_get_def
proof (rule in_syscall_returns [OF assms(1)], goal_cases)
  case (1 p w)
  have l: "strings_size args < 2 ^ 32" "length args < 2 ^ 30" using x y m(2) by simp_all
  note c = context_of_init [OF assms(4) l(1)]
  have u: "unat (of_nat (length args) :: u32) = length args" "unat (of_nat (strings_size args) :: u32) = strings_size args"
    using l by (simp_all add: unat_of_nat_u32)
  then have z: "(of_nat (length args) :: u32) \<noteq> 0" using assms(5) by (metis length_0_conv unsigned_0)
  then have "0 < (of_nat (length args) :: u32)" by (simp add: word_neq_0_conv)
  moreover have "unat (WASI_SERDES_SIZE_size_t * of_nat (length args)) = 4 * length args" using l u unat_four_times by metis
  moreover have "hd (buffer_offsets 0 args) = 0" "buffer_offsets 0 args \<noteq> []" using assms(5) by (cases args; simp)+
  ultimately show ?case
    using assms(2,3) m(1) x y z u c
    by (simp add: ptr_ok with_buffer_def wasi_snapshot_preview1_backing_args_get_def unswizzle_offsets args_image_def
        WASI_ERRNO_SUCCESS_def)
qed

subsection \<open>Streams\<close>

text \<open>The vectors in an array of linear memory, and an array that the runtime accepts.\<close>

definition vectors_at :: "byte_array \<Rightarrow> u32 \<Rightarrow> u32 \<Rightarrow> iovec_t list" where
  "vectors_at bytes x n = map (\<lambda>i. host_iovec (iovec_at bytes (unat x) i)) [0..<unat n]"

definition vectors_ok :: "wasm_memory \<Rightarrow> byte_array \<Rightarrow> u32 \<Rightarrow> u32 \<Rightarrow> bool" where
  "vectors_ok m bytes x n \<longleftrightarrow> unat x + 8 * unat n < unat (wm_size m) \<and> (\<forall>i < unat n. iovec_inside (wm_size m) (iovec_at bytes (unat x) i))"

lemma check_bounds_ok:
  assumes "unat x + 8 * unat n < unat (wm_size (abi_memory s))" "unat (wm_size (abi_memory s)) \<le> 2 ^ 32"
  shows "check_bounds x (of_nat WASI_SERDES_SIZE_iovec_t * n) s = Inr ()"
proof -
  let ?k = "of_nat WASI_SERDES_SIZE_iovec_t * n"
  have k: "unat ?k = 8 * unat n" using assms by (simp add: WASI_SERDES_SIZE_iovec_t_def unat_word_ariths)
  then have "unat (ucast ?k :: u64) = 8 * unat n" "unat (ucast x :: u64) = unat x"
    by (simp_all add: unsigned_ucast_eq take_bit_nat_eq_self less_trans [OF unat_u32])
  moreover from this have "unat (wm_size (abi_memory s) - ucast ?k) = unat (wm_size (abi_memory s)) - 8 * unat n"
    using assms(1) by (simp add: unat_sub word_le_nat_alt)
  moreover have "unat x \<le> unat (wm_size (abi_memory s)) - 8 * unat n" using assms(1) by linarith
  ultimately show ?thesis
    using assms(1) by (simp add: check_bounds_def word_less_nat_alt word_le_nat_alt)
qed

lemma mapped_covers: "unat (wm_capacity m) \<le> mapped_bytes m"
proof -
  have "n \<le> (n + 4096 - 1) div 4096 * 4096" for n :: nat
    using div_mult_mod_eq [of "n + 4095" 4096] mod_less_divisor [of 4096 "n + 4095"] by simp
  then show ?thesis by (simp add: mapped_bytes_def PAGE_SIZE_def)
qed

lemma read_vectors_ok:
  assumes "instance_loaded s" "vectors_ok (abi_memory s) bytes x n"
  shows "read_vectors wasi_serdes_readv_iovec_t bytes x n s = Inr (WASI_ERRNO_SUCCESS, vectors_at bytes x n)"
    and "read_vectors wasi_serdes_readv_ciovec_t bytes x n s = Inr (WASI_ERRNO_SUCCESS, vectors_at bytes x n)"
proof -
  let ?z = "fst (abi_sandbox_memory s)" and ?vs = "replicate (unat n) zero_iovec"
  have "unat (wm_size (abi_memory s)) \<le> mapped_bytes (abi_memory s)"
    using assms(1) mapped_covers [of "abi_memory s"] by (simp add: instance_loaded_def word_le_nat_alt)
  moreover have "unat x + 8 * unat n < unat (wm_size (abi_memory s))" using assms(2) by (simp add: vectors_ok_def)
  ultimately have "8 * unat n \<le> mapped_bytes (abi_memory s) - unat x" by linarith
  then have r: "unat n \<le> (mapped_bytes (abi_memory s) - unat x) div WASI_SERDES_SIZE_iovec_t"
    by (simp add: WASI_SERDES_SIZE_iovec_t_def less_eq_div_iff_mult_less_eq)
  have i: "\<forall>j < unat n. iovec_inside ?z (iovec_at bytes (unat x) j)"
    using assms by (simp add: vectors_ok_def instance_loaded_def)
  have v: "wasi_serdes_readv_iovec_t bytes ?z (unat x) ?vs = (WASI_ERRNO_SUCCESS, vectors_at bytes x n)"
    using readv_iovec_cases [of bytes ?z "unat x" ?vs] i by (simp add: vectors_at_def prod_eq_iff)
  show "read_vectors wasi_serdes_readv_iovec_t bytes x n s = Inr (WASI_ERRNO_SUCCESS, vectors_at bytes x n)"
    "read_vectors wasi_serdes_readv_ciovec_t bytes x n s = Inr (WASI_ERRNO_SUCCESS, vectors_at bytes x n)"
    using r v by (simp_all add: read_vectors_def Let_def readv_iovec_eq min_absorb1 not_less)
qed

lemma vectors_pointers: "pointers_set (vectors_at bytes x n)"
  by (auto simp: pointers_set_def vectors_at_def host_iovec_def split: prod.splits)

lemma gather_same:
  "pointers_set vs \<Longrightarrow> \<forall>v \<in> set vs. iov_span v \<inter> {p..<p + length xs} = {} \<Longrightarrow> gather (write_range b p xs) vs = gather b vs"
  by (induction vs) (auto simp: iov_span_def intro!: read_range_same write_range_same)

lemma read_vectors_worker [simp]: "read_vectors f bytes x n (s\<lparr>abi_worker := w\<rparr>) = read_vectors f bytes x n s"
  by (simp add: read_vectors_def)

lemma check_bounds_worker [simp]: "check_bounds x k (s\<lparr>abi_worker := w\<rparr>) = check_bounds x k s"
  by (simp add: check_bounds_def)

lemma fd_read_returns:
  assumes "instance_loaded s" "ready b an s" "ans_alloc an" "wm_buffer (abi_memory s) = Some bytes" "vectors_ok (abi_memory s) bytes x n"
    and y: "unat y + 4 < unat (wm_size (abi_memory s))" and body: "body_arrived (abi_request s) body"
  defines "k \<equiv> min (iov_total (vectors_at bytes x n)) (length body - req_cursor (abi_request s))"
  shows "\<exists>bytes1 w. sledge_abi__wasi_snapshot_preview1_fd_read b an STDIN_FILENO x n y s =
      Inr (0, (set_bytes (write_range bytes1 (unat y) (le_bytes 4 (of_nat k :: u32))) s)
        \<lparr>abi_request := (abi_request s)\<lparr>req_cursor := req_cursor (abi_request s) + k\<rparr>, abi_worker := w\<rparr>) \<and> user_mode w \<and>
    (iovs_disjoint (vectors_at bytes x n) \<longrightarrow>
       take k (gather bytes1 (vectors_at bytes x n)) = map byte_of (take k (drop (req_cursor (abi_request s)) body)))"
proof -
  obtain bytes1 where l: "fd_read_loop (abi_request s) bytes (vectors_at bytes x n) =
      Inr ((abi_request s)\<lparr>req_cursor := req_cursor (abi_request s) + k\<rparr>, bytes1)"
    "iovs_disjoint (vectors_at bytes x n) \<longrightarrow>
       take k (gather bytes1 (vectors_at bytes x n)) = map byte_of (take k (drop (req_cursor (abi_request s)) body))"
    using fd_read_loop_ok [OF body vectors_pointers, of bytes bytes x n] unfolding k_def by blast
  have z: "unat (wm_size (abi_memory s)) \<le> 2 ^ 32" "unat x + 8 * unat n < unat (wm_size (abi_memory s))"
    using assms(1,5) by (simp_all add: instance_loaded_def vectors_ok_def)
  have "\<exists>w. sledge_abi__wasi_snapshot_preview1_fd_read b an STDIN_FILENO x n y s =
      Inr (0, ((set_bytes (write_range bytes1 (unat y) (le_bytes 4 (of_nat k :: u32))) s)
        \<lparr>abi_request := (abi_request s)\<lparr>req_cursor := req_cursor (abi_request s) + k\<rparr>\<rparr>)\<lparr>abi_worker := w\<rparr>) \<and> user_mode w"
    unfolding sledge_abi__wasi_snapshot_preview1_fd_read_def
    by (rule in_syscall_returns [OF assms(2)])
      (use assms(3,4) y l(1) check_bounds_ok [OF z(2,1)] read_vectors_ok(1) [OF assms(1,5)] in
        \<open>simp add: ptr_ok with_buffer_def wasi_snapshot_preview1_backing_fd_read_def WASI_ERRNO_SUCCESS_def\<close>)
  then show ?thesis using l(2) by auto
qed

lemma fd_write_returns:
  assumes "instance_loaded s" "ready b an s" "ans_alloc an" "wm_buffer (abi_memory s) = Some bytes" "vectors_ok (abi_memory s) bytes x n"
    and y: "unat y + 4 < unat (wm_size (abi_memory s))" and fd: "fd \<in> {STDOUT_FILENO, STDERR_FILENO}"
  defines "out \<equiv> map char_of_byte (gather bytes (vectors_at bytes x n))"
  shows "\<exists>w. sledge_abi__wasi_snapshot_preview1_fd_write b an fd x n y s = Inr (
      if iov_total (vectors_at bytes x n) \<le> ans_room an
      then (0, (set_bytes (write_range bytes (unat y) (le_bytes 4 (of_nat (iov_total (vectors_at bytes x n)) :: u32))) s)
             \<lparr>abi_response := abi_response s @ out, abi_worker := w\<rparr>)
      else (ucast WASI_ERRNO_FBIG, (set_bytes bytes s)\<lparr>abi_response := abi_response s @ take (ans_room an) out, abi_worker := w\<rparr>)) \<and> user_mode w"
proof -
  have z: "unat (wm_size (abi_memory s)) \<le> 2 ^ 32" "unat x + 8 * unat n < unat (wm_size (abi_memory s))"
    using assms(1,5) by (simp_all add: instance_loaded_def vectors_ok_def)
  note facts = assms(3,4) y check_bounds_ok [OF z(2,1)] read_vectors_ok(2) [OF assms(1,5)]
    fd_write_loop_ok [OF vectors_pointers, of "ans_room an" bytes "abi_response s" 0 bytes x n]
  have c: "fd = STDOUT_FILENO \<or> fd = STDERR_FILENO" using fd by simp
  show ?thesis
  proof (cases "iov_total (vectors_at bytes x n) \<le> ans_room an")
    case True
    have "\<exists>w. sledge_abi__wasi_snapshot_preview1_fd_write b an fd x n y s = Inr (0,
        ((set_bytes (write_range bytes (unat y) (le_bytes 4 (of_nat (iov_total (vectors_at bytes x n)) :: u32))) s)
          \<lparr>abi_response := abi_response s @ out\<rparr>)\<lparr>abi_worker := w\<rparr>) \<and> user_mode w"
      unfolding sledge_abi__wasi_snapshot_preview1_fd_write_def
      by (rule in_syscall_returns [OF assms(2)])
        (use facts c True in \<open>simp add: ptr_ok with_buffer_def wasi_snapshot_preview1_backing_fd_write_def WASI_ERRNO_SUCCESS_def out_def\<close>)
    then show ?thesis using True by auto
  next
    case False
    have "\<exists>w. sledge_abi__wasi_snapshot_preview1_fd_write b an fd x n y s = Inr (ucast WASI_ERRNO_FBIG,
        ((set_bytes bytes s)\<lparr>abi_response := abi_response s @ take (ans_room an) out\<rparr>)\<lparr>abi_worker := w\<rparr>) \<and> user_mode w"
      unfolding sledge_abi__wasi_snapshot_preview1_fd_write_def
      by (rule in_syscall_returns [OF assms(2)])
        (use facts c False in \<open>simp add: ptr_ok with_buffer_def wasi_snapshot_preview1_backing_fd_write_def out_def\<close>)
    then show ?thesis using False by auto
  qed
qed

subsection \<open>Memory and globals\<close>

definition memory_bounds :: "wasm_memory \<Rightarrow> bool" where
  "memory_bounds m \<longleftrightarrow> wm_size m \<le> wm_capacity m \<and> wm_capacity m \<le> wm_max m \<and> unat (wm_max m) \<le> 2 ^ 32"

text \<open>The bytes that \<open>memory.grow\<close> really asks for.\<close>

definition grow_bytes :: "u32 \<Rightarrow> nat" where
  "grow_bytes page_count = unat page_count * WASM_PAGE_SIZE mod 2 ^ 32"

lemma grow_bytes_eq: "unat (ucast (page_count * of_nat WASM_PAGE_SIZE :: u32) :: u64) = grow_bytes page_count"
  by (simp add: grow_bytes_def unsigned_ucast_eq WASM_PAGE_SIZE_def unat_word_ariths take_bit_eq_mod less_trans [OF unat_u32])

lemma expand_cases:
  assumes "memory_bounds m" "unat d < 2 ^ 32"
  shows "wasm_memory_expand ok m d =
    (if unat (wm_size m) + unat d \<le> unat (wm_max m) \<and> (ok \<or> unat (wm_size m) + unat d \<le> unat (wm_capacity m))
     then (0, m\<lparr>wm_capacity := (if wm_capacity m < wm_size m + d then wm_size m + d else wm_capacity m), wm_size := wm_size m + d\<rparr>) else (- 1, m))"
proof -
  have "unat (wm_size m) + unat d < 2 ^ 64" using assms by (simp add: memory_bounds_def word_le_nat_alt)
  then have "unat (wm_size m + d) = unat (wm_size m) + unat d" by (simp add: unat_word_ariths)
  then show ?thesis by (auto simp: wasm_memory_expand_def Let_def word_less_nat_alt)
qed

definition grow_fits :: "bool \<Rightarrow> wasm_memory \<Rightarrow> u32 \<Rightarrow> bool" where
  "grow_fits mapped m page_count \<longleftrightarrow> unat (wm_size m) + grow_bytes page_count \<le> unat (wm_max m) \<and>
     (mapped \<or> unat (wm_size m) + grow_bytes page_count \<le> unat (wm_capacity m))"

lemma grow_ok:
  assumes "ready b an s" "memory_bounds (abi_memory s)" "grow_fits (ans_mprotect an) (abi_memory s) page_count"
  shows "\<exists>s'. instruction_memory_grow b an page_count s = Inr (wasm_memory_get_page_count (abi_memory s), s') \<and>
    wm_buffer (abi_memory s') = wm_buffer (abi_memory s) \<and> memory_bounds (abi_memory s') \<and>
    unat (wm_size (abi_memory s')) = unat (wm_size (abi_memory s)) + grow_bytes page_count \<and>
    fst (abi_sandbox_memory s') = wm_size (abi_memory s')"
proof -
  define d :: u64 where "d = ucast (page_count * of_nat WASM_PAGE_SIZE :: u32)"
  define m where "m = abi_memory s"
  define m' where "m' = m\<lparr>wm_capacity := (if wm_capacity m < wm_size m + d then wm_size m + d else wm_capacity m), wm_size := wm_size m + d\<rparr>"
  have d: "unat d = grow_bytes page_count" "unat d < 2 ^ 32" using grow_bytes_eq [of page_count] by (simp_all add: d_def grow_bytes_def)
  have e: "wasm_memory_expand (ans_mprotect an) (abi_memory s) d = (0, m')"
    using expand_cases [OF assms(2) d(2)] assms(3) by (simp add: d(1) grow_fits_def m'_def m_def)
  have sum: "unat (wm_size m + d) = unat (wm_size m) + grow_bytes page_count"
    using assms(2) d by (simp add: unat_word_ariths memory_bounds_def word_le_nat_alt m_def)
  have "\<exists>w. instruction_memory_grow b an page_count s = Inr (wasm_memory_get_page_count m,
      (current_sandbox_memory_writeback (s\<lparr>abi_memory := m'\<rparr>))\<lparr>abi_worker := w\<rparr>) \<and> user_mode w"
    unfolding instruction_memory_grow_def sledge_abi__wasm_memory_expand_def
    by (rule in_syscall_returns [OF assms(1)])
      (use e in \<open>simp add: d_def [symmetric] m_def wasm_memory_get_page_count_def current_sandbox_memory_writeback_def\<close>)
  moreover have "memory_bounds m'"
    using assms(2,3) sum by (auto simp: memory_bounds_def grow_fits_def m_def m'_def word_le_nat_alt word_less_nat_alt)
  ultimately show ?thesis using sum by (auto simp: current_sandbox_memory_writeback_def m_def m'_def)
qed

lemma grow_refused:
  assumes "ready b an s" "memory_bounds (abi_memory s)" "\<not> grow_fits (ans_mprotect an) (abi_memory s) page_count"
  shows "\<exists>w. instruction_memory_grow b an page_count s = Inr (- 1, s\<lparr>abi_worker := w\<rparr>)"
proof -
  define d :: u64 where "d = ucast (page_count * of_nat WASM_PAGE_SIZE :: u32)"
  have d: "unat d = grow_bytes page_count" "unat d < 2 ^ 32" using grow_bytes_eq [of page_count] by (simp_all add: d_def grow_bytes_def)
  have e: "wasm_memory_expand (ans_mprotect an) (abi_memory s) d = (- 1, abi_memory s)"
    using expand_cases [OF assms(2) d(2)] assms(3) by (simp add: d(1) grow_fits_def)
  have "\<exists>w. instruction_memory_grow b an page_count s = Inr (- 1, s\<lparr>abi_worker := w\<rparr>) \<and> user_mode w"
    unfolding instruction_memory_grow_def sledge_abi__wasm_memory_expand_def
    by (rule in_syscall_returns [OF assms(1)]) (use e in \<open>simp add: d_def [symmetric]\<close>)
  then show ?thesis by blast
qed

lemma grow_bytes_small: "unat page_count < 2 ^ 16 \<Longrightarrow> grow_bytes page_count = unat page_count * WASM_PAGE_SIZE"
  by (simp add: grow_bytes_def WASM_PAGE_SIZE_def)

lemma write_back_ok:
  assumes "globals_ok (abi_globals s)" "0 < vec_capacity (abi_globals s)" "writable (global_at (abi_globals s) 0)"
  shows "\<exists>g. write_back_global_0 an s = Inr (s\<lparr>abi_globals := g\<rparr>) \<and> globals_ok g \<and> vec_capacity g = vec_capacity (abi_globals s) \<and>
    global_at g 0 = \<lparr>global_type = WASM_GLOBAL_TYPE_I64, global_mut = True, global_value = union_of (ans_pad an) (ucast (abi_wasmg_0 s))\<rparr> \<and>
    (\<forall>j. j \<noteq> 0 \<longrightarrow> same_reads (abi_globals s) g j)"
proof -
  have i: "unat (0 :: u32) < unat (vec_capacity (abi_globals s))" using assms(2) by (simp add: word_less_nat_alt)
  show ?thesis
    using insert_global [OF assms(1) i, of "ans_alloc an" "ans_fresh an"
        "\<lparr>global_type = WASM_GLOBAL_TYPE_I64, global_mut = True, global_value = union_of (ans_pad an) (ucast (abi_wasmg_0 s))\<rparr>"] assms(3) i
    by (auto simp: write_back_global_0_def set_global_eq [OF assms(1)])
qed

lemma load_instance_ok:
  assumes "globals_ok (abi_globals s)" "0 < vec_capacity (abi_globals s)" "abi_sandbox_memory s = (sz, cap, mx)"
  shows "load_instance previous s = Inr (s\<lparr>abi_memory := (abi_memory s)\<lparr>wm_size := sz, wm_capacity := cap, wm_max := mx\<rparr>,
    abi_wasmg_0 := (if global_type (global_at (abi_globals s) 0) = WASM_GLOBAL_TYPE_UNUSED then previous
                    else global_value (global_at (abi_globals s) 0))\<rparr>)"
  using assms get_global(3) [OF assms(1), of 0 previous] by (simp add: load_instance_def word_less_nat_alt)

lemma preempt_and_resume:
  assumes "globals_ok (abi_globals s)" "0 < vec_capacity (abi_globals s)" "writable (global_at (abi_globals s) 0)"
  shows "\<exists>s2 s3. write_back_global_0 an (s\<lparr>abi_wasmg_0 := x\<rparr>) = Inr s2 \<and> load_instance previous s2 = Inr s3 \<and>
      abi_wasmg_0 s3 = union_of (ans_pad an) (ucast x) \<and> (\<forall>j. j \<noteq> 0 \<longrightarrow> same_reads (abi_globals s) (abi_globals s3) j)"
proof -
  obtain sz cap mx where z: "abi_sandbox_memory s = (sz, cap, mx)" by (cases "abi_sandbox_memory s")
  let ?s = "s\<lparr>abi_wasmg_0 := x\<rparr>"
  obtain g where g: "write_back_global_0 an ?s = Inr (?s\<lparr>abi_globals := g\<rparr>)" "globals_ok g" "vec_capacity g = vec_capacity (abi_globals s)"
    "global_at g 0 = \<lparr>global_type = WASM_GLOBAL_TYPE_I64, global_mut = True, global_value = union_of (ans_pad an) (ucast x)\<rparr>"
    "\<forall>j. j \<noteq> 0 \<longrightarrow> same_reads (abi_globals s) g j"
    using write_back_ok [of ?s an] assms by auto
  have l: "globals_ok (abi_globals (?s\<lparr>abi_globals := g\<rparr>))" "0 < vec_capacity (abi_globals (?s\<lparr>abi_globals := g\<rparr>))"
    "abi_sandbox_memory (?s\<lparr>abi_globals := g\<rparr>) = (sz, cap, mx)" using g assms(2) z by simp_all
  show ?thesis using g(1,4,5) load_instance_ok [OF l, of previous] by simp
qed

subsection \<open>A sample function\<close>

definition sample_worker :: "unit worker" where
  "sample_worker = (idle_worker ())\<lparr>sandboxes := (\<lambda>p. zero_sandbox\<lparr>sb_state := SANDBOX_RUNNING_USER, absolute_deadline := 100, last_state_change := 10\<rparr>),
     current := Some 7, worker_deadline := 100\<rparr>"

definition sample_answers :: answers where
  "sample_answers = \<lparr>ans_enter = 20, ans_leave = 30, ans_alloc = True, ans_garbage_null = True, ans_mprotect = True,
     ans_clock = Inr (1, 5), ans_open = True, ans_reads = [], ans_randoms = [], ans_room = 1000, ans_fresh = [], ans_pad = 0\<rparr>"

definition sample_instance :: "byte_array \<Rightarrow> wasi_context option \<Rightarrow> unit abi" where
  "sample_instance bytes c = \<lparr>abi_worker = sample_worker,
     abi_memory = \<lparr>wm_size = 65536, wm_capacity = 65536, wm_max = 131072, wm_buffer = Some bytes\<rparr>,
     abi_sandbox_memory = (65536, 65536, 131072),
     abi_globals = \<lparr>vec_length = 0, vec_capacity = 2, vec_buffer = Some (replicate 2 zero_global)\<rparr>, abi_wasmg_0 = 0,
     abi_context = c, abi_request = zero_request\<lparr>req_body := Some ''hello'', body_length := 5\<rparr>, abi_response = ''>'',
     abi_storage = map_init, abi_has_udev = True\<rparr>"

lemma sample_ready: "ready default_build sample_answers (sample_instance bytes c)"
  by (simp add: ready_def user_mode_def sample_instance_def sample_worker_def sample_answers_def default_build_def)

lemma sample_loaded: "instance_loaded (sample_instance bytes None)"
  by (simp add: instance_loaded_def sample_instance_def)

lemma sample_ok: "guest_ok (sample_instance bytes None)"
  using sample_loaded
  by (simp add: guest_ok_def storage_ok_def map_init_def) (simp add: sample_instance_def storage_ok_def map_init_def user_mode_def sample_worker_def)

text \<open>One vector of five bytes at 200, stored at 100.\<close>

definition sample_bytes :: byte_array where
  "sample_bytes = write_range (\<lambda>_. 65) 100 (le_bytes 4 (200 :: u32) @ le_bytes 4 (5 :: u32))"

lemma sample_vector: "iovec_at sample_bytes 100 0 = (200, 5)"
proof -
  have "read_range sample_bytes 100 (4 + 4) = le_bytes 4 (200 :: u32) @ le_bytes 4 (5 :: u32)" by (simp add: sample_bytes_def)
  then have "read_range sample_bytes 100 4 = le_bytes 4 (200 :: u32)" "read_range sample_bytes 104 4 = le_bytes 4 (5 :: u32)"
    using read_range_append [of sample_bytes 100 4 4] by simp_all
  then show ?thesis by (simp add: iovec_at_def of_le_bytes)
qed

lemma sample_vectors:
  "vectors_ok (abi_memory (sample_instance sample_bytes None)) sample_bytes 100 1"
  "vectors_at sample_bytes 100 1 = [\<lparr>iov_buf = Some 200, iov_buf_len = 5\<rparr>]"
  using sample_vector by (simp_all add: vectors_ok_def vectors_at_def sample_instance_def iovec_inside_def host_iovec_def)

subsection \<open>Properties\<close>

text \<open>
  Claim C1: no sequence of calls reaches outside of the linear memory of the function. Whatever WASI calls and calls of the
  scratch storage a function makes, with whatever offsets and lengths, as long as they return, no byte at or beyond the
  size of its memory is changed, the size and the mapped pages stay, its globals and its WASI context stay, and it is
  running in user mode again with a well-formed instance.
\<close>

theorem guest_calls_contained:
  assumes "guest_ok s" "run_calls (guest_step b) cs s = Inr (Some s')"
  shows "within_bounds s s' \<and> guest_ok s'"
  by (rule guest.calls_within [OF assms])

theorem guest_calls_contained_witness:
  "\<exists>s'. run_calls (guest_step default_build) [(sample_answers, Wasi (Fd_write 1 100 1 300)), (sample_answers, Wasi (Unsupported Sched_yield))]
     (sample_instance sample_bytes None) = Inr (Some s') \<and> within_bounds (sample_instance sample_bytes None) s'"
proof -
  let ?s = "sample_instance sample_bytes None"
  obtain r s1 where s1: "sledge_abi__wasi_snapshot_preview1_fd_write default_build sample_answers 1 100 1 300 ?s = Inr (r, s1)"
    using fd_write_returns [OF sample_loaded sample_ready _ _ sample_vectors(1), of 300 1]
    by (auto simp: sample_answers_def sample_instance_def STDOUT_FILENO_def split: if_splits)
  then have "run_calls (guest_step default_build) [(sample_answers, Wasi (Fd_write 1 100 1 300)), (sample_answers, Wasi (Unsupported Sched_yield))]
      ?s = Inr (Some s1)" by (simp add: returned_def)
  then show ?thesis using guest_calls_contained [OF sample_ok] by blast
qed

text \<open>
  Claim C22: the arguments of a function arrive. When the context was made from a list of arguments and the function offers
  room for the pointers and for the strings, as the call for the sizes told it, the call returns with success, and
  every pointer it stored leads to the argument of its position, with its terminator.
\<close>

theorem arguments_arrive:
  assumes "ready b an s" "ans_alloc an" "abi_context s = Some c" "wasi_context_init al (wasi_options_init\<lparr>opt_argv := args\<rparr>) = Inr c"
    and "args \<noteq> []" "wm_buffer (abi_memory s) = Some bytes" "unat (wm_size (abi_memory s)) \<le> 2 ^ 32"
    and "unat x + 4 * length args < unat (wm_size (abi_memory s))" "unat y + strings_size args < unat (wm_size (abi_memory s))"
    and "unat x + 4 * length args \<le> unat y \<or> unat y + strings_size args \<le> unat x"
  shows "wasi_snapshot_preview1_backing_args_sizes_get (abi_context s) =
      (WASI_ERRNO_SUCCESS, Some (of_nat (length args), of_nat (strings_size args))) \<and>
    (\<exists>s' bytes'. sledge_abi__wasi_snapshot_preview1_args_get b an x y s = Inr (0, s') \<and> wm_buffer (abi_memory s') = Some bytes' \<and>
      (\<forall>i < length args. read_range bytes' (unat (of_le (read_range bytes' (unat x + 4 * i) 4) :: u32)) (length (args ! i) + 1) =
         map byte_of (args ! i) @ [0]))"
proof -
  have l: "strings_size args < 2 ^ 32" "unat y + strings_size args < 2 ^ 32" using assms(7,9) by simp_all
  obtain w where "sledge_abi__wasi_snapshot_preview1_args_get b an x y s = Inr (0, (set_bytes (args_image bytes x y args) s)\<lparr>abi_worker := w\<rparr>)"
    using args_get_returns [OF assms(1-9)] by blast
  moreover have "wm_buffer (abi_memory ((set_bytes (args_image bytes x y args) s)\<lparr>abi_worker := w\<rparr>)) = Some (args_image bytes x y args)"
    by (simp add: set_bytes_def)
  ultimately show ?thesis
    using args_image_reads [OF _ l(2) assms(10)] context_of_init [OF assms(4) l(1)] assms(3)
    by (auto simp: wasi_snapshot_preview1_backing_args_sizes_get_def)
qed

theorem arguments_arrive_witness:
  "\<exists>c s' bytes'. wasi_context_init \<lparr>calloc_context = True, calloc_argv = True, calloc_argv_buf = True, calloc_env = True, calloc_env_buf = True\<rparr>
       (wasi_options_init\<lparr>opt_argv := [''f'', ''10'']\<rparr>) = Inr c \<and>
     sledge_abi__wasi_snapshot_preview1_args_get default_build sample_answers 100 200 (sample_instance sample_bytes (Some c)) = Inr (0, s') \<and>
     wm_buffer (abi_memory s') = Some bytes' \<and>
     read_range bytes' (unat (of_le (read_range bytes' 104 4) :: u32)) 3 = [byte_of (CHR ''1''), byte_of (CHR ''0''), 0]"
proof -
  let ?al = "\<lparr>calloc_context = True, calloc_argv = True, calloc_argv_buf = True, calloc_env = True, calloc_env_buf = True\<rparr>"
  obtain c where c: "wasi_context_init ?al (wasi_options_init\<lparr>opt_argv := [''f'', ''10'']\<rparr>) = Inr c"
    using wasi_context_init_packed [of ?al "wasi_options_init\<lparr>opt_argv := [''f'', ''10'']\<rparr>"] by (simp add: wasi_options_init_def)
  let ?s = "sample_instance sample_bytes (Some c)"
  have s: "ans_alloc sample_answers" "abi_context ?s = Some c" "wm_buffer (abi_memory ?s) = Some sample_bytes" "unat (wm_size (abi_memory ?s)) = 65536"
    by (simp_all add: sample_answers_def sample_instance_def)
  obtain s' bytes' where r: "sledge_abi__wasi_snapshot_preview1_args_get default_build sample_answers 100 200 ?s = Inr (0, s')"
    "wm_buffer (abi_memory s') = Some bytes'" and i: "\<And>i. i < length [''f'', ''10''] \<Longrightarrow> read_range bytes'
        (unat (of_le (read_range bytes' (unat (100 :: u32) + 4 * i) 4) :: u32)) (length ([''f'', ''10''] ! i) + 1) =
          map byte_of ([''f'', ''10''] ! i) @ [0]"
    using arguments_arrive [OF sample_ready s(1,2) c _ s(3), of 100 200] s(4) by auto
  have "read_range bytes' (unat (of_le (read_range bytes' 104 4) :: u32)) 3 = [byte_of (CHR ''1''), byte_of (CHR ''0''), 0]"
    using i [of 1] by (simp add: numeral_3_eq_3)
  then show ?thesis using c r by blast
qed

text \<open>
  Claim C20: the body of the request reaches the function in order. A read from standard input into separate vectors inside
  of the memory returns with success, fills the vectors one after the other with the next bytes of the body, as many as
  fit or as are left, advances the cursor by that number and stores it where the function asked for it, provided that place
  is not in one of the vectors.
\<close>

theorem stdin_delivers_body:
  assumes "instance_loaded s" "ready b an s" "ans_alloc an" "wm_buffer (abi_memory s) = Some bytes" "vectors_ok (abi_memory s) bytes x n"
    and "unat y + 4 < unat (wm_size (abi_memory s))" "body_arrived (abi_request s) body" "iovs_disjoint (vectors_at bytes x n)"
    and "\<forall>v \<in> set (vectors_at bytes x n). iov_span v \<inter> {unat y..<unat y + 4} = {}"
    and "k = min (iov_total (vectors_at bytes x n)) (length body - req_cursor (abi_request s))"
  shows "\<exists>s' bytes'. sledge_abi__wasi_snapshot_preview1_fd_read b an STDIN_FILENO x n y s = Inr (0, s') \<and>
    wm_buffer (abi_memory s') = Some bytes' \<and> of_le (read_range bytes' (unat y) 4) = (of_nat k :: u32) \<and>
    take k (gather bytes' (vectors_at bytes x n)) = map byte_of (take k (drop (req_cursor (abi_request s)) body)) \<and>
    abi_request s' = (abi_request s)\<lparr>req_cursor := req_cursor (abi_request s) + k\<rparr> \<and> abi_response s' = abi_response s"
proof -
  obtain bytes1 w where r: "sledge_abi__wasi_snapshot_preview1_fd_read b an STDIN_FILENO x n y s =
      Inr (0, (set_bytes (write_range bytes1 (unat y) (le_bytes 4 (of_nat k :: u32))) s)
        \<lparr>abi_request := (abi_request s)\<lparr>req_cursor := req_cursor (abi_request s) + k\<rparr>, abi_worker := w\<rparr>)"
    "take k (gather bytes1 (vectors_at bytes x n)) = map byte_of (take k (drop (req_cursor (abi_request s)) body))"
    using fd_read_returns [OF assms(1-7)] assms(8,10) by blast
  have "gather (write_range bytes1 (unat y) (le_bytes 4 (of_nat k :: u32))) (vectors_at bytes x n) = gather bytes1 (vectors_at bytes x n)"
    using assms(9) vectors_pointers [of bytes x n] by (intro gather_same) auto
  then show ?thesis using r by (simp add: set_bytes_def of_le_bytes)
qed

theorem stdin_delivers_body_witness:
  "\<exists>s' bytes'. sledge_abi__wasi_snapshot_preview1_fd_read default_build sample_answers STDIN_FILENO 100 1 300 (sample_instance sample_bytes None) = Inr (0, s') \<and>
     wm_buffer (abi_memory s') = Some bytes' \<and> read_range bytes' 200 5 = map byte_of ''hello''"
proof -
  let ?s = "sample_instance sample_bytes None"
  have s: "ans_alloc sample_answers" "wm_buffer (abi_memory ?s) = Some sample_bytes" "unat (300 :: u32) + 4 < unat (wm_size (abi_memory ?s))"
    "body_arrived (abi_request ?s) ''hello''" "req_cursor (abi_request ?s) = 0"
    by (simp_all add: sample_answers_def sample_instance_def body_arrived_def zero_request_def)
  have v: "iovs_disjoint (vectors_at sample_bytes 100 1)"
    "\<forall>v \<in> set (vectors_at sample_bytes 100 1). iov_span v \<inter> {unat (300 :: u32)..<unat (300 :: u32) + 4} = {}"
    "5 = min (iov_total (vectors_at sample_bytes 100 1)) (length ''hello'' - req_cursor (abi_request ?s))"
    using s(5) by (simp_all add: sample_vectors(2) iov_span_def)
  obtain s' bytes' where r: "sledge_abi__wasi_snapshot_preview1_fd_read default_build sample_answers STDIN_FILENO 100 1 300 ?s = Inr (0, s')"
    "wm_buffer (abi_memory s') = Some bytes'"
    "take 5 (gather bytes' (vectors_at sample_bytes 100 1)) = map byte_of (take 5 (drop (req_cursor (abi_request ?s)) ''hello''))"
    using stdin_delivers_body [OF sample_loaded sample_ready s(1,2) sample_vectors(1) s(3,4) v] by blast
  have "read_range bytes' 200 5 = map byte_of ''hello''" using r(3) s(5) by (simp add: sample_vectors(2) del: list.map)
  then show ?thesis using r by blast
qed

text \<open>
  Claim C21: what a function writes becomes the body of its response. A write to standard output or error from vectors inside of
  the memory returns; it appends the bytes of the vectors, in order, to what was written before and stores their number.
  If the stream takes only some of them, the answer is the error for a file that is too big, and just those
  bytes were appended.
\<close>

theorem stdout_appends_response:
  assumes "instance_loaded s" "ready b an s" "ans_alloc an" "wm_buffer (abi_memory s) = Some bytes" "vectors_ok (abi_memory s) bytes x n"
    and "unat y + 4 < unat (wm_size (abi_memory s))" "fd \<in> {STDOUT_FILENO, STDERR_FILENO}"
    and "out = map char_of_byte (gather bytes (vectors_at bytes x n))"
  shows "\<exists>rc s' bytes'. sledge_abi__wasi_snapshot_preview1_fd_write b an fd x n y s = Inr (rc, s') \<and>
    wm_buffer (abi_memory s') = Some bytes' \<and> abi_request s' = abi_request s \<and>
    abi_response s' = abi_response s @ take (ans_room an) out \<and>
    (if length out \<le> ans_room an then rc = 0 \<and> of_le (read_range bytes' (unat y) 4) = (of_nat (length out) :: u32)
     else rc = ucast WASI_ERRNO_FBIG \<and> bytes' = bytes)"
proof -
  have l: "length out = iov_total (vectors_at bytes x n)" by (simp add: assms(8))
  show ?thesis
    using fd_write_returns [OF assms(1-7), folded assms(8) l] assms(4)
    by (cases "length out \<le> ans_room an") (auto simp: set_bytes_def of_le_bytes)
qed

theorem stdout_appends_response_witness:
  "\<exists>rc s'. sledge_abi__wasi_snapshot_preview1_fd_write default_build sample_answers STDOUT_FILENO 100 1 300 (sample_instance sample_bytes None) = Inr (rc, s') \<and>
     rc = 0 \<and> abi_response s' = ''>AAAAA''"
proof -
  let ?s = "sample_instance sample_bytes None"
  have s: "ans_alloc sample_answers" "wm_buffer (abi_memory ?s) = Some sample_bytes" "unat (300 :: u32) + 4 < unat (wm_size (abi_memory ?s))"
    "STDOUT_FILENO \<in> {STDOUT_FILENO, STDERR_FILENO}" "ans_room sample_answers = 1000" "abi_response ?s = ''>''"
    by (simp_all add: sample_answers_def sample_instance_def)
  have g: "map char_of_byte (gather sample_bytes (vectors_at sample_bytes 100 1)) = ''AAAAA''"
    by (simp add: sample_vectors(2)) (simp add: read_range_def sample_bytes_def write_range_def upt_rec char_of_byte_def char_of_def bit_0)
  show ?thesis
    using stdout_appends_response [OF sample_loaded sample_ready s(1,2) sample_vectors(1) s(3,4) g [symmetric]] s(5,6) by auto
qed

text \<open>
  Claim C23: what \<open>memory.grow\<close> does. The call always returns. It adds the number of pages times the page size, computed in
  32 bits, if that stays below the maximum and the pages can be mapped, keeps every byte, and answers with the number of pages
  before; otherwise it answers -1 and changes nothing. Below 65536 pages that is what WebAssembly asks for; a request for 65536 pages,
  which cannot be met, is answered with success although the memory has not grown.
\<close>

theorem memory_grow_result:
  assumes "ready b an s" "memory_bounds (abi_memory s)"
  shows "(\<exists>rc s'. instruction_memory_grow b an page_count s = Inr (rc, s') \<and>
      wm_buffer (abi_memory s') = wm_buffer (abi_memory s) \<and> memory_bounds (abi_memory s') \<and>
      (if unat (wm_size (abi_memory s)) + grow_bytes page_count \<le> unat (wm_max (abi_memory s)) \<and>
          (ans_mprotect an \<or> unat (wm_size (abi_memory s)) + grow_bytes page_count \<le> unat (wm_capacity (abi_memory s)))
       then rc = wasm_memory_get_page_count (abi_memory s) \<and> fst (abi_sandbox_memory s') = wm_size (abi_memory s') \<and>
         unat (wm_size (abi_memory s')) = unat (wm_size (abi_memory s)) + grow_bytes page_count
       else rc = - 1 \<and> abi_memory s' = abi_memory s \<and> abi_sandbox_memory s' = abi_sandbox_memory s)) \<and>
    (unat page_count < 2 ^ 16 \<longrightarrow> grow_bytes page_count = unat page_count * WASM_PAGE_SIZE) \<and> grow_bytes 0x10000 = 0"
proof (intro conjI impI)
  show "unat page_count < 2 ^ 16 \<Longrightarrow> grow_bytes page_count = unat page_count * WASM_PAGE_SIZE" by (rule grow_bytes_small)
  show "grow_bytes 0x10000 = 0" by (simp add: grow_bytes_def WASM_PAGE_SIZE_def)
qed (cases "grow_fits (ans_mprotect an) (abi_memory s) page_count",
    use grow_ok [OF assms, of page_count] in \<open>fastforce simp: grow_fits_def\<close>,
    use grow_refused [OF assms, of page_count] assms(2) in \<open>fastforce simp: grow_fits_def\<close>)

theorem memory_grow_result_witness:
  "(\<exists>s'. instruction_memory_grow default_build sample_answers 1 (sample_instance sample_bytes None) = Inr (1, s') \<and> unat (wm_size (abi_memory s')) = 131072) \<and>
   (\<exists>s'. instruction_memory_grow default_build sample_answers 2 (sample_instance sample_bytes None) = Inr (- 1, s')) \<and>
   (\<exists>s'. instruction_memory_grow default_build sample_answers 0x10000 (sample_instance sample_bytes None) = Inr (1, s') \<and> unat (wm_size (abi_memory s')) = 65536)"
proof -
  let ?s = "sample_instance sample_bytes None"
  have m: "memory_bounds (abi_memory ?s)" "unat (wm_size (abi_memory ?s)) = 65536" "unat (wm_max (abi_memory ?s)) = 131072"
    "wasm_memory_get_page_count (abi_memory ?s) = 1" "ans_mprotect sample_answers"
    by (simp_all add: memory_bounds_def sample_instance_def sample_answers_def wasm_memory_get_page_count_def WASM_PAGE_SIZE_def)
  have g: "grow_bytes 1 = 65536" "grow_bytes 2 = 131072" "grow_bytes 0x10000 = 0" by (simp_all add: grow_bytes_def WASM_PAGE_SIZE_def)
  note r = memory_grow_result [OF sample_ready m(1), THEN conjunct1, unfolded m(2-4)]
  show ?thesis using r [of 1] r [of 2] r [of "0x10000"] m(5) g by (intro conjI) auto
qed

text \<open>
  Claim C26: the copy of global 0 across a preemption. When a function has set global 0, is preempted, another sandbox runs and
  leaves any value behind, and the function is resumed, it reads a 32-bit global 0 unchanged; a 64-bit one has lost its upper
  half, for the padding of the union. The other globals are as before. A sandbox whose
  global 0 was never set starts with the value that the sandbox before it left behind.
\<close>

theorem global_0_across_preemption:
  assumes "globals_ok (abi_globals s)" "0 < vec_capacity (abi_globals s)" "writable (global_at (abi_globals s) 0)"
  shows "(\<exists>s1 s2 s3. set_global_i32 b an 0 v s = Inr s1 \<and> write_back_global_0 an s1 = Inr s2 \<and> load_instance previous s2 = Inr s3 \<and>
      get_global_i32 b an 0 s3 = Inr (Some v, s3) \<and> (\<forall>j. j \<noteq> 0 \<longrightarrow> same_reads (abi_globals s) (abi_globals s3) j)) \<and>
    (\<exists>s1 s2 s3. set_global_i64 b an 0 v' s = Inr s1 \<and> write_back_global_0 an s1 = Inr s2 \<and> load_instance previous s2 = Inr s3 \<and>
      get_global_i64 b an 0 s3 = Inr (Some (word_cat (ans_pad an) (ucast v' :: u32)), s3)) \<and>
    (global_type (global_at (abi_globals s) 0) = WASM_GLOBAL_TYPE_UNUSED \<longrightarrow>
      (\<exists>s1. load_instance previous s = Inr s1 \<and> get_global_i64 b an 0 s1 = Inr (Some previous, s1)))"
proof (intro conjI impI)
  have "(ucast (scast v :: u64) :: u32) = v" by (rule bit_word_eqI) (simp add: bit_simps)
  then show "\<exists>s1 s2 s3. set_global_i32 b an 0 v s = Inr s1 \<and> write_back_global_0 an s1 = Inr s2 \<and> load_instance previous s2 = Inr s3 \<and>
      get_global_i32 b an 0 s3 = Inr (Some v, s3) \<and> (\<forall>j. j \<noteq> 0 \<longrightarrow> same_reads (abi_globals s) (abi_globals s3) j)"
    using preempt_and_resume [OF assms, of an "scast v" previous] by (auto simp: set_global_i32_def get_global_i32_def union_of_low)
  show "\<exists>s1 s2 s3. set_global_i64 b an 0 v' s = Inr s1 \<and> write_back_global_0 an s1 = Inr s2 \<and> load_instance previous s2 = Inr s3 \<and>
      get_global_i64 b an 0 s3 = Inr (Some (word_cat (ans_pad an) (ucast v' :: u32)), s3)"
    using preempt_and_resume [OF assms, of an v' previous] by (auto simp: set_global_i64_def get_global_i64_def union_of_def)
  obtain sz cap mx where z: "abi_sandbox_memory s = (sz, cap, mx)" by (cases "abi_sandbox_memory s")
  show "global_type (global_at (abi_globals s) 0) = WASM_GLOBAL_TYPE_UNUSED \<Longrightarrow>
      \<exists>s1. load_instance previous s = Inr s1 \<and> get_global_i64 b an 0 s1 = Inr (Some previous, s1)"
    using load_instance_ok [OF assms(1,2) z, of previous] by (simp add: get_global_i64_def)
qed

theorem global_0_across_preemption_witness:
  "\<exists>s1 s2 s3. set_global_i64 default_build sample_answers 0 0x100000005 (sample_instance sample_bytes None) = Inr s1 \<and>
     write_back_global_0 sample_answers s1 = Inr s2 \<and> load_instance 9 s2 = Inr s3 \<and>
     get_global_i64 default_build sample_answers 0 s3 = Inr (Some 5, s3)"
proof -
  let ?s = "sample_instance sample_bytes None"
  have g: "globals_ok (abi_globals ?s)" "0 < vec_capacity (abi_globals ?s)" "writable (global_at (abi_globals ?s) 0)"
    by (simp_all add: sample_instance_def globals_ok_def vec_ok_def global_at_def writable_def zero_global_def)
  have "word_cat (ans_pad sample_answers) (ucast (0x100000005 :: u64) :: u32) = (5 :: u64)"
    by (simp add: sample_answers_def word_cat_eq)
  then show ?thesis using global_0_across_preemption [OF g, of default_build sample_answers 0 9 "0x100000005"] by auto
qed

end
