(* ===== verification/Perf_Window.thy ===== *)
theory Perf_Window
  imports Sledge_Prelude
begin

text \<open>
  The window of the most recent execution times, runtime/include/perf_window.h and perf_window_t.h: a
  circular buffer by time of termination and, over the same nodes, an array sorted by duration, from
  which percentiles are read. The 16-bit indices stay below the capacity of 256 and are natural
  numbers here; an index outside the arrays would be an \<^const>\<open>Out_Of_Bounds\<close>.
\<close>

definition PERF_WINDOW_CAPACITY :: nat where
  "PERF_WINDOW_CAPACITY = 256"

record execution_node =
  execution_time :: u64
  by_termination_idx :: nat

record perf_window =
  by_duration :: "execution_node list"
  by_termination :: "nat list"
  pw_count :: u64
  pw_locked :: bool

definition perf_window_initialize :: perf_window where
  "perf_window_initialize = \<lparr>by_duration = replicate PERF_WINDOW_CAPACITY \<lparr>execution_time = 0, by_termination_idx = 0\<rparr>,
     by_termination = replicate PERF_WINDOW_CAPACITY 0, pw_count = 0, pw_locked = False\<rparr>"

definition duration_at :: "perf_window \<Rightarrow> nat \<Rightarrow> u64" where
  "duration_at w i = execution_time (by_duration w ! i)"

definition perf_window_swap :: "perf_window \<Rightarrow> nat \<Rightarrow> nat \<Rightarrow> perf_window res" where
  "perf_window_swap w first_by_duration_idx second_by_duration_idx =
     assertc (pw_locked w)
    (assertc (first_by_duration_idx < PERF_WINDOW_CAPACITY)
    (assertc (second_by_duration_idx < PERF_WINDOW_CAPACITY)
      (let first_t = by_termination_idx (by_duration w ! first_by_duration_idx);
           second_t = by_termination_idx (by_duration w ! second_by_duration_idx)
       in if PERF_WINDOW_CAPACITY \<le> first_t \<or> PERF_WINDOW_CAPACITY \<le> second_t then Inl Out_Of_Bounds
          else assertc (by_termination w ! first_t = first_by_duration_idx)
              (assertc (by_termination w ! second_t = second_by_duration_idx)
                (let w' = w\<lparr>by_termination := (by_termination w)[first_t := second_by_duration_idx, second_t := first_by_duration_idx],
                            by_duration := swap_slots (by_duration w) first_by_duration_idx second_by_duration_idx\<rparr>
                 in assertc (duration_at w' (by_termination w' ! first_t) = duration_at w first_by_duration_idx)
                   (assertc (duration_at w' (by_termination w' ! second_t) = duration_at w second_by_duration_idx)
                     (Inr w')))))))"

definition perf_window_fill :: "perf_window \<Rightarrow> u64 \<Rightarrow> perf_window" where
  "perf_window_fill w newest_execution_time =
     w\<lparr>by_termination := [0..<PERF_WINDOW_CAPACITY],
       by_duration := map (\<lambda>i. \<lparr>execution_time = newest_execution_time, by_termination_idx = i\<rparr>) [0..<PERF_WINDOW_CAPACITY],
       pw_count := of_nat PERF_WINDOW_CAPACITY\<rparr>"

text \<open>The two loops of \<open>perf_window_add\<close> that move the new node to its place.\<close>

function shift_right :: "perf_window \<Rightarrow> nat \<Rightarrow> perf_window res" where
  "shift_right w i =
     (if i + 1 < PERF_WINDOW_CAPACITY \<and> duration_at w (i + 1) < duration_at w i
      then bindr (perf_window_swap w i (i + 1)) (\<lambda>w'. shift_right w' (i + 1))
      else Inr w)"
  by auto
termination
  by (relation "measure (\<lambda>(w, i). PERF_WINDOW_CAPACITY - i)") auto

fun shift_left :: "perf_window \<Rightarrow> nat \<Rightarrow> perf_window res" where
  "shift_left w 0 = Inr w"
| "shift_left w (Suc i) =
     (if duration_at w (Suc i) < duration_at w i
      then bindr (perf_window_swap w (Suc i) i) (\<lambda>w'. shift_left w' i)
      else Inr w)"

definition oldest_slot :: "perf_window \<Rightarrow> nat" where
  "oldest_slot w = unat (pw_count w) mod PERF_WINDOW_CAPACITY"

definition perf_window_add :: "perf_window \<Rightarrow> u64 \<Rightarrow> perf_window res" where
  "perf_window_add w newest_execution_time =
     assertc (newest_execution_time > 0)
       (if \<not> pw_locked w then Inl Panic
        else if pw_count w = 0 then Inr (perf_window_fill w newest_execution_time)
        else let idx_to_replace = by_termination w ! oldest_slot w
          in if PERF_WINDOW_CAPACITY \<le> idx_to_replace then Inl Out_Of_Bounds
          else let previous_execution_time = duration_at w idx_to_replace;
                   w1 = w\<lparr>by_duration := (by_duration w)[idx_to_replace :=
                           (by_duration w ! idx_to_replace)\<lparr>execution_time := newest_execution_time\<rparr>]\<rparr>
            in bindr (if newest_execution_time > previous_execution_time
                      then shift_right w1 idx_to_replace else shift_left w1 idx_to_replace) (\<lambda>w2.
               assertc (duration_at w2 (by_termination w2 ! oldest_slot w2) = newest_execution_time)
              (assertc (sorted (map execution_time (by_duration w2)))
                (Inr (w2\<lparr>pw_count := pw_count w2 + 1\<rparr>)))))"

definition perf_window_get_percentile :: "perf_window \<Rightarrow> nat \<Rightarrow> nat \<Rightarrow> u64 res" where
  "perf_window_get_percentile w percentile precomputed_index =
     assertc (50 \<le> percentile \<and> percentile \<le> 99)
       (if pw_count w = 0 then Inr 0
        else let partial = unat (pw_count w) < PERF_WINDOW_CAPACITY;
                 perf_window_size = (if partial then unat (pw_count w) else PERF_WINDOW_CAPACITY);
                 idx = (if precomputed_index = 0 \<or> partial then perf_window_size * percentile div 100 else precomputed_index)
             in if idx < PERF_WINDOW_CAPACITY then Inr (duration_at w idx) else Inl Out_Of_Bounds)"

definition perf_window_get_count :: "perf_window \<Rightarrow> u64" where
  "perf_window_get_count w = pw_count w"

text \<open>
  What the window means: the circular buffer of execution times by slot. The arrays of a well-formed
  window are linked both ways and the durations are sorted.
\<close>

definition recent :: "perf_window \<Rightarrow> u64 list" where
  "recent w = map (\<lambda>i. duration_at w (by_termination w ! i)) [0..<PERF_WINDOW_CAPACITY]"

definition linked :: "perf_window \<Rightarrow> bool" where
  "linked w \<longleftrightarrow> length (by_duration w) = PERF_WINDOW_CAPACITY \<and> length (by_termination w) = PERF_WINDOW_CAPACITY \<and>
     (\<forall>i<PERF_WINDOW_CAPACITY. by_termination w ! i < PERF_WINDOW_CAPACITY \<and>
        by_termination_idx (by_duration w ! (by_termination w ! i)) = i) \<and>
     (\<forall>j<PERF_WINDOW_CAPACITY. by_termination_idx (by_duration w ! j) < PERF_WINDOW_CAPACITY \<and>
        by_termination w ! by_termination_idx (by_duration w ! j) = j)"

definition durations :: "perf_window \<Rightarrow> u64 list" where
  "durations w = map execution_time (by_duration w)"

definition window_ok :: "perf_window \<Rightarrow> bool" where
  "window_ok w \<longleftrightarrow> linked w \<and> sorted (durations w) \<and> PERF_WINDOW_CAPACITY \<le> unat (pw_count w)"

text \<open>
  A sequence of additions, and the executions that the window then covers: the last 256 of a history
  that starts with 256 copies of the first execution time, because the first addition fills the window.
\<close>

fun perf_window_add_all :: "perf_window \<Rightarrow> u64 list \<Rightarrow> perf_window res" where
  "perf_window_add_all w [] = Inr w"
| "perf_window_add_all w (t # ts) = bindr (perf_window_add w t) (\<lambda>w'. perf_window_add_all w' ts)"

definition covered :: "u64 list \<Rightarrow> u64 list" where
  "covered ts = drop (length ts - 1) (replicate PERF_WINDOW_CAPACITY (hd ts) @ tl ts)"

text \<open>The window holds the end of the history \<open>h\<close>, each execution in the slot of its number modulo the capacity.\<close>

definition holds_history :: "perf_window \<Rightarrow> u64 list \<Rightarrow> bool" where
  "holds_history w h \<longleftrightarrow> window_ok w \<and> pw_locked w \<and> unat (pw_count w) = length h \<and>
     (\<forall>j<length h. length h - PERF_WINDOW_CAPACITY \<le> j \<longrightarrow> recent w ! (j mod PERF_WINDOW_CAPACITY) = h ! j)"

text \<open>A list that is sorted but for the element at index \<open>i\<close>.\<close>

definition sorted_except :: "u64 list \<Rightarrow> nat \<Rightarrow> bool" where
  "sorted_except ts i \<longleftrightarrow> (\<forall>a b. a < b \<and> b < length ts \<and> a \<noteq> i \<and> b \<noteq> i \<longrightarrow> ts ! a \<le> ts ! b)"

subsection \<open>Links\<close>

lemma capacity_pos [simp]: "0 < PERF_WINDOW_CAPACITY"
  by (simp add: PERF_WINDOW_CAPACITY_def)

lemma oldest_slot_less [simp]: "oldest_slot w < PERF_WINDOW_CAPACITY"
  by (simp add: oldest_slot_def)

lemma linked_length: "linked w \<Longrightarrow> length (by_duration w) = PERF_WINDOW_CAPACITY"
  "linked w \<Longrightarrow> length (by_termination w) = PERF_WINDOW_CAPACITY"
  "linked w \<Longrightarrow> length (durations w) = PERF_WINDOW_CAPACITY"
  by (simp_all add: linked_def durations_def)

lemma durations_nth: "\<lbrakk>linked w; i < PERF_WINDOW_CAPACITY\<rbrakk> \<Longrightarrow> durations w ! i = duration_at w i"
  by (simp add: durations_def duration_at_def linked_def)

lemma recent_mset:
  assumes "linked w"
  shows "mset (recent w) = mset (durations w)"
proof -
  let ?f = "\<lambda>i. by_termination w ! i" and ?N = "{0..<PERF_WINDOW_CAPACITY}"
  have inj: "inj_on ?f ?N" using assms unfolding inj_on_def linked_def by (metis atLeastLessThan_iff)
  have "?f ` ?N = ?N"
    using assms by (auto simp: linked_def image_iff) (metis atLeastLessThan_iff le0)
  then have "mset (map ?f [0..<PERF_WINDOW_CAPACITY]) = mset_set ?N"
    using image_mset_mset_set [OF inj] by simp
  then have "image_mset (duration_at w) (mset (map ?f [0..<PERF_WINDOW_CAPACITY])) = image_mset (duration_at w) (mset [0..<PERF_WINDOW_CAPACITY])"
    by (simp add: mset_upt)
  moreover have "durations w = map (duration_at w) [0..<PERF_WINDOW_CAPACITY]"
    using assms by (intro nth_equalityI) (simp_all add: linked_length durations_nth)
  ultimately show ?thesis by (simp add: recent_def image_mset.compositionality comp_def)
qed

lemma swap_ok:
  assumes l: "linked w" and i: "i < PERF_WINDOW_CAPACITY" and j: "j < PERF_WINDOW_CAPACITY" and ne: "i \<noteq> j" and lk: "pw_locked w"
  shows "\<exists>w'. perf_window_swap w i j = Inr w' \<and> linked w' \<and> recent w' = recent w \<and>
    durations w' = swap_slots (durations w) i j \<and> pw_count w' = pw_count w \<and> pw_locked w'"
proof -
  let ?d = "by_duration w" and ?t = "by_termination w"
  define a b where "a = by_termination_idx (?d ! i)" and "b = by_termination_idx (?d ! j)"
  have ab: "a < PERF_WINDOW_CAPACITY" "b < PERF_WINDOW_CAPACITY" "?t ! a = i" "?t ! b = j"
    using l i j by (auto simp: linked_def a_def b_def)
  then have abne: "a \<noteq> b" using ne by blast
  define w' where "w' = w\<lparr>by_termination := ?t[a := j, b := i], by_duration := swap_slots ?d i j\<rparr>"
  have len: "length ?d = PERF_WINDOW_CAPACITY" "length ?t = PERF_WINDOW_CAPACITY" using l by (simp_all add: linked_def)
  have d': "by_duration w' ! k = (if k = j then ?d ! i else if k = i then ?d ! j else ?d ! k)" if "k < PERF_WINDOW_CAPACITY" for k
    using that i j len by (simp add: w'_def nth_swap_slots)
  have t': "by_termination w' ! k = (if k = b then i else if k = a then j else ?t ! k)" if "k < PERF_WINDOW_CAPACITY" for k
    using that len ab abne by (simp add: w'_def nth_list_update)
  have other: "?t ! k \<noteq> i \<and> ?t ! k \<noteq> j" if "k < PERF_WINDOW_CAPACITY" "k \<noteq> a" "k \<noteq> b" for k
    using l that unfolding linked_def a_def b_def by metis
  have "linked w'"
    unfolding linked_def
  proof (intro conjI allI impI)
    show "length (by_duration w') = PERF_WINDOW_CAPACITY" "length (by_termination w') = PERF_WINDOW_CAPACITY"
      using len by (simp_all add: w'_def)
    fix k assume k: "k < PERF_WINDOW_CAPACITY"
    show "by_termination w' ! k < PERF_WINDOW_CAPACITY" using l k i j by (simp add: t' linked_def)
    show "by_termination_idx (by_duration w' ! (by_termination w' ! k)) = k"
      using l k i j ne other [OF k] by (simp add: t' d' linked_def a_def b_def)
    have "by_termination_idx (?d ! k) \<noteq> a \<and> by_termination_idx (?d ! k) \<noteq> b" if "k \<noteq> i" "k \<noteq> j"
      using l k i j that unfolding linked_def a_def b_def by metis
    then show "by_termination_idx (by_duration w' ! k) < PERF_WINDOW_CAPACITY"
      "by_termination w' ! by_termination_idx (by_duration w' ! k) = k"
      using l k ab ne by (auto simp: t' d' linked_def a_def [symmetric] b_def [symmetric])
  qed
  moreover have "recent w' = recent w"
    using i j ab other l by (auto simp: recent_def duration_at_def t' d' linked_def)
  moreover have "durations w' = swap_slots (durations w) i j"
    using i j len by (simp add: durations_def w'_def swap_slots_def map_update)
  moreover have "perf_window_swap w i j = Inr w'"
    using lk i j ab abne d' t' ne
    by (simp add: perf_window_swap_def Let_def a_def [symmetric] b_def [symmetric] w'_def [symmetric] duration_at_def)
  ultimately show ?thesis using lk by (auto simp: w'_def)
qed

subsection \<open>The shifting loops\<close>

lemma right_step:
  assumes "sorted_except ts i" "\<forall>a<i. ts ! a \<le> ts ! i" "Suc i < length ts" "ts ! Suc i < ts ! i"
  shows "sorted_except (swap_slots ts i (Suc i)) (Suc i) \<and>
    (\<forall>a<Suc i. swap_slots ts i (Suc i) ! a \<le> swap_slots ts i (Suc i) ! Suc i)"
proof (intro conjI allI impI)
  have nth: "swap_slots ts i (Suc i) ! k = (if k = Suc i then ts ! i else if k = i then ts ! Suc i else ts ! k)"
    if "k < length ts" for k using that assms(3) by (simp add: nth_swap_slots)
  have s: "ts ! a \<le> ts ! b" if "a < b" "b < length ts" "a \<noteq> i" "b \<noteq> i" for a b
    using assms(1) that by (simp add: sorted_except_def)
  show "sorted_except (swap_slots ts i (Suc i)) (Suc i)"
    unfolding sorted_except_def
  proof (intro allI impI, elim conjE)
    fix a b assume ab: "a < b" "b < length (swap_slots ts i (Suc i))" "a \<noteq> Suc i" "b \<noteq> Suc i"
    then show "swap_slots ts i (Suc i) ! a \<le> swap_slots ts i (Suc i) ! b"
      using s [of a b] s [of a "Suc i"] s [of "Suc i" b] assms(3) by (cases "b = i"; cases "a = i") (auto simp: nth)
  qed
  fix a assume "a < Suc i"
  then show "swap_slots ts i (Suc i) ! a \<le> swap_slots ts i (Suc i) ! Suc i"
    using assms(2-4) by (auto simp: nth less_Suc_eq intro: less_imp_le)
qed

lemma right_done:
  assumes "sorted_except ts i" "\<forall>a<i. ts ! a \<le> ts ! i" "\<not> (Suc i < length ts \<and> ts ! Suc i < ts ! i)"
  shows "sorted ts"
  unfolding sorted_iff_nth_mono_less
proof (intro allI impI)
  fix a b assume ab: "a < b" "b < length ts"
  have next_ok: "ts ! i \<le> ts ! Suc i" if "Suc i < length ts" using assms(3) that by simp
  consider "b = i" | "a = i" "b = Suc i" | "a = i" "Suc i < b" | "a \<noteq> i" "b \<noteq> i" using ab by linarith
  then show "ts ! a \<le> ts ! b"
  proof cases
    case 3
    then have "ts ! Suc i \<le> ts ! b" using assms(1) ab unfolding sorted_except_def by (metis Suc_lessD less_irrefl_nat n_not_Suc_n)
    moreover have "ts ! i \<le> ts ! Suc i" using 3 ab by (intro next_ok) simp
    ultimately show ?thesis using 3 by simp
  qed (use assms ab next_ok in \<open>auto simp: sorted_except_def\<close>)
qed

lemma left_step:
  assumes "sorted_except ts (Suc i)" "\<forall>b. Suc i < b \<and> b < length ts \<longrightarrow> ts ! Suc i \<le> ts ! b" "Suc i < length ts" "ts ! Suc i < ts ! i"
  shows "sorted_except (swap_slots ts (Suc i) i) i \<and>
    (\<forall>b. i < b \<and> b < length ts \<longrightarrow> swap_slots ts (Suc i) i ! i \<le> swap_slots ts (Suc i) i ! b)"
proof (intro conjI allI impI)
  have nth: "swap_slots ts (Suc i) i ! k = (if k = i then ts ! Suc i else if k = Suc i then ts ! i else ts ! k)"
    if "k < length ts" for k using that assms(3) by (simp add: nth_swap_slots)
  have s: "ts ! a \<le> ts ! b" if "a < b" "b < length ts" "a \<noteq> Suc i" "b \<noteq> Suc i" for a b
    using assms(1) that by (simp add: sorted_except_def)
  show "sorted_except (swap_slots ts (Suc i) i) i"
    unfolding sorted_except_def
  proof (intro allI impI, elim conjE)
    fix a b assume ab: "a < b" "b < length (swap_slots ts (Suc i) i)" "a \<noteq> i" "b \<noteq> i"
    then show "swap_slots ts (Suc i) i ! a \<le> swap_slots ts (Suc i) i ! b"
      using s [of a b] s [of a i] s [of i b] assms(3) by (cases "b = Suc i"; cases "a = Suc i") (auto simp: nth)
  qed
  fix b assume b: "i < b \<and> b < length ts"
  then show "swap_slots ts (Suc i) i ! i \<le> swap_slots ts (Suc i) i ! b"
    using assms(2-4) by (cases "b = Suc i") (auto simp: nth intro: less_imp_le)
qed

lemma left_done:
  assumes "sorted_except ts i" "\<forall>b. i < b \<and> b < length ts \<longrightarrow> ts ! i \<le> ts ! b" "i = 0 \<or> \<not> ts ! i < ts ! (i - 1)" "i < length ts"
  shows "sorted ts"
  unfolding sorted_iff_nth_mono_less
proof (intro allI impI)
  fix a b assume ab: "a < b" "b < length ts"
  have prev_ok: "ts ! (i - 1) \<le> ts ! i" if "i > 0" using assms(3) that by simp
  consider "a = i" | "b = i" "a = i - 1" | "b = i" "a < i - 1" | "a \<noteq> i" "b \<noteq> i" using ab by linarith
  then show "ts ! a \<le> ts ! b"
  proof cases
    case 3
    then have "i - 1 < length ts" "a \<noteq> i" "i - 1 \<noteq> i" using assms(4) by auto
    then have "ts ! a \<le> ts ! (i - 1)" using assms(1) 3 unfolding sorted_except_def by blast
    moreover have "ts ! (i - 1) \<le> ts ! i" using 3 ab by (intro prev_ok) simp
    ultimately show ?thesis using 3 by simp
  qed (use assms ab prev_ok in \<open>auto simp: sorted_except_def\<close>)
qed

declare shift_right.simps [simp del]

lemma shift_right_ok:
  assumes "linked w" "pw_locked w" "i < PERF_WINDOW_CAPACITY" "sorted_except (durations w) i"
    "\<forall>a<i. durations w ! a \<le> durations w ! i"
  shows "\<exists>w'. shift_right w i = Inr w' \<and> linked w' \<and> recent w' = recent w \<and> sorted (durations w') \<and>
    pw_count w' = pw_count w \<and> pw_locked w'"
  using assms
proof (induction w i rule: shift_right.induct)
  case (1 w i)
  have len: "length (durations w) = PERF_WINDOW_CAPACITY" using "1.prems"(1) by (rule linked_length)
  show ?case
  proof (cases "Suc i < PERF_WINDOW_CAPACITY \<and> duration_at w (Suc i) < duration_at w i")
    case True
    then obtain w1 where w1: "perf_window_swap w i (Suc i) = Inr w1" "linked w1" "recent w1 = recent w"
      "durations w1 = swap_slots (durations w) i (Suc i)" "pw_count w1 = pw_count w" "pw_locked w1"
      using swap_ok [OF "1.prems"(1,3), of "Suc i"] "1.prems"(2) by auto
    have lt: "durations w ! Suc i < durations w ! i" using True "1.prems"(1,3) by (simp add: durations_nth)
    have "sorted_except (durations w1) (Suc i) \<and> (\<forall>a<Suc i. durations w1 ! a \<le> durations w1 ! Suc i)"
      unfolding w1(4) using right_step [OF "1.prems"(4,5)] True lt len by simp
    then have "\<exists>w'. shift_right w1 (Suc i) = Inr w' \<and> linked w' \<and> recent w' = recent w1 \<and> sorted (durations w') \<and>
        pw_count w' = pw_count w1 \<and> pw_locked w'"
      using "1.IH" [of w1] w1 True by simp
    then show ?thesis using w1 True by (subst shift_right.simps) auto
  next
    case False
    then have "sorted (durations w)"
      using right_done [OF "1.prems"(4,5)] len "1.prems"(1,3) by (auto simp: durations_nth)
    then show ?thesis using False "1.prems" by (subst shift_right.simps) auto
  qed
qed

lemma shift_left_ok:
  assumes "linked w" "pw_locked w" "i < PERF_WINDOW_CAPACITY" "sorted_except (durations w) i"
    "\<forall>b. i < b \<and> b < length (durations w) \<longrightarrow> durations w ! i \<le> durations w ! b"
  shows "\<exists>w'. shift_left w i = Inr w' \<and> linked w' \<and> recent w' = recent w \<and> sorted (durations w') \<and>
    pw_count w' = pw_count w \<and> pw_locked w'"
  using assms
proof (induction i arbitrary: w)
  case 0
  then have "sorted (durations w)" using left_done [OF 0(4,5)] by (simp add: linked_length)
  then show ?case using 0 by simp
next
  case (Suc i)
  have len: "length (durations w) = PERF_WINDOW_CAPACITY" using Suc.prems(1) by (rule linked_length)
  show ?case
  proof (cases "duration_at w (Suc i) < duration_at w i")
    case True
    then obtain w1 where w1: "perf_window_swap w (Suc i) i = Inr w1" "linked w1" "recent w1 = recent w"
      "durations w1 = swap_slots (durations w) (Suc i) i" "pw_count w1 = pw_count w" "pw_locked w1"
      using swap_ok [OF Suc.prems(1,3), of i] Suc.prems(2,3) by auto
    have lt: "durations w ! Suc i < durations w ! i" using True Suc.prems(1,3) by (simp add: durations_nth)
    have "sorted_except (durations w1) i \<and> (\<forall>b. i < b \<and> b < length (durations w1) \<longrightarrow> durations w1 ! i \<le> durations w1 ! b)"
      unfolding w1(4) using left_step [OF Suc.prems(4,5)] Suc.prems(3) lt len by simp
    then have "\<exists>w'. shift_left w1 i = Inr w' \<and> linked w' \<and> recent w' = recent w1 \<and> sorted (durations w') \<and>
        pw_count w' = pw_count w1 \<and> pw_locked w'"
      using Suc.IH [of w1] w1 Suc.prems(3) by simp
    then show ?thesis using w1 True by auto
  next
    case False
    then have "sorted (durations w)"
      using left_done [OF Suc.prems(4,5)] len Suc.prems(1,3) by (auto simp: durations_nth)
    then show ?thesis using False Suc.prems by auto
  qed
qed

subsection \<open>Adding an execution time\<close>

lemma recent_length [simp]: "length (recent w) = PERF_WINDOW_CAPACITY"
  by (simp add: recent_def)

lemma recent_nth: "k < PERF_WINDOW_CAPACITY \<Longrightarrow> recent w ! k = duration_at w (by_termination w ! k)"
  by (simp add: recent_def)

lemma durations_sorted_recent: "window_ok w \<Longrightarrow> durations w = sort (recent w)"
  using recent_mset [of w] by (metis properties_for_sort window_ok_def)

lemma replace_ok:
  fixes t :: u64
  assumes "linked w" "k < PERF_WINDOW_CAPACITY"
  defines "i \<equiv> by_termination w ! k"
  defines "w1 \<equiv> w\<lparr>by_duration := (by_duration w)[i := (by_duration w ! i)\<lparr>execution_time := t\<rparr>]\<rparr>"
  shows "linked w1 \<and> recent w1 = (recent w)[k := t] \<and> durations w1 = (durations w)[i := t]"
proof (intro conjI)
  have i: "i < PERF_WINDOW_CAPACITY" and bk: "by_termination_idx (by_duration w ! i) = k"
    using assms(1,2) by (simp_all add: i_def linked_def)
  have len: "length (by_duration w) = PERF_WINDOW_CAPACITY" using assms(1) by (rule linked_length)
  have node: "by_duration w1 ! j = (if j = i then (by_duration w ! i)\<lparr>execution_time := t\<rparr> else by_duration w ! j)"
    if "j < PERF_WINDOW_CAPACITY" for j using that len by (simp add: w1_def)
  have idx: "by_termination_idx (by_duration w1 ! j) = by_termination_idx (by_duration w ! j)" if "j < PERF_WINDOW_CAPACITY" for j
    using that by (simp add: node)
  show "linked w1"
    using assms(1) unfolding linked_def by (simp add: w1_def) (use idx in \<open>simp add: w1_def\<close>)
  show "durations w1 = (durations w)[i := t]" by (simp add: durations_def w1_def map_update)
  have other: "by_termination w ! j = i \<longleftrightarrow> j = k" if "j < PERF_WINDOW_CAPACITY" for j
    using assms(1,2) that unfolding i_def linked_def by metis
  show "recent w1 = (recent w)[k := t]"
  proof (rule nth_equalityI)
    fix j assume "j < length (recent w1)"
    then have j: "j < PERF_WINDOW_CAPACITY" by simp
    then have "by_termination w ! j < PERF_WINDOW_CAPACITY" using assms(1) by (simp add: linked_def)
    moreover have "by_termination w1 = by_termination w" by (simp add: w1_def)
    ultimately show "recent w1 ! j = (recent w)[k := t] ! j"
      using j other [OF j] assms(2) node by (auto simp: recent_nth duration_at_def nth_list_update)
  qed simp
qed

lemma sorted_except_update: "sorted ts \<Longrightarrow> sorted_except (ts[i := t]) i"
  by (simp add: sorted_except_def sorted_iff_nth_mono_less)

lemma add_full:
  assumes ok: "window_ok w" and lk: "pw_locked w" and t: "0 < t"
  shows "\<exists>w'. perf_window_add w t = Inr w' \<and> linked w' \<and> sorted (durations w') \<and> recent w' = (recent w)[oldest_slot w := t] \<and>
    pw_count w' = pw_count w + 1 \<and> pw_locked w'"
proof -
  let ?k = "oldest_slot w"
  define i where "i = by_termination w ! ?k"
  define w1 where "w1 = w\<lparr>by_duration := (by_duration w)[i := (by_duration w ! i)\<lparr>execution_time := t\<rparr>]\<rparr>"
  have l: "linked w" "sorted (durations w)" "pw_count w \<noteq> 0" using ok by (auto simp: window_ok_def PERF_WINDOW_CAPACITY_def)
  have i: "i < PERF_WINDOW_CAPACITY" using l(1) by (simp add: i_def linked_def)
  have w1: "linked w1" "recent w1 = (recent w)[?k := t]" "durations w1 = (durations w)[i := t]" "pw_locked w1" "pw_count w1 = pw_count w"
    using replace_ok [OF l(1), of ?k t] lk by (simp_all add: w1_def i_def)
  have ex: "sorted_except (durations w1) i" unfolding w1(3) by (rule sorted_except_update [OF l(2)])
  have len: "length (durations w) = PERF_WINDOW_CAPACITY" using l(1) by (rule linked_length)
  have new: "durations w1 ! i = t" using i len by (simp add: w1(3))
  have "\<exists>w2. (if t > duration_at w i then shift_right w1 i else shift_left w1 i) = Inr w2 \<and> linked w2 \<and>
      recent w2 = recent w1 \<and> sorted (durations w2) \<and> pw_count w2 = pw_count w1 \<and> pw_locked w2"
  proof (cases "t > duration_at w i")
    case True
    have "\<forall>a<i. durations w1 ! a \<le> durations w1 ! i"
    proof (intro allI impI)
      fix a assume "a < i"
      then have "durations w ! a \<le> durations w ! i" using l(2) i len by (simp add: sorted_iff_nth_mono_less)
      also have "\<dots> \<le> t" using True i l(1) by (simp add: durations_nth)
      finally show "durations w1 ! a \<le> durations w1 ! i" using \<open>a < i\<close> by (simp add: new) (simp add: w1(3))
    qed
    then show ?thesis using True shift_right_ok [OF w1(1,4) i ex] by simp
  next
    case False
    have "\<forall>b. i < b \<and> b < length (durations w1) \<longrightarrow> durations w1 ! i \<le> durations w1 ! b"
    proof (intro allI impI)
      fix b assume b: "i < b \<and> b < length (durations w1)"
      have "t \<le> durations w ! i" using False i l(1) by (simp add: durations_nth)
      also have "\<dots> \<le> durations w ! b" using l(2) b w1(3) by (simp add: sorted_iff_nth_mono_less)
      finally show "durations w1 ! i \<le> durations w1 ! b" using b by (simp add: new) (simp add: w1(3))
    qed
    then show ?thesis using False shift_left_ok [OF w1(1,4) i ex] by simp
  qed
  then obtain w2 where w2: "(if t > duration_at w i then shift_right w1 i else shift_left w1 i) = Inr w2" "linked w2"
    "recent w2 = recent w1" "sorted (durations w2)" "pw_count w2 = pw_count w1" "pw_locked w2" by blast
  have slot: "oldest_slot w2 = ?k" using w2(5) w1(5) by (simp add: oldest_slot_def)
  have "duration_at w2 (by_termination w2 ! ?k) = recent w2 ! ?k" by (simp add: recent_nth)
  then have check: "duration_at w2 (by_termination w2 ! ?k) = t" using w2(3) w1(2) by simp
  have "perf_window_add w t = Inr (w2\<lparr>pw_count := pw_count w2 + 1\<rparr>)"
    using t lk l(3) i w2(1,4) check slot unfolding perf_window_add_def
    by (simp add: Let_def i_def [symmetric] w1_def [symmetric] not_le durations_def)
  moreover have "linked (w2\<lparr>pw_count := pw_count w2 + 1\<rparr>)" using w2(2) by (simp add: linked_def)
  moreover have "recent (w2\<lparr>pw_count := pw_count w2 + 1\<rparr>) = recent w2" by (simp add: recent_def duration_at_def)
  ultimately show ?thesis using w2 w1 by (simp add: durations_def)
qed

lemma fill_ok: "linked (perf_window_fill w t) \<and> recent (perf_window_fill w t) = replicate PERF_WINDOW_CAPACITY t \<and>
    durations (perf_window_fill w t) = replicate PERF_WINDOW_CAPACITY t \<and> unat (pw_count (perf_window_fill w t)) = PERF_WINDOW_CAPACITY"
  by (auto simp: linked_def recent_def durations_def duration_at_def perf_window_fill_def map_replicate_const
      PERF_WINDOW_CAPACITY_def intro!: nth_equalityI)

lemma mod_window_inj:
  fixes j k n a :: nat
  assumes "j mod n = k mod n" "a \<le> j" "j < a + n" "a \<le> k" "k < a + n"
  shows "j = k"
proof -
  have "j = k" if "j \<le> k" "j mod n = k mod n" "k < j + n" for j k :: nat
  proof -
    have "n dvd k - j" using that(1,2) by (metis mod_eq_dvd_iff_nat)
    then show ?thesis using that by (auto dest: dvd_imp_le)
  qed
  from this [of j k] this [of k j] show ?thesis using assms by linarith
qed

lemma window_mset:
  assumes "length xs = n" "0 < n"
  shows "image_mset (\<lambda>j. xs ! (j mod n)) (mset_set {a..<a + n}) = mset xs"
proof -
  have inj: "inj_on (\<lambda>j. j mod n) {a..<a + n}" by (rule inj_onI) (auto intro: mod_window_inj)
  have "(\<lambda>j. j mod n) ` {a..<a + n} = {0..<n}"
    by (rule card_subset_eq) (use assms(2) in \<open>auto simp: card_image [OF inj]\<close>)
  then have "image_mset (\<lambda>j. j mod n) (mset_set {a..<a + n}) = mset [0..<n]"
    using image_mset_mset_set [OF inj] by (simp add: mset_upt)
  then have "image_mset (\<lambda>i. xs ! i) (image_mset (\<lambda>j. j mod n) (mset_set {a..<a + n})) = mset (map (\<lambda>i. xs ! i) [0..<n])"
    by (simp only: mset_map)
  also have "map (\<lambda>i. xs ! i) [0..<n] = xs" using assms(1) map_nth by blast
  finally show ?thesis by (simp add: image_mset.compositionality comp_def)
qed

lemma history_recent:
  assumes "holds_history w h"
  shows "mset (recent w) = mset (drop (length h - PERF_WINDOW_CAPACITY) h)"
proof -
  let ?N = PERF_WINDOW_CAPACITY and ?a = "length h - PERF_WINDOW_CAPACITY"
  have len: "?N \<le> length h" using assms by (auto simp: holds_history_def window_ok_def)
  have "drop ?a h = map (\<lambda>j. h ! j) [?a..<?a + ?N]"
    using len by (intro nth_equalityI) auto
  also have "\<dots> = map (\<lambda>j. recent w ! (j mod ?N)) [?a..<?a + ?N]"
    using assms len by (auto simp: holds_history_def)
  finally show ?thesis using window_mset [of "recent w" ?N ?a] by (simp add: mset_upt)
qed

lemma history_add:
  assumes "holds_history w h" "0 < t" "length h + 1 < 2 ^ 64"
  shows "\<exists>w'. perf_window_add w t = Inr w' \<and> holds_history w' (h @ [t])"
proof -
  let ?N = PERF_WINDOW_CAPACITY
  have w: "window_ok w" "pw_locked w" "unat (pw_count w) = length h" "?N \<le> length h"
    "\<And>j. \<lbrakk>j < length h; length h - ?N \<le> j\<rbrakk> \<Longrightarrow> recent w ! (j mod ?N) = h ! j"
    using assms(1) by (auto simp: holds_history_def window_ok_def)
  obtain w' where w': "perf_window_add w t = Inr w'" "linked w'" "sorted (durations w')"
    "recent w' = (recent w)[length h mod ?N := t]" "pw_count w' = pw_count w + 1" "pw_locked w'"
    using add_full [OF w(1,2) assms(2)] w(3) by (auto simp: oldest_slot_def)
  have count: "unat (pw_count w') = length h + 1"
    using assms(3) w(3) unfolding w'(5) by (simp add: unat_word_ariths)
  have "recent w' ! (j mod ?N) = (h @ [t]) ! j" if j: "j < length (h @ [t])" "length (h @ [t]) - ?N \<le> j" for j
  proof (cases "j = length h")
    case True
    then show ?thesis by (simp add: w'(4))
  next
    case False
    then have "j mod ?N \<noteq> length h mod ?N"
      using mod_window_inj [of j ?N "length h" "length h + 1 - ?N"] j w(4) by auto
    then show ?thesis using False j w(5) [of j] by (simp add: w'(4) nth_append)
  qed
  then have "holds_history w' (h @ [t])"
    using w' count w(4) by (simp add: holds_history_def window_ok_def)
  then show ?thesis using w'(1) by blast
qed

lemma history_add_all:
  assumes "holds_history w h" "\<forall>t\<in>set ts. 0 < t" "length h + length ts < 2 ^ 64"
  shows "\<exists>w'. perf_window_add_all w ts = Inr w' \<and> holds_history w' (h @ ts)"
  using assms
proof (induction ts arbitrary: w h)
  case Nil
  then show ?case by simp
next
  case (Cons t ts)
  then obtain w1 where w1: "perf_window_add w t = Inr w1" "holds_history w1 (h @ [t])"
    using history_add [OF Cons.prems(1), of t] by auto
  then show ?case using Cons.IH [OF w1(2)] Cons.prems(2,3) by simp
qed

lemma percentile_index: "99 \<ge> p \<Longrightarrow> PERF_WINDOW_CAPACITY * p div 100 < PERF_WINDOW_CAPACITY"
  by (simp add: PERF_WINDOW_CAPACITY_def)

lemma percentile_ok:
  assumes "window_ok w" "50 \<le> p" "p \<le> 99" "i = 0 \<or> i = PERF_WINDOW_CAPACITY * p div 100"
  shows "perf_window_get_percentile w p i = Inr (sort (recent w) ! (PERF_WINDOW_CAPACITY * p div 100))"
proof -
  have "pw_count w \<noteq> 0" using assms(1) by (auto simp: window_ok_def PERF_WINDOW_CAPACITY_def)
  moreover have "sort (recent w) ! (PERF_WINDOW_CAPACITY * p div 100) = duration_at w (PERF_WINDOW_CAPACITY * p div 100)"
    using assms(1) percentile_index [OF assms(3)] durations_nth
    by (simp add: durations_sorted_recent [symmetric] window_ok_def)
  ultimately show ?thesis
    using assms percentile_index [OF assms(3)] by (auto simp: perf_window_get_percentile_def window_ok_def Let_def not_less)
qed

text \<open>
  Claim C13: the performance window reports the percentile of the most recent executions. Adding any
  sequence of positive execution times to a fresh window passes every assertion of the code, and
  the percentile then read, with or without the precomputed index, is the element at that rank of
  the last 256 executions in sorted order (before 256 additions, the first execution time stands in
  for the missing ones).
\<close>

theorem perf_window_percentile:
  assumes "ts \<noteq> []" and "\<forall>t\<in>set ts. 0 < t" and "length ts + 256 < 2 ^ 64" and "50 \<le> p" and "p \<le> 99"
  shows "\<exists>w. perf_window_add_all (perf_window_initialize\<lparr>pw_locked := True\<rparr>) ts = Inr w \<and>
    perf_window_get_percentile w p 0 = Inr (sort (covered ts) ! (PERF_WINDOW_CAPACITY * p div 100)) \<and>
    perf_window_get_percentile w p (PERF_WINDOW_CAPACITY * p div 100) = Inr (sort (covered ts) ! (PERF_WINDOW_CAPACITY * p div 100))"
proof -
  obtain t us where ts: "ts = t # us" using assms(1) by (cases ts) auto
  let ?w0 = "perf_window_initialize\<lparr>pw_locked := True\<rparr>" and ?h = "replicate PERF_WINDOW_CAPACITY t"
  have add: "perf_window_add ?w0 t = Inr (perf_window_fill ?w0 t)"
    using assms(2) ts by (simp add: perf_window_add_def perf_window_initialize_def)
  have "window_ok (perf_window_fill ?w0 t)"
    using fill_ok [of ?w0 t] by (simp add: window_ok_def sorted_replicate)
  then have "holds_history (perf_window_fill ?w0 t) ?h"
    using fill_ok [of ?w0 t] by (simp add: holds_history_def) (simp add: perf_window_fill_def)
  then obtain w where w: "perf_window_add_all (perf_window_fill ?w0 t) us = Inr w" "holds_history w (?h @ us)"
    using history_add_all [of "perf_window_fill ?w0 t" ?h us] assms(2,3) ts by (auto simp: PERF_WINDOW_CAPACITY_def)
  have "mset (recent w) = mset (covered ts)"
    using history_recent [OF w(2)] by (simp add: covered_def ts)
  then have "sort (recent w) = sort (covered ts)" by (intro properties_for_sort) simp_all
  moreover have "window_ok w" using w(2) by (simp add: holds_history_def)
  ultimately have "\<And>i. i = 0 \<or> i = PERF_WINDOW_CAPACITY * p div 100 \<Longrightarrow>
      perf_window_get_percentile w p i = Inr (sort (covered ts) ! (PERF_WINDOW_CAPACITY * p div 100))"
    using percentile_ok [OF _ assms(4,5)] by simp
  then show ?thesis using add w(1) by (intro exI [of _ w]) (simp add: ts)
qed

theorem perf_window_percentile_witness:
  "\<exists>w. perf_window_add_all (perf_window_initialize\<lparr>pw_locked := True\<rparr>) [7, 3] = Inr w \<and>
    perf_window_get_percentile w 50 0 = Inr (sort (covered [7, 3]) ! (PERF_WINDOW_CAPACITY * 50 div 100)) \<and>
    perf_window_get_percentile w 50 (PERF_WINDOW_CAPACITY * 50 div 100) =
      Inr (sort (covered [7, 3]) ! (PERF_WINDOW_CAPACITY * 50 div 100))"
  by (rule perf_window_percentile) simp_all

end
