(* ===== verification/Admissions.thy ===== *)
theory Admissions
  imports Perf_Window
begin

text \<open>
  Admission control: the estimates of runtime/src/admissions_info.c, computed from the performance
  window of a route, and the accounting of admitted work of runtime/src/admissions_control.c. The
  argument \<open>enabled\<close> is the compile-time option \<open>ADMISSIONS_CONTROL\<close>. The capacity is computed from the
  number of workers in floating point and is an argument here.
\<close>

definition ADMISSIONS_CONTROL_GRANULARITY :: nat where
  "ADMISSIONS_CONTROL_GRANULARITY = 1000000"

record admissions_control =
  admissions_control_admitted :: u64
  admissions_control_capacity :: u64

definition admissions_control_initialize :: "u64 \<Rightarrow> admissions_control" where
  "admissions_control_initialize capacity =
     \<lparr>admissions_control_admitted = 0, admissions_control_capacity = capacity\<rparr>"

definition admissions_control_add :: "bool \<Rightarrow> u64 \<Rightarrow> admissions_control \<Rightarrow> admissions_control res" where
  "admissions_control_add enabled admissions_estimate s =
     (if enabled
      then assertc (admissions_estimate > 0)
             (Inr (s\<lparr>admissions_control_admitted := admissions_control_admitted s + admissions_estimate\<rparr>))
      else Inr s)"

definition admissions_control_subtract :: "bool \<Rightarrow> u64 \<Rightarrow> admissions_control \<Rightarrow> admissions_control res" where
  "admissions_control_subtract enabled admissions_estimate s =
     (if enabled
      then if admissions_estimate > admissions_control_admitted s then Inl Panic
           else Inr (s\<lparr>admissions_control_admitted := admissions_control_admitted s - admissions_estimate\<rparr>)
      else Inr s)"

definition admissions_control_calculate_estimate :: "bool \<Rightarrow> u64 \<Rightarrow> u64 \<Rightarrow> u64 res" where
  "admissions_control_calculate_estimate enabled estimated_execution relative_deadline =
     (if enabled
      then assertc (relative_deadline \<noteq> 0)
             (let admissions_estimate = (estimated_execution * of_nat ADMISSIONS_CONTROL_GRANULARITY) div relative_deadline
              in if admissions_estimate = 0 then Inl Panic else Inr admissions_estimate)
      else Inr 0)"

text \<open>The product of the 32-bit execution time and the granularity is computed in 32 bits and only then widened.\<close>

definition admissions_control_calculate_estimate_us :: "bool \<Rightarrow> u32 \<Rightarrow> u32 \<Rightarrow> u64 res" where
  "admissions_control_calculate_estimate_us enabled estimated_execution_us relative_deadline_us =
     (if enabled
      then assertc (relative_deadline_us \<noteq> 0)
             (Inr (ucast (estimated_execution_us * of_nat ADMISSIONS_CONTROL_GRANULARITY) div ucast relative_deadline_us))
      else Inr 0)"

definition admissions_control_decide :: "bool \<Rightarrow> u64 \<Rightarrow> admissions_control \<Rightarrow> (u64 \<times> admissions_control) res" where
  "admissions_control_decide enabled admissions_estimate s =
     (if enabled
      then if admissions_estimate = 0 then Inl Panic
           else if admissions_control_admitted s + admissions_estimate \<ge> admissions_control_capacity s then Inr (0, s)
           else bindr (admissions_control_add enabled admissions_estimate s) (\<lambda>s'. Inr (admissions_estimate, s'))
      else Inr (1, s))"

subsection \<open>admissions_info.c\<close>

record admissions_info =
  ai_window :: perf_window
  ai_percentile :: nat
  control_index :: nat
  ai_estimate :: u64
  ai_relative_deadline :: u64

definition admissions_info_initialize :: "bool \<Rightarrow> nat \<Rightarrow> u64 \<Rightarrow> u64 \<Rightarrow> admissions_info \<Rightarrow> admissions_info res" where
  "admissions_info_initialize enabled percentile expected_execution relative_deadline a =
     (if enabled
      then assertc (relative_deadline > 0)
          (assertc (expected_execution > 0)
            (bindr (admissions_control_calculate_estimate enabled expected_execution relative_deadline) (\<lambda>e.
             if percentile < 50 \<or> 99 < percentile then Inl Panic
             else Inr \<lparr>ai_window = perf_window_initialize, ai_percentile = percentile,
                       control_index = PERF_WINDOW_CAPACITY * percentile div 100, ai_estimate = e,
                       ai_relative_deadline = relative_deadline\<rparr>)))
      else Inr a)"

definition admissions_info_update :: "bool \<Rightarrow> u64 \<Rightarrow> admissions_info \<Rightarrow> admissions_info res" where
  "admissions_info_update enabled execution_duration a =
     (if enabled
      then bindr (perf_window_add ((ai_window a)\<lparr>pw_locked := True\<rparr>) execution_duration) (\<lambda>w.
           bindr (perf_window_get_percentile w (ai_percentile a) (control_index a)) (\<lambda>estimated_execution.
           bindr (admissions_control_calculate_estimate enabled estimated_execution (ai_relative_deadline a)) (\<lambda>e.
           Inr (a\<lparr>ai_window := w\<lparr>pw_locked := False\<rparr>, ai_estimate := e\<rparr>))))
      else Inr a)"

subsection \<open>route_latency.h\<close>

definition route_latency_get :: "perf_window \<Rightarrow> nat \<Rightarrow> nat \<Rightarrow> (u64 \<times> perf_window) res" where
  "route_latency_get w percentile precomputed_index =
     bindr (perf_window_get_percentile (w\<lparr>pw_locked := True\<rparr>) percentile precomputed_index) (\<lambda>r.
     Inr (r, w\<lparr>pw_locked := False\<rparr>))"

definition route_latency_add :: "perf_window \<Rightarrow> u64 \<Rightarrow> perf_window res" where
  "route_latency_add w v = bindr (perf_window_add (w\<lparr>pw_locked := True\<rparr>) v) (\<lambda>w'. Inr (w'\<lparr>pw_locked := False\<rparr>))"

subsection \<open>Runs of the accounting\<close>

text \<open>
  The listener decides on requests one at a time; workers give back the estimate of a request that
  they complete. The multiset holds the estimates that were admitted and not yet given back.
\<close>

inductive admission_step ::
  "admissions_control \<times> u64 multiset \<Rightarrow> admissions_control \<times> u64 multiset \<Rightarrow> bool" where
  step_admit: "\<lbrakk>admissions_control_decide True e s = Inr (w, s'); w \<noteq> 0; unat e + unat (admissions_control_capacity s) < 2 ^ 64\<rbrakk>
      \<Longrightarrow> admission_step (s, A) (s', add_mset e A)"
| step_reject: "admissions_control_decide True e s = Inr (0, s') \<Longrightarrow> admission_step (s, A) (s', A)"
| step_finish: "\<lbrakk>e \<in># A; admissions_control_subtract True e s = Inr s'\<rbrakk> \<Longrightarrow> admission_step (s, A) (s', A - {#e#})"

definition load_of :: "u64 multiset \<Rightarrow> nat" where
  "load_of A = (\<Sum>e\<in>#A. unat e)"

definition accounted :: "u64 \<Rightarrow> admissions_control \<Rightarrow> u64 multiset \<Rightarrow> bool" where
  "accounted c s A \<longleftrightarrow> admissions_control_capacity s = c \<and> unat (admissions_control_admitted s) = load_of A \<and>
     (A \<noteq> {#} \<longrightarrow> load_of A < unat c)"

lemma load_of_member: "e \<in># A \<Longrightarrow> unat e \<le> load_of A"
  by (auto simp: load_of_def dest!: multi_member_split)

lemma load_of_remove: "e \<in># A \<Longrightarrow> load_of (A - {#e#}) = load_of A - unat e"
  by (auto simp: load_of_def dest!: multi_member_split)

lemma admit_accounted:
  assumes "accounted c s A" "admissions_control_decide True e s = Inr (w, s')" "w \<noteq> 0" "unat e + unat c < 2 ^ 64"
  shows "accounted c s' (add_mset e A)"
proof -
  have s': "s' = s\<lparr>admissions_control_admitted := admissions_control_admitted s + e\<rparr>"
    and lt: "admissions_control_admitted s + e < admissions_control_capacity s"
    using assms(2,3) by (auto simp: admissions_control_decide_def admissions_control_add_def assertc_def split: if_splits)
  have "load_of A \<le> unat c" using assms(1) by (cases "A = {#}") (auto simp: accounted_def load_of_def)
  then have "unat (admissions_control_admitted s + e) = load_of A + unat e"
    using assms(1,4) by (simp add: accounted_def unat_word_ariths)
  then show ?thesis using assms(1) lt s' by (auto simp: accounted_def load_of_def word_less_nat_alt)
qed

lemma finish_accounted:
  assumes "accounted c s A" "e \<in># A"
  shows "\<exists>s'. admissions_control_subtract True e s = Inr s' \<and> accounted c s' (A - {#e#})"
proof -
  have le: "e \<le> admissions_control_admitted s"
    using assms load_of_member [OF assms(2)] by (simp add: accounted_def word_le_nat_alt)
  then have "admissions_control_subtract True e s = Inr (s\<lparr>admissions_control_admitted := admissions_control_admitted s - e\<rparr>)"
    by (simp add: admissions_control_subtract_def not_less)
  moreover have "A \<noteq> {#}" using assms(2) by auto
  ultimately show ?thesis
    using assms le load_of_remove [OF assms(2)] by (auto simp: accounted_def unat_sub)
qed

lemma reject_same: "admissions_control_decide True e s = Inr (0, s') \<Longrightarrow> s' = s"
  by (auto simp: admissions_control_decide_def admissions_control_add_def assertc_def split: if_splits)

lemma step_accounted:
  assumes "admission_step (s, A) (s', A')" "accounted c s A"
  shows "accounted c s' A'"
  using assms(1)
proof cases
  case (step_admit e w)
  then show ?thesis using admit_accounted [OF assms(2), of e w s'] assms(2) by (simp add: accounted_def)
next
  case (step_reject e)
  then show ?thesis using reject_same assms(2) by blast
next
  case (step_finish e)
  then show ?thesis using finish_accounted [OF assms(2), of e] by auto
qed

lemma run_accounted:
  assumes "admission_step\<^sup>*\<^sup>* (s, A) (s', A')" "accounted c s A"
  shows "accounted c s' A'"
  using assms
proof (induction "(s', A')" arbitrary: s' A' rule: rtranclp_induct)
  case base
  then show ?case by simp
next
  case (step y)
  obtain s1 A1 where "y = (s1, A1)" by (cases y)
  then show ?case using step step_accounted by blast
qed



end
