(* ===== verification/Listener.thy ===== *)
theory Listener
  imports Http_Session Admissions Sandbox Global_Request_Scheduler Wasm_Globals
begin

text \<open>
  The listener thread, runtime/src/listener_thread.c, from the arrival of a connection to the hand-over of a sandbox to the
  workers and from a blocked response to its end, with the router of runtime/include/http_router.h. It
  composes the sessions, the admission control, the sandboxes and the queue of requests. The state that a
  handler works on is one session together with these; clock readings, the answers of the kernel,
  the parser and the addresses of new objects are collected in an environment.
\<close>

subsection \<open>http_router.h\<close>

record route =
  route_path :: string
  rt_module :: nat
  relative_deadline_us :: u32
  relative_deadline :: u64
  response_content_type :: string
  rt_admissions_info :: admissions_info
  rt_latency :: perf_window

text \<open>The fields of a route configuration that the router reads; null pointers are \<^const>\<open>None\<close>.\<close>

record route_config =
  rc_route :: "string option"
  rc_relative_deadline_us :: u32
  rc_http_resp_content_type :: "string option"
  rc_admissions_percentile :: nat
  rc_expected_execution_us :: u32

definition zero_info :: admissions_info where
  "zero_info = \<lparr>ai_window = perf_window_initialize, ai_percentile = 0, control_index = 0, ai_estimate = 0, ai_relative_deadline = 0\<rparr>"

definition http_router_init :: "bool \<Rightarrow> route \<Rightarrow> u64 \<Rightarrow> route vec \<Rightarrow> route vec" where
  "http_router_init calloc_ok zero capacity router = snd (vec_init calloc_ok zero capacity router)"

definition http_router_add_route ::
  "bool \<Rightarrow> bool \<Rightarrow> route list \<Rightarrow> u32 \<Rightarrow> route vec \<Rightarrow> route_config \<Rightarrow> nat \<Rightarrow> (int \<times> route vec) res" where
  "http_router_add_route enabled realloc_ok fresh runtime_processor_speed_MHz router config md =
     (case (rc_route config, rc_http_resp_content_type config) of
        (Some path, Some content_type) \<Rightarrow>
          let deadline = (ucast (rc_relative_deadline_us config) :: u64) * ucast runtime_processor_speed_MHz;
              expected_execution = (ucast (rc_expected_execution_us config) :: u64) * ucast runtime_processor_speed_MHz
          in bindr (admissions_info_initialize enabled (rc_admissions_percentile config) expected_execution deadline zero_info) (\<lambda>info.
             bindr (vec_push realloc_ok fresh router
               \<lparr>route_path = path, rt_module = md, relative_deadline_us = rc_relative_deadline_us config, relative_deadline = deadline,
                response_content_type = content_type, rt_admissions_info = info, rt_latency = perf_window_initialize\<rparr>) (\<lambda>(rc, router').
             Inr (if rc = - 1 then - 1 else 0, router')))
      | _ \<Rightarrow> Inl Assertion_Failure)"

text \<open>\<open>strncmp\<close> over the length of the route compares the start of the URL; the result is the index of the route.\<close>

fun first_match :: "route list \<Rightarrow> string \<Rightarrow> nat \<Rightarrow> nat option" where
  "first_match [] url i = None"
| "first_match (r # rs) url i = (if take (length (route_path r)) url = route_path r then Some i else first_match rs url (Suc i))"

definition http_router_match_route :: "route vec \<Rightarrow> string \<Rightarrow> nat option" where
  "http_router_match_route router url = first_match (vec_list router) url 0"

subsection \<open>listener_thread.c\<close>

record ('p, 'rq, 'g) listener =
  session :: "'p http_session"
  admissions :: admissions_control
  sandbox_heap :: "'rq worker"
  requests :: 'g

record ('p, 'g) environment =
  env_build :: build_flags
  env_admissions :: bool
  env_config :: "'g global_request_scheduler_config"
  env_router :: "route vec"
  env_execute :: "'p parser_execute"
  env_session :: nat
  env_new_sandbox :: "sandbox_ptr option"
  now_downloaded :: u64
  now_allocated :: u64
  now_initialized :: u64
  now_takeoff :: u64
  now_sent :: u64

definition route_at :: "route vec \<Rightarrow> nat \<Rightarrow> route" where
  "route_at router i = vec_list router ! i"

text \<open>Sending the response header and, after it, the body of the session of the listener.\<close>

definition header_sending_of ::
  "('p, 'g) environment \<Rightarrow> write_result list \<Rightarrow> ('p, 'rq, 'g) listener \<Rightarrow> (('p, 'rq, 'g) listener \<times> write_result list) option res" where
  "header_sending_of env ws L =
     bindr (on_client_response_header_sending (now_sent env) ws (session L)) (\<lambda>r.
       Inr (map_option (\<lambda>(s, ws'). (L\<lparr>session := s\<rparr>, ws')) r))"

definition body_sending_of ::
  "('p, 'g) environment \<Rightarrow> write_result list \<Rightarrow> ('p, 'rq, 'g) listener \<Rightarrow> (('p, 'rq, 'g) listener \<times> write_result list) option res" where
  "body_sending_of env ws L =
     bindr (on_client_response_body_sending (now_sent env) ws (session L)) (\<lambda>r.
       Inr (map_option (\<lambda>(s, ws'). (L\<lparr>session := s\<rparr>, ws')) r))"

text \<open>The common end of every refused request: complete the session with a status code and send it.\<close>

definition refuse ::
  "('p, 'g) environment \<Rightarrow> int \<Rightarrow> write_result list \<Rightarrow> ('p, 'rq, 'g) listener \<Rightarrow> (('p, 'rq, 'g) listener \<times> write_result list) option res" where
  "refuse env status_code ws L =
     bindr (http_session_set_response_header (now_takeoff env) (\<lambda>i. response_content_type (route_at (env_router env) i)) status_code
              ((session L)\<lparr>hs_state := HTTP_SESSION_EXECUTION_COMPLETE\<rparr>)) (\<lambda>s.
       header_sending_of env ws (L\<lparr>session := s\<rparr>))"

definition on_client_request_received ::
  "('p, 'g) environment \<Rightarrow> write_result list \<Rightarrow> ('p, 'rq, 'g) listener \<Rightarrow> (('p, 'rq, 'g) listener \<times> write_result list) option res" where
  "on_client_request_received env ws L =
     assertc (hs_state (session L) = HTTP_SESSION_RECEIVED_REQUEST)
       (let s = (session L)\<lparr>request_downloaded_timestamp := now_downloaded env\<rparr>
        in case http_router_match_route (env_router env) (full_url (http_req s)) of
             None \<Rightarrow> refuse env 404 ws (L\<lparr>session := s\<rparr>)
           | Some i \<Rightarrow>
               let s1 = s\<lparr>hs_route := Some i\<rparr>; rt = route_at (env_router env) i
               in bindr (admissions_control_decide (env_admissions env) (ai_estimate (rt_admissions_info rt)) (admissions L)) (\<lambda>(work, ac).
                 if work = 0 then refuse env 429 ws (L\<lparr>session := s1, admissions := ac\<rparr>)
                 else
                   let s2 = s1\<lparr>hs_state := HTTP_SESSION_EXECUTING\<rparr>
                   in bindr (sandbox_alloc (env_build env) (now_allocated env) (now_initialized env) (relative_deadline rt) (env_new_sandbox env)
                        (rt_module rt) (env_session env) i (hs_tenant s2) work (sandbox_heap L)) (\<lambda>(sb, w).
                     case sb of
                       None \<Rightarrow> refuse env 500 ws (L\<lparr>session := s2, admissions := ac, sandbox_heap := w\<rparr>)
                     | Some p \<Rightarrow>
                         bindr (global_request_scheduler_add (env_config env) (requests L) p) (\<lambda>(queued, q).
                           if queued = None
                           then bindr (sandbox_free p w) (\<lambda>w'.
                             refuse env 429 ws (L\<lparr>session := s2, admissions := ac, sandbox_heap := w', requests := q\<rparr>))
                           else Inr (Some (L\<lparr>session := s2, admissions := ac, sandbox_heap := w, requests := q\<rparr>, ws))))))"

definition on_client_request_receiving ::
  "('p, 'g) environment \<Rightarrow> read_result list \<Rightarrow> write_result list \<Rightarrow> ('p, 'rq, 'g) listener \<Rightarrow>
   (('p, 'rq, 'g) listener \<times> write_result list) option res" where
  "on_client_request_receiving env rs ws L =
     bindr (http_session_receive_request (env_execute env) epoll_cb rs (session L)) (\<lambda>r. case r of
       None \<Rightarrow> Inr None
     | Some (rc, s, _) \<Rightarrow>
         if rc = 0 then on_client_request_received env ws (L\<lparr>session := s\<rparr>)
         else if rc = - EAGAIN then Inr (Some (L\<lparr>session := s\<rparr>, ws))
         else refuse env 400 ws (L\<lparr>session := s\<rparr>))"

text \<open>
  A new connection. Where the session cannot be allocated, the code goes on to use the null pointer. The first
  argument is the result of the allocation, the two following ones those of opening its buffers.
\<close>

definition on_client_request_arrival ::
  "bool \<Rightarrow> int option \<Rightarrow> int option \<Rightarrow> 'p \<Rightarrow> int \<Rightarrow> nat \<Rightarrow> u64 \<Rightarrow> 'p http_session \<Rightarrow> ('p, 'g) environment \<Rightarrow> read_result list \<Rightarrow> write_result list \<Rightarrow>
   ('p, 'rq, 'g) listener \<Rightarrow> (('p, 'rq, 'g) listener \<times> write_result list) option res" where
  "on_client_request_arrival calloc_ok request_failure header_failure fresh_parser client_socket tenant now zero_session env rs ws L =
     assertc (client_socket \<ge> 0)
       (if \<not> calloc_ok then Inl Null_Dereference
        else bindr (http_session_init request_failure header_failure fresh_parser client_socket tenant now zero_session) (\<lambda>(rc, s).
          if rc \<noteq> 0 then Inl Null_Dereference else on_client_request_receiving env rs ws (L\<lparr>session := s\<rparr>)))"

text \<open>An epoll event on the socket of a client, with its two flags.\<close>

definition on_client_socket_epoll_event ::
  "bool \<Rightarrow> bool \<Rightarrow> ('p, 'g) environment \<Rightarrow> read_result list \<Rightarrow> write_result list \<Rightarrow> ('p, 'rq, 'g) listener \<Rightarrow>
   (('p, 'rq, 'g) listener \<times> write_result list) option res" where
  "on_client_socket_epoll_event epollin epollout env rs ws L =
     bindr (listener_thread_unregister_http_session True True (session L)) (\<lambda>s.
       let L1 = L\<lparr>session := s\<rparr>
       in if hs_state s = HTTP_SESSION_RECEIVE_REQUEST_BLOCKED then assertc epollin (on_client_request_receiving env rs ws L1)
          else if hs_state s = HTTP_SESSION_SEND_RESPONSE_HEADER_BLOCKED then assertc epollout (header_sending_of env ws L1)
          else if hs_state s = HTTP_SESSION_SEND_RESPONSE_BODY_BLOCKED then assertc epollout (body_sending_of env ws L1)
          else Inl Panic)"

subsection \<open>Routing\<close>

lemma first_match_Some:
  "first_match rs url i = Some j \<longleftrightarrow>
     (\<exists>k < length rs. j = i + k \<and> take (length (route_path (rs ! k))) url = route_path (rs ! k) \<and>
        (\<forall>l < k. take (length (route_path (rs ! l))) url \<noteq> route_path (rs ! l)))"
proof (induction rs arbitrary: i)
  case Nil
  then show ?case by simp
next
  case (Cons r rs)
  show ?case
  proof (cases "take (length (route_path r)) url = route_path r")
    case True
    then show ?thesis by (auto simp: less_Suc_eq_0_disj)
  next
    case False
    have "(\<exists>k < length (r # rs). j = i + k \<and> take (length (route_path ((r # rs) ! k))) url = route_path ((r # rs) ! k) \<and>
        (\<forall>l < k. take (length (route_path ((r # rs) ! l))) url \<noteq> route_path ((r # rs) ! l))) \<longleftrightarrow>
      (\<exists>k < length rs. j = Suc i + k \<and> take (length (route_path (rs ! k))) url = route_path (rs ! k) \<and>
        (\<forall>l < k. take (length (route_path (rs ! l))) url \<noteq> route_path (rs ! l)))"
      using False by (simp add: Ex_less_Suc2 All_less_Suc2)
    then show ?thesis using False Cons.IH [of "Suc i"] by simp
  qed
qed

subsection \<open>Responses\<close>

text \<open>The events that a blocked response sees: its socket becomes writable again.\<close>

inductive writable_event ::
  "('p, 'g) environment \<Rightarrow> ('p, 'rq, 'g) listener \<times> write_result list \<Rightarrow> ('p, 'rq, 'g) listener \<times> write_result list \<Rightarrow> bool"
  for env where
  event: "\<lbrakk>blocked (session L); on_client_socket_epoll_event False True env rs ws L = Inr (Some (L', ws'))\<rbrakk> \<Longrightarrow>
    writable_event env (L, ws) (L', ws')"

lemma event_handled:
  assumes "progress ws" "blocked (session L)" "hs_socket (session L) > 2" "length (unsent (session L)) \<le> writes ws"
  shows "\<exists>s ws'. on_client_socket_epoll_event False True env rs ws L = Inr (Some (L\<lparr>session := s\<rparr>, ws')) \<and>
    handled (emit Epoll_Del (session L)) ws s ws'"
proof -
  let ?s = "emit Epoll_Del (session L)"
  have u: "unsent ?s = unsent (session L)" by (simp add: unsent_def)
  have unreg: "listener_thread_unregister_http_session True True (session L) = Inr ?s"
    by (simp add: listener_thread_unregister_http_session_def)
  from assms(2) show ?thesis unfolding blocked_def
  proof
    assume st: "hs_state (session L) = HTTP_SESSION_SEND_RESPONSE_HEADER_BLOCKED"
    then obtain s ws' where "on_client_response_header_sending (now_sent env) ws ?s = Inr (Some (s, ws'))" "handled ?s ws s ws'"
      using header_sending [of ws ?s "now_sent env"] assms(1,3,4) u by auto
    then show ?thesis using st unreg by (auto simp: on_client_socket_epoll_event_def header_sending_of_def)
  next
    assume st: "hs_state (session L) = HTTP_SESSION_SEND_RESPONSE_BODY_BLOCKED"
    then obtain s ws' where "on_client_response_body_sending (now_sent env) ws ?s = Inr (Some (s, ws'))" "handled ?s ws s ws'"
      using body_sending [of ws ?s "now_sent env"] assms(1,3,4) u by auto
    then show ?thesis using st unreg by (auto simp: on_client_socket_epoll_event_def body_sending_of_def)
  qed
qed

lemma blocked_response_ends:
  assumes "progress ws" "blocked (session L)" "hs_socket (session L) > 2" "length (unsent (session L)) \<le> writes ws"
  shows "\<exists>L' ws'. (writable_event env)\<^sup>*\<^sup>* (L, ws) (L', ws') \<and> sent (session L') = sent (session L) @ unsent (session L) \<and>
    finals (session L') = finals (session L) @ [Close_Socket, Session_Free] \<and> polls (session L') = polls (session L) - 1"
  using assms
proof (induction "length ws" arbitrary: ws L rule: less_induct)
  case less
  let ?s = "emit Epoll_Del (session L)"
  obtain s ws' where e: "on_client_socket_epoll_event False True env [] ws L = Inr (Some (L\<lparr>session := s\<rparr>, ws'))" "handled ?s ws s ws'"
    using event_handled [OF less.prems] by blast
  have u: "unsent ?s = unsent (session L)" by (simp add: unsent_def)
  have step: "writable_event env (L, ws) (L\<lparr>session := s\<rparr>, ws')" using e(1) less.prems(2) by (rule event [rotated])
  show ?case
  proof (cases "sent s = sent ?s @ unsent ?s \<and> finals s = finals ?s @ [Close_Socket, Session_Free] \<and> polls s = polls ?s")
    case True
    then show ?thesis using step u by (intro exI [of _ "L\<lparr>session := s\<rparr>"] exI [of _ ws']) auto
  next
    case False
    then have b: "progress ws'" "blocked s" "hs_socket s = hs_socket ?s" "sent s @ unsent s = sent ?s @ unsent ?s" "finals s = finals ?s"
      "polls s = polls ?s + 1" "length (unsent s) \<le> writes ws'" "length ws' < length ws"
      using e(2) by (auto simp: handled_def)
    then obtain L' ws'' where "(writable_event env)\<^sup>*\<^sup>* (L\<lparr>session := s\<rparr>, ws') (L', ws'')"
        "sent (session L') = sent s @ unsent s" "finals (session L') = finals s @ [Close_Socket, Session_Free]" "polls (session L') = polls s - 1"
      using less.hyps [of ws' "L\<lparr>session := s\<rparr>"] less.prems(3) by auto
    then show ?thesis using step b u
      by (intro exI [of _ L'] exI [of _ ws'']) (auto intro: converse_rtranclp_into_rtranclp)
  qed
qed

subsection \<open>Decisions\<close>

lemma refuse_frame:
  "refuse env c ws L = Inr (Some (L', ws')) \<Longrightarrow> admissions L' = admissions L \<and> sandbox_heap L' = sandbox_heap L \<and> requests L' = requests L"
  by (auto simp: refuse_def header_sending_of_def)

lemma decide_admits:
  "\<lbrakk>admissions_control_decide True e a = Inr (work, ac); work \<noteq> 0\<rbrakk> \<Longrightarrow>
    work = e \<and> admissions_control_admitted ac = admissions_control_admitted a + e"
  by (auto simp: admissions_control_decide_def admissions_control_add_def split: if_splits)

text \<open>The allocation of the sandbox for a request on a route.\<close>

definition new_sandbox ::
  "('p, 'g) environment \<Rightarrow> nat \<Rightarrow> u64 \<Rightarrow> ('p, 'rq, 'g) listener \<Rightarrow> (sandbox_ptr option \<times> 'rq worker) res" where
  "new_sandbox env i work L =
     sandbox_alloc (env_build env) (now_allocated env) (now_initialized env) (relative_deadline (route_at (env_router env) i))
       (env_new_sandbox env) (rt_module (route_at (env_router env) i)) (env_session env) i (hs_tenant (session L)) work (sandbox_heap L)"

lemma admitted_request:
  assumes "hs_state (session L) = HTTP_SESSION_RECEIVED_REQUEST"
    and "http_router_match_route (env_router env) (full_url (http_req (session L))) = Some i"
    and "admissions_control_decide (env_admissions env) (ai_estimate (rt_admissions_info (route_at (env_router env) i))) (admissions L) = Inr (work, ac)"
    and "work \<noteq> 0"
  shows "on_client_request_received env ws L =
    (let s2 = (session L)\<lparr>request_downloaded_timestamp := now_downloaded env, hs_route := Some i, hs_state := HTTP_SESSION_EXECUTING\<rparr>
     in bindr (new_sandbox env i work L) (\<lambda>(sb, w).
          case sb of
            None \<Rightarrow> refuse env 500 ws (L\<lparr>session := s2, admissions := ac, sandbox_heap := w\<rparr>)
          | Some p \<Rightarrow>
              bindr (global_request_scheduler_add (env_config env) (requests L) p) (\<lambda>(queued, q).
                if queued = None
                then bindr (sandbox_free p w) (\<lambda>w'.
                  refuse env 429 ws (L\<lparr>session := s2, admissions := ac, sandbox_heap := w', requests := q\<rparr>))
                else Inr (Some (L\<lparr>session := s2, admissions := ac, sandbox_heap := w, requests := q\<rparr>, ws)))))"
  using assms by (simp add: on_client_request_received_def new_sandbox_def Let_def)

subsection \<open>A listener with one route\<close>

definition sample_route :: route where
  "sample_route = \<lparr>route_path = ''/fib'', rt_module = 7, relative_deadline_us = 50, relative_deadline = 50, response_content_type = ''text/plain'',
     rt_admissions_info = zero_info\<lparr>ai_estimate := 5\<rparr>, rt_latency = perf_window_initialize\<rparr>"

definition sample_environment :: "(unit, sandbox_ptr priority_queue) environment" where
  "sample_environment = \<lparr>env_build = default_build, env_admissions = True, env_config = minheap_scheduler_config True (\<lambda>_. 0),
     env_router = \<lparr>vec_length = 1, vec_capacity = 1, vec_buffer = Some [sample_route]\<rparr>, env_execute = (\<lambda>p r d. Inr (p, r, length d, True)),
     env_session = 3, env_new_sandbox = Some 9, now_downloaded = 1, now_allocated = 2, now_initialized = 3, now_takeoff = 4, now_sent = 5\<rparr>"

definition sample_session :: "unit http_session" where
  "sample_session = \<lparr>hs_state = HTTP_SESSION_RECEIVED_REQUEST, hs_socket = 8, http_parser = (), http_req = zero_request\<lparr>full_url := ''/fib''\<rparr>,
     request_buffer = Some [], response_header = Some [], response_header_written = 0, response_body = None, response_body_written = 0,
     hs_tenant = 0, hs_route = None, request_arrival_timestamp = 0, request_downloaded_timestamp = 0, response_takeoff_timestamp = 0,
     response_sent_timestamp = 0, trace = []\<rparr>"

text \<open>Its request queue has one slot, which is taken.\<close>

definition sample_listener :: "(unit, nat, sandbox_ptr priority_queue) listener" where
  "sample_listener = \<lparr>session = sample_session, admissions = admissions_control_initialize 100, sandbox_heap = idle_worker 0,
     requests = \<lparr>use_lock = True, locked = False, highest_priority = 0, pq_size = 1, pq_capacity = 1, pq_items = [None, Some 1]\<rparr>\<rparr>"

subsection \<open>Properties\<close>

text \<open>
  Claim C3: responses are delivered. Take a session whose response is complete, on any kernel that answers each write
  with at least one byte taken or with EAGAIN, interleaved in any way, and that does the former at least once per
  byte of the response. Then sending the response and handling the epoll events that follow ends after finitely many
  events: the client has received the header followed by the body, complete and in order, the socket is closed and the session
  freed exactly once, and no epoll registration is left behind.
\<close>

theorem response_delivered:
  assumes "hs_state (session L) = HTTP_SESSION_EXECUTION_COMPLETE" and "hs_socket (session L) > 2"
    and "response_header_written (session L) = 0" and "response_body_written (session L) = 0"
    and "progress ws" and "length (buffer_of (response_header (session L))) + length (buffer_of (response_body (session L))) \<le> writes ws"
  shows "\<exists>L1 ws1 L' ws'. header_sending_of env ws L = Inr (Some (L1, ws1)) \<and> (writable_event env)\<^sup>*\<^sup>* (L1, ws1) (L', ws') \<and>
    sent (session L') = sent (session L) @ buffer_of (response_header (session L)) @ buffer_of (response_body (session L)) \<and>
    finals (session L') = finals (session L) @ [Close_Socket, Session_Free] \<and> polls (session L') = polls (session L)"
proof -
  let ?s = "session L"
  have u: "unsent ?s = buffer_of (response_header ?s) @ buffer_of (response_body ?s)" using assms(1,3,4) by (simp add: unsent_def)
  obtain s ws1 where h: "on_client_response_header_sending (now_sent env) ws ?s = Inr (Some (s, ws1))" "handled ?s ws s ws1"
    using header_sending [of ws ?s "now_sent env"] assms u by auto
  let ?L = "L\<lparr>session := s\<rparr>"
  have e: "header_sending_of env ws L = Inr (Some (?L, ws1))" using h(1) by (simp add: header_sending_of_def)
  show ?thesis
  proof (cases "sent s = sent ?s @ unsent ?s \<and> finals s = finals ?s @ [Close_Socket, Session_Free] \<and> polls s = polls ?s")
    case True
    then show ?thesis using e u by (intro exI [of _ ?L] exI [of _ ws1]) auto
  next
    case False
    then have b: "progress ws1" "blocked s" "hs_socket s = hs_socket ?s" "sent s @ unsent s = sent ?s @ unsent ?s" "finals s = finals ?s"
      "polls s = polls ?s + 1" "length (unsent s) \<le> writes ws1"
      using h(2) by (auto simp: handled_def)
    then obtain L' ws' where "(writable_event env)\<^sup>*\<^sup>* (?L, ws1) (L', ws')" "sent (session L') = sent s @ unsent s"
        "finals (session L') = finals s @ [Close_Socket, Session_Free]" "polls (session L') = polls s - 1"
      using blocked_response_ends [of ws1 ?L env] assms(2) by auto
    then show ?thesis using e b u by (intro exI [of _ ?L] exI [of _ ws1] exI [of _ L'] exI [of _ ws']) auto
  qed
qed

theorem response_delivered_witness:
  "\<exists>L1 ws1 L' ws'. header_sending_of sample_environment [Wrote 1, Write_Blocked, Wrote 1, Write_Blocked, Wrote 4]
       (sample_listener\<lparr>session := sample_session\<lparr>hs_state := HTTP_SESSION_EXECUTION_COMPLETE, response_header := Some ''ab'', response_body := Some ''c''\<rparr>\<rparr>)
       = Inr (Some (L1, ws1)) \<and>
     (writable_event sample_environment)\<^sup>*\<^sup>* (L1, ws1) (L', ws') \<and> sent (session L') = ''abc'' \<and> finals (session L') = [Close_Socket, Session_Free]"
proof -
  let ?s = "sample_session\<lparr>hs_state := HTTP_SESSION_EXECUTION_COMPLETE, response_header := Some ''ab'', response_body := Some ''c''\<rparr>"
  have "sent ?s = []" "finals ?s = []" by (simp_all add: sample_session_def sent_def finals_def)
  then show ?thesis
    using response_delivered [of "sample_listener\<lparr>session := ?s\<rparr>" "[Wrote 1, Write_Blocked, Wrote 1, Write_Blocked, Wrote 4]" sample_environment]
    by (simp add: sample_session_def buffer_of_def progress_def) blast
qed

text \<open>
  Claim C24: what becomes of an admitted request. When its sandbox is allocated and the request queue takes it, the handler
  returns with the session executing and exactly this sandbox queued, initialised, tied to the session and with the deadline of its route.
  When the queue is full, the listener does not answer 429 as it means to: freeing the sandbox fails an assertion and the
  runtime aborts. When the sandbox cannot be allocated, the request is refused but the load that was admitted for it is
  never given back.
\<close>

theorem admitted_request_outcomes:
  assumes "hs_state (session L) = HTTP_SESSION_RECEIVED_REQUEST"
    and "http_router_match_route (env_router env) (full_url (http_req (session L))) = Some i"
    and "admissions_control_decide (env_admissions env) (ai_estimate (rt_admissions_info (route_at (env_router env) i))) (admissions L) = Inr (work, ac)"
    and "work \<noteq> 0"
  shows "(\<forall>p w q x. new_sandbox env i work L = Inr (Some p, w) \<and> global_request_scheduler_add (env_config env) (requests L) p = Inr (Some x, q) \<longrightarrow>
      (\<exists>s. on_client_request_received env ws L = Inr (Some (L\<lparr>session := s, admissions := ac, sandbox_heap := w, requests := q\<rparr>, ws)) \<and>
        hs_state s = HTTP_SESSION_EXECUTING \<and> state_of w p = SANDBOX_INITIALIZED \<and> sb_http (sandboxes w p) = Some (env_session env) \<and>
        absolute_deadline (sandboxes w p) = now_allocated env + relative_deadline (route_at (env_router env) i))) \<and>
    (\<forall>p w q. new_sandbox env i work L = Inr (Some p, w) \<and> global_request_scheduler_add (env_config env) (requests L) p = Inr (None, q) \<longrightarrow>
      on_client_request_received env ws L = Inl Assertion_Failure) \<and>
    (\<forall>L' ws'. env_new_sandbox env = None \<and> env_admissions env \<and> on_client_request_received env ws L = Inr (Some (L', ws')) \<longrightarrow>
      requests L' = requests L \<and>
      admissions_control_admitted (admissions L') = admissions_control_admitted (admissions L) + ai_estimate (rt_admissions_info (route_at (env_router env) i)))"
proof (intro conjI allI impI; elim conjE)
  note e = admitted_request [OF assms, of ws]
  { fix p w q x
    assume n: "new_sandbox env i work L = Inr (Some p, w)" and a: "global_request_scheduler_add (env_config env) (requests L) p = Inr (Some x, q)"
    show "\<exists>s. on_client_request_received env ws L = Inr (Some (L\<lparr>session := s, admissions := ac, sandbox_heap := w, requests := q\<rparr>, ws)) \<and>
        hs_state s = HTTP_SESSION_EXECUTING \<and> state_of w p = SANDBOX_INITIALIZED \<and> sb_http (sandboxes w p) = Some (env_session env) \<and>
        absolute_deadline (sandboxes w p) = now_allocated env + relative_deadline (route_at (env_router env) i)"
      using e n a alloc_effects [OF n [unfolded new_sandbox_def]] by (auto simp: Let_def) }
  { fix p w q
    assume n: "new_sandbox env i work L = Inr (Some p, w)" and a: "global_request_scheduler_add (env_config env) (requests L) p = Inr (None, q)"
    have "sandbox_free p w = Inl Assertion_Failure"
      using alloc_effects [OF n [unfolded new_sandbox_def]] by (simp add: sandbox_free_def assertc_def)
    then show "on_client_request_received env ws L = Inl Assertion_Failure" using e n a by (simp add: Let_def) }
  { fix L' ws'
    assume h: "env_new_sandbox env = None" "env_admissions env" and r: "on_client_request_received env ws L = Inr (Some (L', ws'))"
    have "new_sandbox env i work L = Inr (None, sandbox_heap L)" using h(1) by (simp add: new_sandbox_def sandbox_alloc_def)
    then have "refuse env 500 ws (L\<lparr>session := (session L)\<lparr>request_downloaded_timestamp := now_downloaded env, hs_route := Some i,
        hs_state := HTTP_SESSION_EXECUTING\<rparr>, admissions := ac, sandbox_heap := sandbox_heap L\<rparr>) = Inr (Some (L', ws'))"
      using e r by (simp add: Let_def)
    then have f: "requests L' = requests L" "admissions L' = ac" by (simp_all add: refuse_frame)
    then show "requests L' = requests L" by simp
    show "admissions_control_admitted (admissions L') = admissions_control_admitted (admissions L) + ai_estimate (rt_admissions_info (route_at (env_router env) i))"
      using decide_admits [of "ai_estimate (rt_admissions_info (route_at (env_router env) i))" "admissions L" work ac] assms(3,4) h(2) f(2) by simp }
qed

theorem admitted_request_outcomes_witness:
  "on_client_request_received sample_environment [] sample_listener = Inl Assertion_Failure"
proof -
  have m: "http_router_match_route (env_router sample_environment) (full_url (http_req (session sample_listener))) = Some 0"
    by (simp add: sample_environment_def sample_listener_def sample_session_def http_router_match_route_def vec_list_def sample_route_def)
  let ?ac = "\<lparr>admissions_control_admitted = 5, admissions_control_capacity = 100\<rparr>"
  have d: "admissions_control_decide (env_admissions sample_environment)
      (ai_estimate (rt_admissions_info (route_at (env_router sample_environment) 0))) (admissions sample_listener) = Inr (5, ?ac)"
    by (simp add: sample_environment_def sample_listener_def route_at_def vec_list_def sample_route_def admissions_control_decide_def
      admissions_control_add_def admissions_control_initialize_def)
  obtain w where n: "new_sandbox sample_environment 0 5 sample_listener = Inr (Some 9, w)"
    by (simp add: new_sandbox_def sample_environment_def sample_listener_def sample_session_def sandbox_alloc_def sandbox_set_as_allocated_def
      sandbox_init_def sandbox_set_as_initialized_def sandbox_total_postfix_increment_def idle_worker_def zero_sandbox_def default_build_def
      state_change_bookkeeping_def sandbox_state_totals_increment_def sandbox_state_totals_decrement_def Let_def set_state_def upd_sandbox_def call_out_def)
  obtain q where "global_request_scheduler_add (env_config sample_environment) (requests sample_listener) 9 = Inr (None, q)"
    by (simp add: sample_environment_def sample_listener_def global_request_scheduler_minheap_add_def priority_queue_enqueue_def
      priority_queue_enqueue_nolock_def priority_queue_append_def lock_acquire_def lock_ok_def ENOSPC_def)
  then show ?thesis
    using admitted_request_outcomes [OF _ m d, of "[]"] n by (simp add: sample_listener_def sample_session_def)
qed

end
