(* ===== verification/Spec2Isabelle.thy ===== *)
theory Spec2Isabelle
  imports Mtds_Scheduler Wasm_Numeric Module_Pool Guest_Calls Listener
begin

text \<open>
  A model of the SLEdge serverless runtime, translated from its C sources, with the theorems that make it
  correct.

  \<^bold>\<open>The program.\<close> One listener thread accepts HTTP requests, matches them with the routes of a tenant,
  decides by admission control whether their deadlines can be met, and puts a \<^emph>\<open>sandbox\<close> for each admitted
  request into a global queue. Worker threads take sandboxes from there into their own run queues, and
  switch between them cooperatively and on timer signals, by order of arrival or by earliest
  deadline. A sandbox runs a function compiled from WebAssembly on a linear memory and a stack that each
  worker recycles through pools of the module. When it has finished, its response is sent to the client,
  with the help of epoll where the socket blocks.

  \<^bold>\<open>Conventions.\<close> Sledge_Prelude has the machine integers, at their width where they can wrap around, and
  the type of results: an operation either returns or stops the process, by a failed assertion (they are
  enabled in the default build), a panic, an access through a null pointer or outside of an array, or a
  trap. Code outside of the sources is an argument of the definitions: clock readings, the answers of the
  kernel to system calls, whether an allocation succeeds and at which address, the third-party
  HTTP parser, and the code of modules. Calls whose effect is outside of a component are recorded in
  order in a trace. Locked operations are atomic; the interleaving of threads is modelled access by access
  where the source relies on it, in the deque.

  \<^bold>\<open>Queues.\<close>
  \<^item> Priority_Queue (runtime/include/priority_queue.h): the binary heap with all its operations. The heap
    invariant and the contents as a multiset are kept; enqueuing and dequeuing sort; deletion removes
    the right element but can break the order, for which there is a concrete queue.
  \<^item> Deque (deque.h): the operations run alone refine a sequence; the listener and any number of stealing
    workers, interleaved at each shared access, hand over every element once and in order; the array is
    indexed without wrap-around, so it is overrun in the end.
  \<^item> Ps_List (ps_list.h): links in an explicit memory, which represent a ring of nodes.
  \<^item> Local_Runqueue (local_runqueue.c, local_runqueue_list.c, local_runqueue_minheap.c) and
    Global_Request_Scheduler (global_request_scheduler.c, _deque.c, _minheap.c): the interfaces as records of
    functions. What the scheduler relies on are the locales \<open>runqueue\<close>, \<open>edf_runqueue\<close> and \<open>request_queue\<close>,
    which both variants of each queue interpret.

  \<^bold>\<open>Scheduling.\<close>
  \<^item> Sandbox (sandbox_types.h, sandbox_state.h, sandbox_set_as_*.h, sandbox_functions.h, sandbox.c): the state
    machine of a sandbox with its clocks, and allocation and release. Steps only follow the documented
    transitions; the time spent in all states adds up to the time since allocation; a sandbox is in
    the run queue exactly in the states where it should be; its client is answered once.
  \<^item> Scheduler (scheduler.h, arch/context.h, software_interrupt.c, current_sandbox.c,
    local_cleanup_queue.c): the choice of the next sandbox and the switches. Under EDF
    the sandbox with the earliest deadline among the run queue and the global queue is chosen and
    preempts a later one; under FIFO the run queue is served in turn; a timer signal reaches every
    worker once. Two theorems show what happens when a sandbox cannot be prepared.
  \<^item> Mtds_Runqueue (local_runqueue_mtds.c, tenant.h) and Mtds_Scheduler (global_request_scheduler_mtds.c,
    tenant_functions.h, scheduler.h): the multi-tenant policy, where tenants that pay have a budget for each
    period. The run queue satisfies the locale \<open>runqueue\<close>, so it holds the right sandboxes along every run;
    tenants with budget come first, by deadline; the promotions at the end of a period come to an end, by a measure over
    the tenants that are due; a pass over both queues loses no request. The listener aborts on some requests, and
    budgets are never filled up again, for reasons the theorems show.

  \<^bold>\<open>Admission and routing.\<close>
  \<^item> Perf_Window (perf_window.h): the window holds the most recent execution times sorted by duration, and
    a percentile is the entry of that rank.
  \<^item> Admissions (admissions_control.c, admissions_info.c, route_latency.h): the admitted load never exceeds
    the capacity and is the sum of what is in progress.
  \<^item> Http_Request (http.h, http_request.h, http_parser_settings.c): the callbacks of the parser and what they make
    of a URL and of headers.
  \<^item> Http_Session (tcp_session.h, auto_buf.h, http_session.h): receiving and sending across blocking sockets.
    The loops consume a list of answers of the kernel, one for each call, and have not returned where
    the list is used up, so no fuel is needed.
  \<^item> Listener (http_router.h, route.h, listener_thread.c): the handlers, which compose all of the above. A
    response is delivered complete, in order and once, on every kernel that goes on making progress;
    a request that was admitted is queued, and what happens when that fails.

  \<^bold>\<open>Modules and memory.\<close>
  \<^item> Byte_Codec and Wasm_Memory (wasm_memory.h, libsledge/src/memory_instructions.c): loads and stores of all
    widths as bytes. A load returns what was stored and nothing else changes; the instructions of
    compiled code agree with the checked accesses of the runtime and stay within the mapped pages.
  \<^item> Wasm_Numeric (numeric_instructions.c), Wasm_Table (wasm_table.h, table_instructions.c) and Wasm_Globals
    (vec.h, wasm_globals.h): rotations and divisions with their traps, calls through the table, which are
    safe by type, and globals.
  \<^item> Module_Pool (pool.h, wasm_stack.h, module.h, module.c): the pools through which memories and stacks are
    recycled satisfy the locale \<open>object_pool\<close>, with and without a lock; whatever sandboxes did with it, a memory
    from the pool is as fresh as a new one; clearing a pool ends. The loop that clears a pool is a partial
    function, and that it ends is a theorem.
  \<^item> Wasi_Serdes (wasi_serdes.h, and the structures of wasi.h): structures of WASI survive being written to and
    read from linear memory, and I/O vectors never reach outside of it.
  \<^item> Wasi_Impl (wasi_impl_serverless.c, and the contexts of wasi.h): the calls behind WASI: arguments, environment, clock, standard
    streams and random bytes. The loop that reads random bytes consumes a list of answers of the kernel, like those
    of sessions.
  \<^item> Sledge_Abi (sledge_abi.c, current_sandbox.h, current_sandbox.c, and what libsledge links into a function:
    variable_instructions.c, wasi_snapshot_preview1.c and sledge_extensions.c): the calls of a compiled function, each between the two
    transitions of a system call, on the copy of its instance that the worker keeps. The locale \<open>guest_interface\<close>, interpreted
    on all calls, carries a sequence of calls: none of them reaches outside of the linear memory.
  \<^item> Guest_Calls: what a function gets out of these calls. Its arguments arrive, the body of the request is read in order, what
    it writes becomes the response, memory grows as WebAssembly asks for below 65536 pages, and what happens to
    global 0 across a preemption. The hypothesis \<open>ready\<close> of these theorems says that the function is running and the clock advances.
  \<^item> Kv_Map (map.h): while keys have different hashes and nothing is deleted, the map refines a finite map; wrong
    answers otherwise. Its client lemmas are in the locale \<open>hashed_store\<close>.

  \<^bold>\<open>Not modelled.\<close> The code of modules, which the compiler generates, the reading of the configuration with a third-party
  tokenizer, the registries of tenants and modules, start-up, the metrics server and log output, which are input and output of the
  process. Machine registers, the
  assembly of a context switch, and floating point have no model: contexts are reduced to their
  variant and floats in memory to their bits. Spin locks are not modelled beyond who may hold them, and
  weak memory order is not modelled.
\<close>

end
